(* ===== verification/Prelude.thy ===== *)
theory Prelude
  imports Complex_Main "HOL-Library.AList" "HOL-Library.List_Lexorder" "HOL-Library.Char_ord"
    "HOL-Library.Multiset"
begin

text \<open>
  Shared vocabulary of the development: what the Go language and the parts of its standard
  library used by dim mean here.

  \<^item> A call that may fail is a value of \<open>'a res\<close>: \<open>Ok\<close> the result, \<open>Err\<close> the text of the
    returned error, \<open>Panic\<close> a run-time panic (index out of range, nil dereference, failed
    type assertion, division by zero) or \<open>Fatalln\<close> of the logger, which ends the process.
  \<^item> A Go string is a list of bytes, so \<open>length\<close> is Go's \<open>len\<close>.
  \<^item> A Go map is an association list with distinct keys. The order of the list is the order
    in which a \<open>range\<close> loop visits the entries in this run; Go leaves that order open, so a
    theorem that holds for every list holds for every iteration order.
\<close>

section \<open>Collections of rules\<close>

named_theorems go_string_simps \<open>characterisations of the string routines\<close>
named_theorems go_map_simps \<open>lookup laws of Go maps\<close>
named_theorems res_simps \<open>rewriting of fallible results\<close>

section \<open>Fallible results\<close>

datatype 'a res = Ok 'a | Err string | Panic

fun res_bind :: "'a res \<Rightarrow> ('a \<Rightarrow> 'b res) \<Rightarrow> 'b res" where
  "res_bind (Ok a) f = f a"
| "res_bind (Err e) f = Err e"
| "res_bind Panic f = Panic"

fun res_map :: "('a \<Rightarrow> 'b) \<Rightarrow> 'a res \<Rightarrow> 'b res" where
  "res_map f (Ok a) = Ok (f a)"
| "res_map f (Err e) = Err e"
| "res_map f Panic = Panic"

fun is_ok :: "'a res \<Rightarrow> bool" where
  "is_ok (Ok a) = True"
| "is_ok _ = False"

text \<open>The run over a list in which the first failure stops the loop.\<close>

fun res_mapM :: "('a \<Rightarrow> 'b res) \<Rightarrow> 'a list \<Rightarrow> 'b list res" where
  "res_mapM f [] = Ok []"
| "res_mapM f (x # xs) = res_bind (f x) (\<lambda>y. res_bind (res_mapM f xs) (\<lambda>ys. Ok (y # ys)))"

lemma res_bind_Ok_iff [res_simps]: "res_bind r f = Ok b \<longleftrightarrow> (\<exists>a. r = Ok a \<and> f a = Ok b)"
  by (cases r) auto

lemma res_map_Ok_iff [res_simps]: "res_map f r = Ok b \<longleftrightarrow> (\<exists>a. r = Ok a \<and> f a = b)"
  by (cases r) auto

lemma is_ok_iff [res_simps]: "is_ok r \<longleftrightarrow> (\<exists>a. r = Ok a)"
  by (cases r) auto

lemma res_mapM_Ok_iff [res_simps]:
  "res_mapM f xs = Ok ys \<longleftrightarrow> list_all2 (\<lambda>x y. f x = Ok y) xs ys"
proof (induction xs arbitrary: ys)
  case Nil
  then show ?case by auto
next
  case (Cons x xs)
  then show ?case by (cases ys) (auto simp: res_simps)
qed

lemma res_mapM_all_Ok: "(\<And>x. x \<in> set xs \<Longrightarrow> f x = Ok (g x)) \<Longrightarrow> res_mapM f xs = Ok (map g xs)"
  by (induction xs) auto

text \<open>
  Calls that change a state: what follows runs on the new state, and only when the call succeeded.
  \<open>wait_bind\<close> is the same for calls that may wait for the user for ever (\<open>None\<close>).
\<close>

fun st_bind :: "'d \<times> 'a res \<Rightarrow> ('a \<Rightarrow> 'd \<Rightarrow> 'd \<times> 'b res) \<Rightarrow> 'd \<times> 'b res" where
  "st_bind (d, Ok a) f = f a d"
| "st_bind (d, Err e) f = (d, Err e)"
| "st_bind (d, Panic) f = (d, Panic)"

fun wait_bind ::
    "('d \<times> 'a res) option \<Rightarrow> ('a \<Rightarrow> 'd \<Rightarrow> ('d \<times> 'b res) option) \<Rightarrow> ('d \<times> 'b res) option" where
  "wait_bind None f = None"
| "wait_bind (Some (d, Ok a)) f = f a d"
| "wait_bind (Some (d, Err e)) f = Some (d, Err e)"
| "wait_bind (Some (d, Panic)) f = Some (d, Panic)"

lemma st_bind_Ok_iff [res_simps]:
  "st_bind r f = (d, Ok b) \<longleftrightarrow> (\<exists>d' a. r = (d', Ok a) \<and> f a d' = (d, Ok b))"
  by (cases "(r, f)" rule: st_bind.cases) auto

lemma wait_bind_Ok_iff [res_simps]:
  "wait_bind r f = Some (d, Ok b) \<longleftrightarrow> (\<exists>d' a. r = Some (d', Ok a) \<and> f a d' = Some (d, Ok b))"
  by (cases "(r, f)" rule: wait_bind.cases) auto

lemma wait_bind_cong: "(\<And>d a. r = Some (d, Ok a) \<Longrightarrow> f a d = g a d) \<Longrightarrow> wait_bind r f = wait_bind r g"
  by (cases "(r, f)" rule: wait_bind.cases) auto

lemma wait_bind_assoc: "wait_bind (wait_bind r f) g = wait_bind r (\<lambda>a d. wait_bind (f a d) g)"
  by (cases "(r, f)" rule: wait_bind.cases) auto

lemma st_bind_not_Ok: "(\<And>d' a. r = (d', Ok a) \<Longrightarrow> snd (f a d') \<noteq> Ok b) \<Longrightarrow> snd (st_bind r f) \<noteq> Ok b"
  by (cases "(r, f)" rule: st_bind.cases) auto

lemma st_bind_fst:
  "(\<And>a d. h (fst (f a d)) = h d) \<Longrightarrow> h (fst (st_bind r f)) = h (fst r)"
  by (cases "(r, f)" rule: st_bind.cases) auto

section \<open>Lists updated by index\<close>

lemma sum_list_map_update:
  fixes f :: "'a \<Rightarrow> 'b :: comm_monoid_add"
  shows "i < length xs \<Longrightarrow> sum_list (map f (xs[i := v])) + f (xs ! i) = sum_list (map f xs) + f v"
proof (induction xs arbitrary: i)
  case (Cons x xs)
  then show ?case by (cases i) (simp_all add: ac_simps)
qed simp

lemma set_update_keeps: "x \<in> set xs \<Longrightarrow> xs ! i \<noteq> x \<Longrightarrow> x \<in> set (xs[i := v])"
  by (metis in_set_conv_nth length_list_update nth_list_update_neq)

lemma set_update_other: "x \<in> set (xs[i := v]) \<Longrightarrow> x \<noteq> v \<Longrightarrow> x \<in> set xs"
  by (metis insertE set_update_subset_insert subsetD)

section \<open>Strings\<close>

definition HasPrefix :: "string \<Rightarrow> string \<Rightarrow> bool" where
  "HasPrefix s p \<longleftrightarrow> length p \<le> length s \<and> take (length p) s = p"

definition HasSuffix :: "string \<Rightarrow> string \<Rightarrow> bool" where
  "HasSuffix s p \<longleftrightarrow> length p \<le> length s \<and> drop (length s - length p) s = p"

definition TrimPrefix :: "string \<Rightarrow> string \<Rightarrow> string" where
  "TrimPrefix s p = (if HasPrefix s p then drop (length p) s else s)"

definition TrimSuffix :: "string \<Rightarrow> string \<Rightarrow> string" where
  "TrimSuffix s p = (if HasSuffix s p then take (length s - length p) s else s)"

lemma HasPrefix_iff [go_string_simps]: "HasPrefix s p \<longleftrightarrow> (\<exists>t. s = p @ t)"
  unfolding HasPrefix_def by (metis append_take_drop_id append_eq_conv_conj le_add1 length_append)

lemma HasSuffix_iff [go_string_simps]: "HasSuffix s p \<longleftrightarrow> (\<exists>t. s = t @ p)"
proof
  assume "HasSuffix s p"
  then have "s = take (length s - length p) s @ p"
    unfolding HasSuffix_def by (metis append_take_drop_id)
  then show "\<exists>t. s = t @ p" ..
next
  assume "\<exists>t. s = t @ p"
  then show "HasSuffix s p" by (auto simp: HasSuffix_def)
qed

lemma HasPrefix_append [simp]: "HasPrefix (p @ t) p"
  by (auto simp: go_string_simps)

lemma TrimPrefix_append [simp]: "TrimPrefix (p @ t) p = t"
  by (simp add: TrimPrefix_def)

lemma TrimSuffix_append [simp]: "TrimSuffix (t @ p) p = t"
  by (auto simp: TrimSuffix_def HasSuffix_def)

text \<open>
  \<open>strings.Split\<close> with a separator of one byte: the result is never empty and one element
  longer than the number of separators.
\<close>

fun Split :: "string \<Rightarrow> char \<Rightarrow> string list" where
  "Split [] c = [[]]"
| "Split (x # xs) c =
     (if x = c then [] # Split xs c
      else (case Split xs c of [] \<Rightarrow> [[x]] | y # ys \<Rightarrow> (x # y) # ys))"

fun Join :: "string list \<Rightarrow> string \<Rightarrow> string" where
  "Join [] sep = []"
| "Join [s] sep = s"
| "Join (s # t # ss) sep = s @ sep @ Join (t # ss) sep"

lemma Split_nonempty [simp]: "Split s c \<noteq> []"
  by (induction s c rule: Split.induct) (auto split: list.splits)

lemma Split_no_sep [simp]: "c \<notin> set s \<Longrightarrow> Split s c = [s]"
  by (induction s) auto

lemma Split_sep: "c \<notin> set s \<Longrightarrow> Split (s @ c # t) c = s # Split t c"
  by (induction s) auto

lemma Split_parts: "p \<in> set (Split s c) \<Longrightarrow> c \<notin> set p"
  by (induction s c arbitrary: p rule: Split.induct) (auto split: list.splits if_splits)

lemma Join_Cons_char [simp]: "Join ((x # s) # ss) sep = x # Join (s # ss) sep"
  by (cases ss) auto

lemma Join_Cons: "ss \<noteq> [] \<Longrightarrow> Join (s # ss) sep = s @ sep @ Join ss sep"
  by (cases ss) auto

lemma Join_append:
  "xs \<noteq> [] \<Longrightarrow> ys \<noteq> [] \<Longrightarrow> Join (xs @ ys) sep = Join xs sep @ sep @ Join ys sep"
proof (induction xs)
  case (Cons x xs)
  then show ?case by (cases "xs = []") (auto simp: Join_Cons)
qed simp

lemma Join_Split [simp]: "Join (Split s c) [c] = s"
proof (induction s c rule: Split.induct)
  case (2 x xs c)
  then show ?case by (cases "Split xs c") (auto simp: Join_Cons split: list.splits)
qed simp

lemma Split_length: "length (Split s c) = Suc (count_list s c)"
  by (induction s c rule: Split.induct) (auto split: list.splits)

text \<open>The part of \<open>strings.TrimSpace\<close> that matters: the UTF-8 encodings of Unicode's white
  space, stripped from both ends.\<close>

definition space_runes :: "string list" where
  "space_runes =
     [[char_of (9::nat)], [char_of (10::nat)], [char_of (11::nat)], [char_of (12::nat)],
      [char_of (13::nat)], [char_of (32::nat)],
      [char_of (194::nat), char_of (133::nat)], [char_of (194::nat), char_of (160::nat)],
      [char_of (225::nat), char_of (154::nat), char_of (128::nat)]]
     @ map (\<lambda>k. [char_of (226::nat), char_of (128::nat), char_of k]) [128..<139]
     @ [[char_of (226::nat), char_of (128::nat), char_of (168::nat)],
        [char_of (226::nat), char_of (128::nat), char_of (169::nat)],
        [char_of (226::nat), char_of (128::nat), char_of (175::nat)],
        [char_of (226::nat), char_of (129::nat), char_of (159::nat)],
        [char_of (227::nat), char_of (128::nat), char_of (128::nat)]]"

definition strip_one :: "string list \<Rightarrow> string \<Rightarrow> string" where
  "strip_one ps s = (case filter (HasPrefix s) ps of [] \<Rightarrow> s | p # _ \<Rightarrow> drop (length p) s)"

fun strip_all :: "nat \<Rightarrow> string list \<Rightarrow> string \<Rightarrow> string" where
  "strip_all 0 ps s = s"
| "strip_all (Suc n) ps s = strip_all n ps (strip_one ps s)"

definition TrimSpace :: "string \<Rightarrow> string" where
  "TrimSpace s =
     (let t = strip_all (length s) space_runes s
      in rev (strip_all (length t) (map rev space_runes) (rev t)))"

lemma strip_one_suffix: "\<exists>p. s = p @ strip_one ps s"
  unfolding strip_one_def by (auto split: list.splits) (metis append_take_drop_id)

lemma strip_all_suffix: "\<exists>p. s = p @ strip_all n ps s"
proof (induction n ps s rule: strip_all.induct)
  case (2 n ps s)
  then show ?case using strip_one_suffix [of s ps] by (metis append_assoc strip_all.simps(2))
qed simp

lemma length_strip_all: "length (strip_all n ps s) \<le> length s"
  using strip_all_suffix [of s n ps] by (metis le_add2 length_append)

lemma TrimSpace_length: "length (TrimSpace s) \<le> length s"
  unfolding TrimSpace_def Let_def
  by (metis (no_types, lifting) le_trans length_rev length_strip_all)

lemma strip_all_id: "\<forall>p \<in> set ps. \<not> HasPrefix s p \<Longrightarrow> strip_all n ps s = s"
  by (induction n) (auto simp: strip_one_def filter_empty_conv split: list.splits)

text \<open>A text that starts and ends with visible ASCII characters stays as it is.\<close>

definition visible :: "char \<Rightarrow> bool" where
  "visible c \<longleftrightarrow> (let k = of_char c :: nat in 33 \<le> k \<and> k \<le> 126)"

lemma space_runes_invisible:
  "p \<in> set space_runes \<Longrightarrow> p \<noteq> [] \<and> \<not> visible (hd p) \<and> \<not> visible (last p)"
  by (auto simp: space_runes_def visible_def Let_def)

lemma not_HasPrefix: "p \<noteq> [] \<Longrightarrow> s \<noteq> [] \<Longrightarrow> hd p \<noteq> hd s \<Longrightarrow> \<not> HasPrefix s p"
  by (cases s; cases p) (auto simp: HasPrefix_def)

lemma TrimSpace_visible:
  assumes "s \<noteq> []" "visible (hd s)" "visible (last s)"
  shows "TrimSpace s = s"
proof -
  have "\<forall>p \<in> set space_runes. \<not> HasPrefix s p \<and> \<not> HasPrefix (rev s) (rev p)"
  proof
    fix p assume "p \<in> set space_runes"
    from space_runes_invisible [OF this] assms show "\<not> HasPrefix s p \<and> \<not> HasPrefix (rev s) (rev p)"
      by (intro conjI not_HasPrefix) (auto simp: hd_rev)
  qed
  then have "strip_all (length s) space_runes s = s"
    "strip_all (length s) (map rev space_runes) (rev s) = rev s"
    by (auto intro!: strip_all_id)
  then show ?thesis by (simp add: TrimSpace_def)
qed

lemma TrimSpace_Nil [simp]: "TrimSpace [] = []"
  by (simp add: TrimSpace_def)

section \<open>Integers\<close>

text \<open>
  Go's \<open>int\<close> has 64 bits here. \<open>Itoa\<close> prints in base 10; \<open>Atoi\<close> is the value
  \<open>strconv.Atoi\<close> returns when the caller drops the error: \<open>0\<close> on a syntax error and the
  nearest bound of the type when the value is out of range.
\<close>

definition max_int :: int where "max_int = 2 ^ 63 - 1"

definition min_int :: int where "min_int = - (2 ^ 63)"

fun digit_char :: "nat \<Rightarrow> char" where
  "digit_char d = char_of (48 + d)"

function nat_digits :: "nat \<Rightarrow> string" where
  "nat_digits n = (if n < 10 then [digit_char n] else nat_digits (n div 10) @ [digit_char (n mod 10)])"
  by pat_completeness auto
termination by (relation "measure id") auto

declare nat_digits.simps [simp del]

definition Itoa :: "int \<Rightarrow> string" where
  "Itoa i = (if i < 0 then CHR ''-'' # nat_digits (nat (- i)) else nat_digits (nat i))"

definition digit_val :: "char \<Rightarrow> nat option" where
  "digit_val c = (let k = of_char c :: nat in if 48 \<le> k \<and> k \<le> 57 then Some (k - 48) else None)"

fun digits_val :: "nat \<Rightarrow> string \<Rightarrow> nat option" where
  "digits_val acc [] = Some acc"
| "digits_val acc (c # cs) =
     (case digit_val c of None \<Rightarrow> None | Some d \<Rightarrow> digits_val (10 * acc + d) cs)"

definition clamp_int :: "int \<Rightarrow> int" where
  "clamp_int i = max min_int (min max_int i)"

definition Atoi :: "string \<Rightarrow> int" where
  "Atoi s =
     (case s of
        [] \<Rightarrow> 0
      | c # cs \<Rightarrow>
          (let (neg, ds) = (if c = CHR ''-'' then (True, cs)
                            else if c = CHR ''+'' then (False, cs) else (False, s))
           in if ds = [] then 0
              else (case digits_val 0 ds of
                      None \<Rightarrow> 0
                    | Some n \<Rightarrow> clamp_int (if neg then - int n else int n))))"

lemma digit_val_digit_char [simp]: "d < 10 \<Longrightarrow> digit_val (digit_char d) = Some d"
  by (simp add: digit_val_def)

lemma digit_val_sign [simp]: "digit_val (CHR ''-'') = None" "digit_val (CHR ''+'') = None"
  by (simp_all add: digit_val_def)

lemma digits_val_append:
  "digits_val acc (xs @ ys) = (case digits_val acc xs of None \<Rightarrow> None | Some n \<Rightarrow> digits_val n ys)"
  by (induction xs arbitrary: acc) (auto split: option.splits)

lemma nat_digits_neq_Nil [simp]: "nat_digits n \<noteq> []"
  by (subst nat_digits.simps) simp

lemma digits_val_nat_digits [simp]: "digits_val 0 (nat_digits n) = Some n"
proof (induction n rule: nat_digits.induct)
  case (1 n)
  then show ?case
    by (subst nat_digits.simps) (simp add: digits_val_append del: digit_char.simps)
qed

lemma hd_nat_digits: "digit_val (hd (nat_digits n)) \<noteq> None"
  by (cases "nat_digits n") (use digits_val_nat_digits [of n] in \<open>auto split: option.splits\<close>)

lemma Atoi_Itoa: "Atoi (Itoa i) = clamp_int i"
proof (cases "i < 0")
  case True
  then show ?thesis by (simp add: Atoi_def Itoa_def)
next
  case False
  then obtain c cs where c: "nat_digits (nat i) = c # cs"
    by (cases "nat_digits (nat i)") auto
  with hd_nat_digits [of "nat i"] have "c \<noteq> CHR ''-''" "c \<noteq> CHR ''+''"
    by auto
  with False c digits_val_nat_digits [of "nat i"] show ?thesis
    by (simp add: Atoi_def Itoa_def)
qed

section \<open>Runs that end\<close>

text \<open>
  The systems of goroutines are step relations with their reachable states. Each lowers a measure
  from every sound state and keeps it sound, so it comes to rest whatever the schedule.
\<close>

locale runs =
  fixes step :: "'s \<Rightarrow> 's \<Rightarrow> bool" and reach :: "'s \<Rightarrow> 's \<Rightarrow> bool" and left :: "'s \<Rightarrow> nat" and sound :: "'s \<Rightarrow> bool"
  assumes reach_stay: "reach s s"
    and reach_move: "reach s t \<Longrightarrow> step t u \<Longrightarrow> reach s u"
    and reach_least: "reach s t \<Longrightarrow> Q s \<Longrightarrow> (\<And>t u. Q t \<Longrightarrow> step t u \<Longrightarrow> Q u) \<Longrightarrow> Q t"
    and sound_step: "sound s \<Longrightarrow> step s t \<Longrightarrow> sound t"
    and lowers: "sound s \<Longrightarrow> step s t \<Longrightarrow> left t < left s"
begin

lemma sound_reach: "reach s t \<Longrightarrow> sound s \<Longrightarrow> sound t"
  using reach_least [of s t sound] sound_step by blast

lemma rests:
  assumes "reach s t" and "sound s"
  shows "\<exists>u. reach s u \<and> (\<nexists>v. step u v)"
  using assms(1)
proof (induction "left t" arbitrary: t rule: less_induct)
  case less
  have "sound t" using sound_reach [OF less.prems assms(2)] .
  then show ?case using less.hyps less.prems reach_move lowers by blast
qed

text \<open>No schedule goes on for ever.\<close>

lemma no_infinite_run:
  assumes "sound s"
  shows "\<nexists>f. f 0 = s \<and> (\<forall>i. step (f i) (f (Suc i)))"
proof (rule notI, elim exE conjE)
  fix f assume f: "f 0 = s" "\<forall>i. step (f i) (f (Suc i))"
  then have "sound (f i)" for i
    by (induction i) (use assms sound_step in auto)
  with f(2) lowers have "(f (Suc i), f i) \<in> measure left" for i by simp
  with wf_measure [of left] show False unfolding wf_iff_no_infinite_down_chain by blast
qed

lemma ends: "sound s \<Longrightarrow> \<exists>t. reach s t \<and> (\<nexists>u. step t u)"
  using rests reach_stay by blast

end

end
