(* ===== verification/GoMap.thy ===== *)
theory GoMap
  imports Prelude
begin

text \<open>
  Go's \<open>map[string]string\<close>, the laws its users rely on, and what a loop of assignments builds.
  A nil map is \<open>None\<close> where the code tells it from an empty one.
\<close>

section \<open>Maps as association lists\<close>

type_synonym ('k, 'v) gomap = "('k \<times> 'v) list"

type_synonym strmap = "(string, string) gomap"

definition wf_map :: "('k, 'v) gomap \<Rightarrow> bool" where
  "wf_map m \<longleftrightarrow> distinct (map fst m)"

definition mput :: "'k \<Rightarrow> 'v \<Rightarrow> ('k, 'v) gomap \<Rightarrow> ('k, 'v) gomap" where
  "mput k v m = AList.update k v m"

text \<open>Indexing a map of strings with an absent key gives the zero value.\<close>

definition mindex :: "('k, string) gomap \<Rightarrow> 'k \<Rightarrow> string" where
  "mindex m k = (case map_of m k of None \<Rightarrow> [] | Some v \<Rightarrow> v)"

text \<open>Ranging over, indexing and measuring a nil map are those of the empty map.\<close>

definition nil_or :: "('k, 'v) gomap option \<Rightarrow> ('k, 'v) gomap" where
  "nil_or m = (case m of None \<Rightarrow> [] | Some e \<Rightarrow> e)"

lemma nil_or_simps [simp]: "nil_or None = []" "nil_or (Some m) = m"
  by (simp_all add: nil_or_def)

section \<open>The contract of a map\<close>

locale go_map =
  fixes empty :: "'m"
    and put :: "'k \<Rightarrow> 'v \<Rightarrow> 'm \<Rightarrow> 'm"
    and get :: "'m \<Rightarrow> 'k \<Rightarrow> 'v option"
    and entries :: "'m \<Rightarrow> ('k \<times> 'v) list"
    and wf :: "'m \<Rightarrow> bool"
  assumes wf_empty: "wf empty"
    and wf_put: "wf m \<Longrightarrow> wf (put k v m)"
    and get_empty: "get empty k = None"
    and get_put: "get (put k v m) l = (if l = k then Some v else get m l)"
    and entries_get: "wf m \<Longrightarrow> (k, v) \<in> set (entries m) \<longleftrightarrow> get m k = Some v"
    and entries_distinct: "wf m \<Longrightarrow> distinct (map fst (entries m))"
begin

lemma wf_fold_put: "wf m \<Longrightarrow> wf (fold (\<lambda>(k, v). put k v) kvs m)"
  by (induction kvs arbitrary: m) (auto simp: wf_put)

text \<open>After a loop of assignments a key holds the last value assigned to it.\<close>

lemma get_fold_put:
  "get (fold (\<lambda>(k, v). put k v) kvs m) l =
     (case map_of (rev kvs) l of Some v \<Rightarrow> Some v | None \<Rightarrow> get m l)"
  by (induction kvs arbitrary: m)
    (auto simp: get_put map_add_def split: option.splits)

lemma get_build: "get (fold (\<lambda>(k, v). put k v) kvs empty) l = map_of (rev kvs) l"
  by (simp add: get_fold_put get_empty split: option.splits)

lemma entries_build:
  "(k, v) \<in> set (entries (fold (\<lambda>(k, v). put k v) kvs empty)) \<longleftrightarrow> map_of (rev kvs) k = Some v"
  by (simp add: entries_get wf_fold_put wf_empty get_build)

lemma get_entries: "wf m \<Longrightarrow> map_of (entries m) k = get m k"
  by (metis entries_distinct entries_get map_of_SomeD map_of_is_SomeI not_None_eq)

end

lemma map_of_mput [go_map_simps]: "map_of (mput k v m) l = (if l = k then Some v else map_of m l)"
  by (simp add: mput_def update_conv')

lemma wf_mput [simp]: "wf_map m \<Longrightarrow> wf_map (mput k v m)"
  by (simp add: wf_map_def mput_def distinct_update)

lemma wf_Nil [simp]: "wf_map []"
  by (simp add: wf_map_def)

lemma keys_mput: "fst ` set (mput k v m) = insert k (fst ` set m)"
  using map_of_mput [of k v m] by (auto simp flip: dom_map_of_conv_image_fst simp: dom_def)

lemma map_of_rev_distinct: "distinct (map fst m) \<Longrightarrow> map_of (rev m) = map_of m"
  by (subst map_of_inject_set) (simp_all flip: rev_map)

interpretation gm: go_map "[]" mput map_of "\<lambda>m. m" wf_map
  by unfold_locales (auto simp: go_map_simps, auto simp: wf_map_def)

lemma mindex_mput [go_map_simps]: "mindex (mput k v m) l = (if l = k then v else mindex m l)"
  by (simp add: mindex_def go_map_simps)

lemma mindex_nonempty: "mindex m k \<noteq> [] \<Longrightarrow> map_of m k = Some (mindex m k)"
  by (auto simp: mindex_def split: option.splits)

end
