(* ===== verification/Utils.thy ===== *)
theory Utils
  imports GoMap
begin

text \<open>
  The helpers of \<open>lib/utils/utils.go\<close> on lists, maps, URLs and durations. \<open>ListContains\<close> and
  \<open>MapMatchesAll\<close> return from inside their loops, which are the recursions below.
\<close>

section \<open>Lists and maps\<close>

fun ListContains :: "string list \<Rightarrow> string \<Rightarrow> bool" where
  "ListContains [] search = False"
| "ListContains (r # rs) search = (if r = search then True else ListContains rs search)"

fun match_loop :: "strmap \<Rightarrow> strmap \<Rightarrow> bool" where
  "match_loop all [] = True"
| "match_loop all ((k, v) # rest) = (if mindex all k \<noteq> v then False else match_loop all rest)"

definition MapMatchesAll :: "strmap option \<Rightarrow> strmap option \<Rightarrow> bool" where
  "MapMatchesAll all search =
     (case (all, search) of
        (Some a, Some s) \<Rightarrow> (if length a \<ge> length s then match_loop a s else False)
      | _ \<Rightarrow> False)"

definition Keys :: "strmap option \<Rightarrow> string list" where
  "Keys m = map fst (nil_or m)"

definition FilterValues :: "strmap option \<Rightarrow> string \<Rightarrow> strmap" where
  "FilterValues m s =
     fold (\<lambda>(k, v) filtered. if v \<noteq> s then mput k v filtered else filtered) (nil_or m) []"

definition FlatMap :: "strmap option \<Rightarrow> string" where
  "FlatMap m =
     (if m = None \<or> nil_or m = [] then []
      else Join (sort (map (\<lambda>(k, v). k @ ''='' @ v) (nil_or m))) '', '')"

section \<open>URLs\<close>

definition BuildURL :: "string \<Rightarrow> bool \<Rightarrow> string" where
  "BuildURL hostname insecure =
     (if hostname = [] then []
      else if HasPrefix hostname ''http://'' \<or> HasPrefix hostname ''https://'' then hostname
      else (let protocol = (if insecure then ''http'' else ''https'')
            in protocol @ ''://'' @ hostname))"

section \<open>Correctness\<close>

lemma ListContains_iff [simp]: "ListContains xs s \<longleftrightarrow> s \<in> set xs"
  by (induction xs) auto

lemma match_loop_iff: "match_loop a s \<longleftrightarrow> (\<forall>(k, v) \<in> set s. mindex a k = v)"
  by (induction a s rule: match_loop.induct) auto

lemma submap_length:
  assumes "wf_map s" "map_of s \<subseteq>\<^sub>m map_of a"
  shows "length s \<le> length a"
proof -
  have "dom (map_of s) \<subseteq> dom (map_of a)"
    using assms(2) by (rule map_le_implies_dom_le)
  then have "card (set (map fst s)) \<le> card (set (map fst a))"
    by (intro card_mono) (simp_all add: dom_map_of_conv_image_fst)
  moreover have "card (set (map fst s)) = length (map fst s)"
    using assms(1) unfolding wf_map_def by (rule distinct_card)
  moreover have "card (set (map fst a)) \<le> length (map fst a)"
    by (rule card_length)
  ultimately show ?thesis by simp
qed

lemma MapMatchesAll_iff:
  assumes "wf_map s" and "\<forall>(k, v) \<in> set s. v \<noteq> []"
  shows "MapMatchesAll (Some a) (Some s) \<longleftrightarrow> map_of s \<subseteq>\<^sub>m map_of a"
proof
  assume "MapMatchesAll (Some a) (Some s)"
  then have m: "\<forall>(k, v) \<in> set s. mindex a k = v"
    by (simp add: MapMatchesAll_def match_loop_iff split: if_splits)
  show "map_of s \<subseteq>\<^sub>m map_of a"
  proof (unfold map_le_def, rule ballI)
    fix k assume "k \<in> dom (map_of s)"
    then obtain v where v: "map_of s k = Some v" by auto
    then have "(k, v) \<in> set s" by (rule map_of_SomeD)
    with m assms(2) have "mindex a k = v" "v \<noteq> []" by auto
    with v show "map_of s k = map_of a k" using mindex_nonempty [of a k] by simp
  qed
next
  assume le: "map_of s \<subseteq>\<^sub>m map_of a"
  have "map_of a k = Some v" if "(k, v) \<in> set s" for k v
    using that assms(1) le unfolding wf_map_def map_le_def
    by (metis domI map_of_is_SomeI)
  then show "MapMatchesAll (Some a) (Some s)"
    using submap_length [OF assms(1) le]
    by (auto simp: MapMatchesAll_def match_loop_iff mindex_def)
qed

text \<open>
  When no wanted value is empty, \<open>MapMatchesAll\<close> holds exactly when every wanted pair is a
  pair of the first map: the comparison of the two sizes never changes the answer. A nil map
  matches nothing and is matched by nothing.
\<close>

theorem MapMatchesAll_submap:
  assumes "wf_map s" and "\<forall>(k, v) \<in> set s. v \<noteq> []"
  shows "(MapMatchesAll (Some a) (Some s) \<longleftrightarrow> map_of s \<subseteq>\<^sub>m map_of a) \<and>
    \<not> MapMatchesAll None (Some s) \<and> \<not> MapMatchesAll (Some a) None"
  using MapMatchesAll_iff [OF assms] by (simp add: MapMatchesAll_def)

theorem MapMatchesAll_submap_witness:
  "MapMatchesAll (Some [(''os'', ''ubuntu''), (''arch'', ''arm'')]) (Some [(''os'', ''ubuntu'')])"
  using MapMatchesAll_submap [of "[(''os'', ''ubuntu'')]" "[(''os'', ''ubuntu''), (''arch'', ''arm'')]"]
  by (simp add: wf_map_def map_le_def)

lemma FilterValues_fold:
  "fold (\<lambda>(k, v) filtered. if v \<noteq> s then mput k v filtered else filtered) m acc =
   fold (\<lambda>(k, v). mput k v) (filter (\<lambda>(k, v). v \<noteq> s) m) acc"
  by (induction m arbitrary: acc) auto

lemma wf_FilterValues [simp]: "wf_map (FilterValues m s)"
  by (simp add: FilterValues_def FilterValues_fold gm.wf_fold_put)

lemma map_of_filter_vals:
  "distinct (map fst m) \<Longrightarrow>
   map_of (filter (\<lambda>(k, v). v \<noteq> s) m) k =
     (case map_of m k of Some v \<Rightarrow> (if v = s then None else Some v) | None \<Rightarrow> None)"
  by (induction m) (auto simp: map_of_eq_None_iff split: option.splits)

lemma map_of_FilterValues:
  assumes "wf_map (nil_or m)"
  shows "map_of (FilterValues m s) k =
    (case map_of (nil_or m) k of Some v \<Rightarrow> (if v = s then None else Some v) | None \<Rightarrow> None)"
proof -
  let ?f = "filter (\<lambda>(k, v). v \<noteq> s) (nil_or m)"
  have d: "distinct (map fst ?f)"
    using assms by (simp add: wf_map_def distinct_map_filter)
  have "map_of (FilterValues m s) k = map_of ?f k"
    by (simp only: FilterValues_def FilterValues_fold gm.get_build map_of_rev_distinct [OF d])
  also have "\<dots> = (case map_of (nil_or m) k of Some v \<Rightarrow> (if v = s then None else Some v)
                     | None \<Rightarrow> None)"
    using assms unfolding wf_map_def by (rule map_of_filter_vals)
  finally show ?thesis .
qed

text \<open>The text of a map does not depend on the order in which its entries are visited.\<close>

lemma FlatMap_perm: "mset m = mset m' \<Longrightarrow> FlatMap (Some m) = FlatMap (Some m')"
proof -
  assume eq: "mset m = mset m'"
  let ?e = "\<lambda>(k, v). k @ ''='' @ v"
  have "sort (map ?e m) = sort (map ?e m')"
    by (rule properties_for_sort) (simp_all add: eq)
  with eq show ?thesis by (auto simp: FlatMap_def)
qed

lemma BuildURL_has_scheme:
  "h \<noteq> [] \<Longrightarrow> HasPrefix (BuildURL h i) ''http://'' \<or> HasPrefix (BuildURL h i) ''https://''"
  by (auto simp: BuildURL_def Let_def go_string_simps)

text \<open>A URL is completed once: completing the result again, secure or not, leaves it alone.\<close>

lemma BuildURL_idem: "BuildURL (BuildURL h i) j = BuildURL h i"
proof (cases "h = []")
  case False
  with BuildURL_has_scheme [OF False, of i] show ?thesis
    unfolding BuildURL_def [of "BuildURL h i"]
    by (auto simp: HasPrefix_def)
qed (simp add: BuildURL_def)

end
