(* ===== verification/Durations.thy ===== *)
theory Durations
  imports Prelude
begin

text \<open>
  \<open>ParseDuration\<close> (\<open>lib/utils/utils.go\<close>): the age of an image in words. A duration is its number
  of nanoseconds. The code computes with floating-point numbers; here the quotients are exact
  rationals, and the verb \<open>%0.f\<close> rounds to the nearest integer, ties to even.
\<close>

definition Hours :: "int \<Rightarrow> rat" where
  "Hours d = of_int d / 3600000000000"

definition Minutes :: "int \<Rightarrow> rat" where
  "Minutes d = of_int d / 60000000000"

definition Seconds :: "int \<Rightarrow> rat" where
  "Seconds d = of_int d / 1000000000"

definition round_even :: "rat \<Rightarrow> int" where
  "round_even x =
     (let f = \<lfloor>x\<rfloor>; r = x - of_int f
      in if r < 1 / 2 then f else if r > 1 / 2 then f + 1 else if even f then f else f + 1)"

definition parseHours :: "rat \<Rightarrow> string" where
  "parseHours hours =
     (if hours < 48 then Itoa (round_even hours) @ '' hours ago''
      else if hours < 24 * 7 * 2 then Itoa (round_even (hours / 24)) @ '' days ago''
      else if hours < 24 * 7 * 4 * 2 then Itoa (round_even (hours / (24 * 7))) @ '' weeks ago''
      else Itoa (round_even (hours / (24 * 7 * 4))) @ '' months ago'')"

definition ParseDuration :: "int \<Rightarrow> string" where
  "ParseDuration since =
     (if Hours since > 24 then parseHours (Hours since)
      else if Minutes since \<ge> 90 then Itoa (round_even (Hours since)) @ '' hours ago''
      else if Minutes since < 90 \<and> Minutes since > 60 then ''1 hour ago''
      else if Seconds since > 90 then Itoa (round_even (Minutes since)) @ '' minutes ago''
      else if Seconds since > 60 then ''1 minute ago''
      else if Seconds since < 3 / 2 then ''1 second ago''
      else Itoa (round_even (Seconds since)) @ '' seconds ago'')"

section \<open>The text is accurate\<close>

lemma round_even_near: "2 * \<bar>x - of_int (round_even x)\<bar> \<le> 1"
proof -
  obtain f :: rat where f: "f = of_int \<lfloor>x\<rfloor>" by blast
  have "f \<le> x" "x < f + 1" unfolding f by linarith+
  then show ?thesis by (auto simp: round_even_def Let_def abs_if simp flip: f)
qed

lemma round_even_scaled:
  assumes "0 < u" shows "2 * \<bar>x - of_int (round_even (x / u)) * u\<bar> \<le> u"
proof -
  have "2 * \<bar>x / u - of_int (round_even (x / u))\<bar> \<le> 1" by (rule round_even_near)
  then have "u * (2 * \<bar>x / u - of_int (round_even (x / u))\<bar>) \<le> u"
    using assms by (simp add: mult_left_le)
  moreover have "u * (2 * \<bar>x / u - of_int (round_even (x / u))\<bar>) = 2 * \<bar>u * (x / u - of_int (round_even (x / u)))\<bar>"
    using assms by (simp add: abs_mult)
  moreover have "u * (x / u - of_int (round_even (x / u))) = x - of_int (round_even (x / u)) * u"
    using assms by (simp add: algebra_simps)
  ultimately show ?thesis by simp
qed

text \<open>The units of the text, in nanoseconds: a month counts four weeks.\<close>

definition age_units :: "(string \<times> rat) list" where
  "age_units =
     [('' second ago'', 1000000000), ('' seconds ago'', 1000000000),
      ('' minute ago'', 60000000000), ('' minutes ago'', 60000000000),
      ('' hour ago'', 3600000000000), ('' hours ago'', 3600000000000),
      ('' days ago'', 24 * 3600000000000), ('' weeks ago'', 24 * 7 * 3600000000000),
      ('' months ago'', 24 * 7 * 4 * 3600000000000)]"

text \<open>A text that is a number and a unit, as near to a duration as that unit allows.\<close>

definition tells :: "int \<Rightarrow> string \<Rightarrow> bool" where
  "tells d s \<longleftrightarrow>
     (\<exists>n name u. s = Itoa n @ name \<and> (name, u) \<in> set age_units \<and> 2 * \<bar>of_int d - of_int n * u\<bar> \<le> u)"

lemma tells_round:
  assumes "(name, u) \<in> set age_units" "x = of_int d / u"
  shows "tells d (Itoa (round_even x) @ name)"
proof -
  have "0 < u" using assms(1) by (auto simp: age_units_def)
  from round_even_scaled [OF this, of "of_int d"] assms show ?thesis unfolding tells_def by blast
qed

lemma tells_one: "(name, u) \<in> set age_units \<Longrightarrow> 2 * \<bar>of_int d - u\<bar> \<le> u \<Longrightarrow> tells d (''1'' @ name)"
proof -
  assume "(name, u) \<in> set age_units" "2 * \<bar>of_int d - u\<bar> \<le> u"
  moreover have "''1'' = Itoa 1" by (code_simp)
  ultimately show ?thesis unfolding tells_def by (metis mult_1 of_int_1)
qed

lemma tells_simps:
  "tells d (Itoa (round_even (Hours d)) @ '' hours ago'')"
  "tells d (Itoa (round_even (Hours d / 24)) @ '' days ago'')"
  "tells d (Itoa (round_even (Hours d / (24 * 7))) @ '' weeks ago'')"
  "tells d (Itoa (round_even (Hours d / (24 * 7 * 4))) @ '' months ago'')"
  "tells d (Itoa (round_even (Minutes d)) @ '' minutes ago'')"
  "tells d (Itoa (round_even (Seconds d)) @ '' seconds ago'')"
proof -
  show "tells d (Itoa (round_even (Hours d)) @ '' hours ago'')"
    by (rule tells_round [of _ 3600000000000]) (simp_all add: age_units_def Hours_def)
  show "tells d (Itoa (round_even (Hours d / 24)) @ '' days ago'')"
    by (rule tells_round [of _ "24 * 3600000000000"]) (simp_all add: age_units_def Hours_def)
  show "tells d (Itoa (round_even (Hours d / (24 * 7))) @ '' weeks ago'')"
    by (rule tells_round [of _ "24 * 7 * 3600000000000"]) (simp_all add: age_units_def Hours_def)
  show "tells d (Itoa (round_even (Hours d / (24 * 7 * 4))) @ '' months ago'')"
    by (rule tells_round [of _ "24 * 7 * 4 * 3600000000000"]) (simp_all add: age_units_def Hours_def)
  show "tells d (Itoa (round_even (Minutes d)) @ '' minutes ago'')"
    by (rule tells_round [of _ 60000000000]) (simp_all add: age_units_def Minutes_def)
  show "tells d (Itoa (round_even (Seconds d)) @ '' seconds ago'')"
    by (rule tells_round [of _ 1000000000]) (simp_all add: age_units_def Seconds_def)
qed

lemma tells_special:
  "Minutes d < 90 \<Longrightarrow> Minutes d > 60 \<Longrightarrow> tells d ''1 hour ago''"
  "Seconds d \<le> 90 \<Longrightarrow> Seconds d > 60 \<Longrightarrow> tells d ''1 minute ago''"
  "Seconds d < 3 / 2 \<Longrightarrow> 500000000 \<le> (of_int d :: rat) \<Longrightarrow> tells d ''1 second ago''"
  using tells_one [of "'' hour ago''" 3600000000000 d] tells_one [of "'' minute ago''" 60000000000 d]
    tells_one [of "'' second ago''" 1000000000 d]
  by (simp_all add: age_units_def Minutes_def Seconds_def abs_if)



end
