(* ===== verification/Sha256.thy ===== *)
theory Sha256
  imports Prelude "HOL-Library.Word"
begin

unbundle bit_operations_syntax

text \<open>
  SHA-256 as the standard library computes it, and \<open>Sha256\<close> of \<open>lib/utils/utils.go\<close>: the
  hexadecimal text of the digest of a password.
\<close>

definition rotr :: "nat \<Rightarrow> 32 word \<Rightarrow> 32 word" where
  "rotr n x = drop_bit n x OR push_bit (32 - n) x"

definition sha_k :: "32 word list" where
  "sha_k =
    [1116352408, 1899447441, 3049323471, 3921009573, 961987163, 1508970993, 2453635748, 2870763221,
     3624381080, 310598401, 607225278, 1426881987, 1925078388, 2162078206, 2614888103, 3248222580,
     3835390401, 4022224774, 264347078, 604807628, 770255983, 1249150122, 1555081692, 1996064986,
     2554220882, 2821834349, 2952996808, 3210313671, 3336571891, 3584528711, 113926993, 338241895,
     666307205, 773529912, 1294757372, 1396182291, 1695183700, 1986661051, 2177026350, 2456956037,
     2730485921, 2820302411, 3259730800, 3345764771, 3516065817, 3600352804, 4094571909, 275423344,
     430227734, 506948616, 659060556, 883997877, 958139571, 1322822218, 1537002063, 1747873779,
     1955562222, 2024104815, 2227730452, 2361852424, 2428436474, 2756734187, 3204031479, 3329325298]"

definition sha_init :: "32 word list" where
  "sha_init = [1779033703, 3144134277, 1013904242, 2773480762, 1359893119, 2600822924, 528734635, 1541459225]"

text \<open>The message as bytes, a one bit, zeros, and the length in bits as 64 bits.\<close>

definition be_bytes :: "nat \<Rightarrow> nat \<Rightarrow> nat list" where
  "be_bytes n x = map (\<lambda>i. x div 256 ^ (n - 1 - i) mod 256) [0..<n]"

definition sha_pad :: "string \<Rightarrow> nat list" where
  "sha_pad s =
     (let l = length s; z = (119 - l mod 64) mod 64
      in map of_char s @ [128] @ replicate z 0 @ be_bytes 8 (8 * l mod 2 ^ 64))"

fun be_word :: "nat list \<Rightarrow> 32 word" where
  "be_word bs = of_nat (fold (\<lambda>b acc. 256 * acc + b) bs 0)"

fun chunks :: "nat \<Rightarrow> nat \<Rightarrow> 'a list \<Rightarrow> 'a list list" where
  "chunks n 0 xs = []"
| "chunks n (Suc k) xs = take n xs # chunks n k (drop n xs)"

fun sha_schedule :: "nat \<Rightarrow> 32 word list \<Rightarrow> 32 word list" where
  "sha_schedule 0 w = w"
| "sha_schedule (Suc k) w =
     (let i = length w;
          a = w ! (i - 15); b = w ! (i - 2);
          s0 = rotr 7 a XOR rotr 18 a XOR drop_bit 3 a;
          s1 = rotr 17 b XOR rotr 19 b XOR drop_bit 10 b
      in sha_schedule k (w @ [w ! (i - 16) + s0 + w ! (i - 7) + s1]))"

fun sha_round :: "32 word \<times> 32 word \<Rightarrow> 32 word list \<Rightarrow> 32 word list" where
  "sha_round (k, w) [a, b, c, d, e, f, g, h] =
     (let s1 = rotr 6 e XOR rotr 11 e XOR rotr 25 e;
          ch = (e AND f) XOR (NOT e AND g);
          t1 = h + s1 + ch + k + w;
          s0 = rotr 2 a XOR rotr 13 a XOR rotr 22 a;
          maj = (a AND b) XOR (a AND c) XOR (b AND c);
          t2 = s0 + maj
      in [t1 + t2, a, b, c, d + t1, e, f, g])"
| "sha_round _ st = st"

definition sha_block :: "nat list \<Rightarrow> 32 word list \<Rightarrow> 32 word list" where
  "sha_block bytes st =
     (let w = sha_schedule 48 (map be_word (chunks 4 16 bytes))
      in map2 (+) st (fold sha_round (zip sha_k w) st))"

definition sha256_sum :: "string \<Rightarrow> nat list" where
  "sha256_sum s =
     (let p = sha_pad s
      in concat (map (\<lambda>w. be_bytes 4 (unat w)) (fold sha_block (chunks 64 (length p div 64) p) sha_init)))"

definition hex_byte :: "nat \<Rightarrow> string" where
  "hex_byte k = [''0123456789abcdef'' ! (k div 16), ''0123456789abcdef'' ! (k mod 16)]"

definition Sha256 :: "string \<Rightarrow> string" where
  "Sha256 passwd = concat (map hex_byte (sha256_sum passwd))"

section \<open>Shape of the result\<close>

lemma length_be_bytes [simp]: "length (be_bytes n x) = n"
  by (simp add: be_bytes_def)

lemma be_bytes_byte: "b \<in> set (be_bytes n x) \<Longrightarrow> b < 256"
  by (auto simp: be_bytes_def)

text \<open>The padded message is a whole number of blocks.\<close>

lemma pad_length: "64 dvd (l + (9 + (119 - l mod 64) mod 64) :: nat)"
proof -
  define q r where "q = l div 64" and "r = l mod 64"
  have l: "l = 64 * q + r" "r < 64" by (simp_all add: q_def r_def)
  have "\<exists>c. r + (9 + (119 - r) mod 64) = 64 * c"
  proof (cases "r \<le> 55")
    case True
    then have "119 - r = 64 + (55 - r)" "55 - r < 64" by simp_all
    then have "(119 - r) mod 64 = 55 - r" by (simp only: mod_add_self1 mod_less)
    with True show ?thesis by (intro exI [of _ 1]) simp
  next
    case False
    with l(2) show ?thesis by (intro exI [of _ 2]) simp
  qed
  then obtain c where "r + (9 + (119 - r) mod 64) = 64 * c" ..
  then have "l + (9 + (119 - r) mod 64) = 64 * q + 64 * c" by (simp add: l(1))
  then show ?thesis unfolding r_def by simp
qed

lemma sha_pad_blocks: "64 dvd length (sha_pad s)"
  using pad_length [of "length s"] by (simp add: sha_pad_def Let_def)

lemma length_sha_round: "length (sha_round kw st) = length st"
  by (induction kw st rule: sha_round.induct) (auto simp: Let_def)

lemma length_rounds: "length (fold sha_round kws st) = length st"
  by (induction kws arbitrary: st) (auto simp: length_sha_round)

lemma length_blocks: "length (fold sha_block bs st) = length st"
  by (induction bs arbitrary: st) (auto simp: sha_block_def Let_def length_rounds)

lemma length_sha256_sum: "length (sha256_sum s) = 32"
proof -
  have "length (concat (map (\<lambda>w. be_bytes 4 (unat w)) ws)) = 4 * length ws" for ws :: "32 word list"
    by (induction ws) auto
  then show ?thesis
    by (simp add: sha256_sum_def Let_def length_blocks) (simp add: sha_init_def)
qed

lemma sha256_sum_byte: "b \<in> set (sha256_sum s) \<Longrightarrow> b < 256"
  by (auto simp: sha256_sum_def Let_def dest: be_bytes_byte)

lemma set_hex_byte: "k < 256 \<Longrightarrow> set (hex_byte k) \<subseteq> set ''0123456789abcdef''"
proof -
  assume "k < 256"
  then have "k div 16 < length ''0123456789abcdef''" "k mod 16 < length ''0123456789abcdef''"
    by simp_all
  then have "''0123456789abcdef'' ! (k div 16) \<in> set ''0123456789abcdef''"
    "''0123456789abcdef'' ! (k mod 16) \<in> set ''0123456789abcdef''"
    by (simp_all only: nth_mem)
  then show ?thesis unfolding hex_byte_def by (simp only: list.set insert_subset empty_subsetI simp_thms)
qed

lemma length_hex_bytes: "length (concat (map hex_byte ks)) = 2 * length ks"
  by (induction ks) (simp_all add: hex_byte_def)

text \<open>
  An encoded password is always 64 characters long, each a lower-case hexadecimal digit,
  whatever the length of the password.
\<close>

theorem Sha256_shape:
  "length (Sha256 passwd) = 64 \<and> set (Sha256 passwd) \<subseteq> set ''0123456789abcdef''"
proof
  show "length (Sha256 passwd) = 64"
    by (simp add: Sha256_def length_hex_bytes length_sha256_sum)
  show "set (Sha256 passwd) \<subseteq> set ''0123456789abcdef''"
    unfolding Sha256_def set_concat set_map
    by (intro UN_least) (auto dest!: sha256_sum_byte set_hex_byte simp del: list.set)
qed

end
