(* ===== verification/Types.thy ===== *)
theory Types
  imports Utils
begin

text \<open>
  The data exchanged between the parts of dim (\<open>lib/types.go\<close>), the dynamically typed values
  of the search index, and the image description of the registry.

  A time is the number of nanoseconds since Go's zero time. A slice is a list; the code never
  tells a nil slice from an empty one. A digest is its text.
\<close>

type_synonym gotime = int

record SearchResult =
  sr_StarCount :: int
  sr_IsOfficial :: bool
  sr_Name :: string
  sr_IsAutomated :: bool
  sr_Description :: string
  sr_Tag :: string
  sr_FullName :: string
  sr_Created :: gotime
  sr_Label :: "strmap option"
  sr_Volumes :: "string list"
  sr_ExposedPorts :: "int list"
  sr_Env :: "strmap option"
  sr_Size :: int

record SearchResults =
  srs_Query :: string
  srs_NumResults :: int
  srs_Results :: "SearchResult list"

record Info =
  info_Version :: string
  info_Uptime :: string

record IndexImage =
  im_ID :: string
  im_Name :: string
  im_FullName :: string
  im_Tag :: string
  im_Comment :: string
  im_Created :: gotime
  im_Author :: string
  im_Label :: "strmap option"
  im_Labels :: "string list"
  im_Volumes :: "string list"
  im_ExposedPorts :: "int list"
  im_Env :: "strmap option"
  im_Envs :: "string list"
  im_Size :: int

text \<open>The struct literal with no field given.\<close>

definition zero_IndexImage :: IndexImage where
  "zero_IndexImage =
     \<lparr>im_ID = [], im_Name = [], im_FullName = [], im_Tag = [], im_Comment = [], im_Created = 0,
      im_Author = [], im_Label = None, im_Labels = [], im_Volumes = [], im_ExposedPorts = [],
      im_Env = None, im_Envs = [], im_Size = 0\<rparr>"

record IndexResults =
  ir_Total :: nat
  ir_Images :: "IndexImage list"

text \<open>\<open>ActionType\<close> is a string type with two named constants; a configuration file may hold
  any other text.\<close>

type_synonym ActionType = string

definition DeleteAction :: ActionType where "DeleteAction = ''delete''"

definition PushAction :: ActionType where "PushAction = ''push''"

lemma actions_differ [simp]: "DeleteAction \<noteq> PushAction" "PushAction \<noteq> DeleteAction"
  by (simp_all add: DeleteAction_def PushAction_def)

record NotificationJob =
  job_Action :: ActionType
  job_Repository :: string
  job_Tag :: string
  job_Digest :: string

section \<open>Images of the registry\<close>

text \<open>The fields of \<open>container.Config\<close> that dim reads; a set of ports or volumes is the list
  of its members in iteration order.\<close>

record ContainerConfig =
  cc_Labels :: "strmap option"
  cc_Volumes :: "string list"
  cc_Env :: "string list"
  cc_ExposedPorts :: "string list"

record V1Image =
  v1_Comment :: string
  v1_Created :: gotime
  v1_Author :: string
  v1_Config :: "ContainerConfig option"
  v1_Size :: int

record RegistryImage =
  ri_Image :: "V1Image option"
  ri_Tag :: string
  ri_Digest :: string

text \<open>The fields of \<open>types.ImageInspect\<close> of docker that dim reads and fills.\<close>

record ImageInspect =
  ii_ID :: string
  ii_RepoTags :: "string list"
  ii_Comment :: string
  ii_Author :: string
  ii_Created :: string
  ii_Config :: "ContainerConfig option"
  ii_Size :: int

section \<open>Ports\<close>

text \<open>\<open>Port.Int\<close> of docker's \<open>go-connections/nat\<close>, which dim calls on every exposed port.\<close>

definition SplitProtoPort :: "string \<Rightarrow> string \<times> string" where
  "SplitProtoPort rawPort =
     (let parts = Split rawPort (CHR ''/''); l = length parts
      in if rawPort = [] \<or> l = 0 \<or> parts ! 0 = [] then ([], [])
         else if l = 1 then (''tcp'', rawPort)
         else if parts ! 1 = [] then (''tcp'', parts ! 0)
         else (parts ! 1, parts ! 0))"

definition ParsePort :: "string \<Rightarrow> int" where
  "ParsePort rawPort =
     (if rawPort = [] then 0
      else (case digits_val 0 rawPort of
              None \<Rightarrow> 0
            | Some n \<Rightarrow> if n < 2 ^ 16 then int n else 0))"

definition Port_Int :: "string \<Rightarrow> int" where
  "Port_Int p = ParsePort (snd (SplitProtoPort p))"

lemma Port_Int_bounds: "0 \<le> Port_Int p \<and> Port_Int p < 65536"
  by (auto simp: Port_Int_def ParsePort_def split: option.splits)

lemma nat_digits_no_slash: "CHR ''/'' \<notin> set (nat_digits n)"
proof (induction n rule: nat_digits.induct)
  case (1 n)
  have ne: "digit_char d \<noteq> CHR ''/''" if "d < 10" for d
  proof
    assume "digit_char d = CHR ''/''"
    then have "digit_val (CHR ''/'') = Some d" using digit_val_digit_char [OF that] by simp
    then show False by (simp add: digit_val_def)
  qed
  with 1 show ?case
    by (subst nat_digits.simps) (auto simp: ne [symmetric] simp del: digit_char.simps)
qed

text \<open>A port printed as \<open>number/protocol\<close> reads back as its number.\<close>

lemma Port_Int_print:
  assumes "n < 2 ^ 16"
  shows "Port_Int (nat_digits n @ CHR ''/'' # proto) = int n"
proof -
  have "Split (nat_digits n @ CHR ''/'' # proto) (CHR ''/'') = nat_digits n # Split proto (CHR ''/'')"
    by (rule Split_sep) (rule nat_digits_no_slash)
  with assms show ?thesis
    by (auto simp: Port_Int_def SplitProtoPort_def ParsePort_def Let_def)
qed

end
