(* ===== verification/Wire.thy ===== *)
theory Wire
  imports Types
begin

text \<open>
  The JSON payloads the server and its clients exchange (\<open>lib/types.go\<close>: the struct tags of
  \<open>SearchResults\<close>, \<open>SearchResult\<close> and \<open>Info\<close>), as trees. The encoder is what \<open>json.Marshal\<close> makes
  of the tags, the decoder what \<open>Decoder.Decode\<close> does with a tree: members in their order,
  matched to a field exactly or up to the case of ASCII letters, unknown members ignored.
  The text of a tree and the text of a time are parameters of the model. An empty list of the
  model stands for the nil slice as for the empty one, which are decoded alike.
\<close>

section \<open>Trees\<close>

datatype jval =
  JNull
| JBool bool
| JInt int
| JFloat string
| JStr string
| JArr "jval list"
| JObj "(string \<times> jval) list"

text \<open>A map is encoded with its keys sorted, a nil map as null.\<close>

definition enc_map :: "strmap option \<Rightarrow> jval" where
  "enc_map m = (case m of None \<Rightarrow> JNull | Some kvs \<Rightarrow> JObj (map (\<lambda>(k, v). (k, JStr v)) (sort_key fst kvs)))"

definition enc_SearchResult :: "(gotime \<Rightarrow> string res) \<Rightarrow> SearchResult \<Rightarrow> jval res" where
  "enc_SearchResult time_text r = res_map (\<lambda>created. JObj
     [(''star_count'', JInt (sr_StarCount r)), (''is_official'', JBool (sr_IsOfficial r)),
      (''name'', JStr (sr_Name r)), (''is_automated'', JBool (sr_IsAutomated r)),
      (''description'', JStr (sr_Description r)), (''tag'', JStr (sr_Tag r)),
      (''full_name'', JStr (sr_FullName r)), (''created'', JStr created),
      (''label'', enc_map (sr_Label r)), (''volumes'', JArr (map JStr (sr_Volumes r))),
      (''exposed_ports'', JArr (map JInt (sr_ExposedPorts r))), (''env'', enc_map (sr_Env r)),
      (''size'', JInt (sr_Size r))]) (time_text (sr_Created r))"

definition enc_SearchResults :: "(gotime \<Rightarrow> string res) \<Rightarrow> SearchResults \<Rightarrow> jval res" where
  "enc_SearchResults time_text rs = res_map (\<lambda>results. JObj
     [(''query'', JStr (srs_Query rs)), (''num_results'', JInt (srs_NumResults rs)),
      (''results'', JArr results)]) (res_mapM (enc_SearchResult time_text) (srs_Results rs))"

definition enc_Info :: "Info \<Rightarrow> jval" where
  "enc_Info i = JObj [(''version'', JStr (info_Version i)), (''uptime'', JStr (info_Uptime i))]"

section \<open>Decoding\<close>

definition lower :: "char \<Rightarrow> char" where
  "lower c = (let k = of_char c :: nat in if 65 \<le> k \<and> k \<le> 90 then char_of (k + 32) else c)"

definition is_field :: "string \<Rightarrow> string \<Rightarrow> bool" where
  "is_field name key \<longleftrightarrow> map lower key = map lower name"

text \<open>The targets of the decoder. Null leaves a scalar as it is.\<close>

definition type_error :: "'a res" where
  "type_error = Err ''json: cannot unmarshal value into Go value''"

fun dec_string :: "jval \<Rightarrow> string \<Rightarrow> string res" where
  "dec_string (JStr s) old = Ok s"
| "dec_string JNull old = Ok old"
| "dec_string _ old = type_error"

fun dec_bool :: "jval \<Rightarrow> bool \<Rightarrow> bool res" where
  "dec_bool (JBool b) old = Ok b"
| "dec_bool JNull old = Ok old"
| "dec_bool _ old = type_error"

fun dec_int :: "jval \<Rightarrow> int \<Rightarrow> int res" where
  "dec_int (JInt i) old = (if min_int \<le> i \<and> i \<le> max_int then Ok i else type_error)"
| "dec_int JNull old = Ok old"
| "dec_int _ old = type_error"

fun dec_time :: "(string \<Rightarrow> gotime res) \<Rightarrow> jval \<Rightarrow> gotime \<Rightarrow> gotime res" where
  "dec_time parse (JStr s) old = parse s"
| "dec_time parse JNull old = Ok old"
| "dec_time parse _ old = type_error"

text \<open>A slice is filled from its start, each element from the zero value (Go would reuse the
  old elements of a slice whose member occurs twice in a payload).\<close>

fun dec_list :: "(jval \<Rightarrow> 'a res) \<Rightarrow> jval \<Rightarrow> 'a list res" where
  "dec_list dec (JArr vs) = res_mapM dec vs"
| "dec_list dec JNull = Ok []"
| "dec_list dec _ = type_error"

fun dec_entries :: "(string \<times> jval) list \<Rightarrow> strmap \<Rightarrow> strmap res" where
  "dec_entries [] m = Ok m"
| "dec_entries ((k, v) # kvs) m = res_bind (dec_string v []) (\<lambda>s. dec_entries kvs (mput k s m))"

fun dec_map :: "jval \<Rightarrow> strmap option \<Rightarrow> strmap option res" where
  "dec_map (JObj kvs) old = res_map Some (dec_entries kvs (nil_or old))"
| "dec_map JNull old = Ok None"
| "dec_map _ old = type_error"

text \<open>The members of an object, each into the field it names.\<close>

fun dec_members :: "(string \<Rightarrow> jval \<Rightarrow> 'a \<Rightarrow> 'a res) \<Rightarrow> (string \<times> jval) list \<Rightarrow> 'a \<Rightarrow> 'a res" where
  "dec_members dec [] a = Ok a"
| "dec_members dec ((k, v) # kvs) a = res_bind (dec k v a) (dec_members dec kvs)"

fun dec_object :: "(string \<Rightarrow> jval \<Rightarrow> 'a \<Rightarrow> 'a res) \<Rightarrow> jval \<Rightarrow> 'a \<Rightarrow> 'a res" where
  "dec_object dec (JObj kvs) a = dec_members dec kvs a"
| "dec_object dec JNull a = Ok a"
| "dec_object dec _ a = type_error"

definition zero_SearchResult :: SearchResult where
  "zero_SearchResult =
     \<lparr>sr_StarCount = 0, sr_IsOfficial = False, sr_Name = [], sr_IsAutomated = False,
      sr_Description = [], sr_Tag = [], sr_FullName = [], sr_Created = 0, sr_Label = None,
      sr_Volumes = [], sr_ExposedPorts = [], sr_Env = None, sr_Size = 0\<rparr>"

definition dec_result_field ::
    "(string \<Rightarrow> gotime res) \<Rightarrow> string \<Rightarrow> jval \<Rightarrow> SearchResult \<Rightarrow> SearchResult res" where
  "dec_result_field parse k v r =
     (if is_field ''star_count'' k then res_map (\<lambda>x. r\<lparr>sr_StarCount := x\<rparr>) (dec_int v (sr_StarCount r))
      else if is_field ''is_official'' k then res_map (\<lambda>x. r\<lparr>sr_IsOfficial := x\<rparr>) (dec_bool v (sr_IsOfficial r))
      else if is_field ''name'' k then res_map (\<lambda>x. r\<lparr>sr_Name := x\<rparr>) (dec_string v (sr_Name r))
      else if is_field ''is_automated'' k then res_map (\<lambda>x. r\<lparr>sr_IsAutomated := x\<rparr>) (dec_bool v (sr_IsAutomated r))
      else if is_field ''description'' k then res_map (\<lambda>x. r\<lparr>sr_Description := x\<rparr>) (dec_string v (sr_Description r))
      else if is_field ''tag'' k then res_map (\<lambda>x. r\<lparr>sr_Tag := x\<rparr>) (dec_string v (sr_Tag r))
      else if is_field ''full_name'' k then res_map (\<lambda>x. r\<lparr>sr_FullName := x\<rparr>) (dec_string v (sr_FullName r))
      else if is_field ''created'' k then res_map (\<lambda>x. r\<lparr>sr_Created := x\<rparr>) (dec_time parse v (sr_Created r))
      else if is_field ''label'' k then res_map (\<lambda>x. r\<lparr>sr_Label := x\<rparr>) (dec_map v (sr_Label r))
      else if is_field ''volumes'' k then res_map (\<lambda>x. r\<lparr>sr_Volumes := x\<rparr>) (dec_list (\<lambda>v. dec_string v []) v)
      else if is_field ''exposed_ports'' k then res_map (\<lambda>x. r\<lparr>sr_ExposedPorts := x\<rparr>) (dec_list (\<lambda>v. dec_int v 0) v)
      else if is_field ''env'' k then res_map (\<lambda>x. r\<lparr>sr_Env := x\<rparr>) (dec_map v (sr_Env r))
      else if is_field ''size'' k then res_map (\<lambda>x. r\<lparr>sr_Size := x\<rparr>) (dec_int v (sr_Size r))
      else Ok r)"

definition dec_SearchResult :: "(string \<Rightarrow> gotime res) \<Rightarrow> jval \<Rightarrow> SearchResult res" where
  "dec_SearchResult parse v = dec_object (dec_result_field parse) v zero_SearchResult"

definition dec_results_field ::
    "(string \<Rightarrow> gotime res) \<Rightarrow> string \<Rightarrow> jval \<Rightarrow> SearchResults \<Rightarrow> SearchResults res" where
  "dec_results_field parse k v rs =
     (if is_field ''query'' k then res_map (\<lambda>x. rs\<lparr>srs_Query := x\<rparr>) (dec_string v (srs_Query rs))
      else if is_field ''num_results'' k then res_map (\<lambda>x. rs\<lparr>srs_NumResults := x\<rparr>) (dec_int v (srs_NumResults rs))
      else if is_field ''results'' k then res_map (\<lambda>x. rs\<lparr>srs_Results := x\<rparr>) (dec_list (dec_SearchResult parse) v)
      else Ok rs)"

definition dec_SearchResults :: "(string \<Rightarrow> gotime res) \<Rightarrow> jval \<Rightarrow> SearchResults res" where
  "dec_SearchResults parse v =
     dec_object (dec_results_field parse) v \<lparr>srs_Query = [], srs_NumResults = 0, srs_Results = []\<rparr>"

definition dec_info_field :: "string \<Rightarrow> jval \<Rightarrow> Info \<Rightarrow> Info res" where
  "dec_info_field k v i =
     (if is_field ''version'' k then res_map (\<lambda>x. i\<lparr>info_Version := x\<rparr>) (dec_string v (info_Version i))
      else if is_field ''uptime'' k then res_map (\<lambda>x. i\<lparr>info_Uptime := x\<rparr>) (dec_string v (info_Uptime i))
      else Ok i)"

definition dec_Info :: "jval \<Rightarrow> Info res" where
  "dec_Info v = dec_object dec_info_field v \<lparr>info_Version = [], info_Uptime = []\<rparr>"

section \<open>What the server encodes the client decodes\<close>

text \<open>A result as it is received: the same maps, their keys in order.\<close>

definition received_map :: "strmap option \<Rightarrow> strmap option" where
  "received_map m = map_option (sort_key fst) m"

definition received_result :: "SearchResult \<Rightarrow> SearchResult" where
  "received_result r = r\<lparr>sr_Label := received_map (sr_Label r), sr_Env := received_map (sr_Env r)\<rparr>"

text \<open>The values a Go program can hold: maps without a repeated key, integers of 64 bits.\<close>

definition in_int :: "int \<Rightarrow> bool" where
  "in_int i \<longleftrightarrow> min_int \<le> i \<and> i \<le> max_int"

definition go_result :: "SearchResult \<Rightarrow> bool" where
  "go_result r \<longleftrightarrow> in_int (sr_StarCount r) \<and> in_int (sr_Size r) \<and>
     (\<forall>p \<in> set (sr_ExposedPorts r). in_int p) \<and>
     wf_map (nil_or (sr_Label r)) \<and> wf_map (nil_or (sr_Env r))"

lemma map_of_sort_key: "wf_map m \<Longrightarrow> map_of (sort_key fst m) = map_of m"
  by (rule map_of_inject_set [THEN iffD2])
    (auto simp: wf_map_def distinct_map intro: inj_on_subset)

lemma mput_fresh: "k \<notin> fst ` set m \<Longrightarrow> mput k v m = m @ [(k, v)]"
  by (induction m) (auto simp: mput_def)

lemma dec_entries_fresh:
  "distinct (map fst (m @ kvs)) \<Longrightarrow> dec_entries (map (\<lambda>(k, v). (k, JStr v)) kvs) m = Ok (m @ kvs)"
  by (induction kvs arbitrary: m) (auto simp: mput_fresh)

lemma dec_enc_map: "wf_map (nil_or m) \<Longrightarrow> dec_map (enc_map m) None = Ok (received_map m)"
proof (cases m)
  case (Some kvs)
  assume "wf_map (nil_or m)"
  with Some have "distinct (map fst ([] @ sort_key fst kvs))"
    by (simp add: wf_map_def distinct_map)
  from dec_entries_fresh [OF this] Some show ?thesis by (simp add: enc_map_def received_map_def)
qed (simp add: enc_map_def received_map_def)

lemma dec_list_strings: "dec_list (\<lambda>v. dec_string v []) (JArr (map JStr xs)) = Ok xs"
  by (induction xs) auto

lemma dec_list_ints: "\<forall>x \<in> set xs. in_int x \<Longrightarrow> dec_list (\<lambda>v. dec_int v 0) (JArr (map JInt xs)) = Ok xs"
  by (induction xs) (auto simp: in_int_def)

lemma dec_enc_SearchResult:
  assumes "enc_SearchResult time_text r = Ok v" and "go_result r"
    and "\<forall>s. time_text (sr_Created r) = Ok s \<longrightarrow> parse s = Ok (sr_Created r)"
  shows "dec_SearchResult parse v = Ok (received_result r)"
proof -
  obtain s where t: "time_text (sr_Created r) = Ok s" and p: "parse s = Ok (sr_Created r)"
    using assms(1,3) by (cases "time_text (sr_Created r)") (auto simp: enc_SearchResult_def)
  note wf = assms(2) [unfolded go_result_def in_int_def]
  have "dec_map (enc_map (sr_Label r)) None = Ok (received_map (sr_Label r))"
    "dec_map (enc_map (sr_Env r)) None = Ok (received_map (sr_Env r))"
    using wf by (auto intro: dec_enc_map)
  moreover have "dec_list (\<lambda>v. dec_int v 0) (JArr (map JInt (sr_ExposedPorts r))) = Ok (sr_ExposedPorts r)"
    using assms(2) by (intro dec_list_ints) (simp add: go_result_def)
  moreover have "dec_list (\<lambda>v. dec_string v []) (JArr (map JStr (sr_Volumes r))) = Ok (sr_Volumes r)"
    by (rule dec_list_strings)
  moreover note v = assms(1) [unfolded enc_SearchResult_def t res_map.simps res.inject, symmetric]
  ultimately show ?thesis
    using wf by (simp add: v p dec_SearchResult_def dec_result_field_def
        is_field_def lower_def zero_SearchResult_def received_result_def
        del: dec_list.simps dec_map.simps)
qed

lemma dec_enc_SearchResults:
  assumes "enc_SearchResults time_text rs = Ok v" and "\<forall>r \<in> set (srs_Results rs). go_result r"
    and "in_int (srs_NumResults rs)"
    and "\<forall>r \<in> set (srs_Results rs). \<forall>s. time_text (sr_Created r) = Ok s \<longrightarrow> parse s = Ok (sr_Created r)"
  shows "dec_SearchResults parse v =
    Ok (rs\<lparr>srs_Results := map received_result (srs_Results rs)\<rparr>)"
proof -
  obtain vs where vs: "list_all2 (\<lambda>r v. enc_SearchResult time_text r = Ok v) (srs_Results rs) vs"
    and v: "v = JObj [(''query'', JStr (srs_Query rs)), (''num_results'', JInt (srs_NumResults rs)),
      (''results'', JArr vs)]"
    using assms(1) by (auto simp: enc_SearchResults_def res_simps)
  have "res_mapM (dec_SearchResult parse) vs = Ok (map received_result (srs_Results rs))"
    using vs assms(2,4) by (induction rule: list_all2_induct) (auto simp: dec_enc_SearchResult)
  then show ?thesis
    using assms(3) by (simp add: v dec_SearchResults_def dec_results_field_def is_field_def lower_def in_int_def)
qed

lemma dec_enc_Info: "dec_Info (enc_Info i) = Ok i"
  by (simp add: dec_Info_def enc_Info_def dec_info_field_def is_field_def lower_def)

end
