(* ===== verification/IndexConfig.thy ===== *)
theory IndexConfig
  imports Types
begin

text \<open>
  Hooks of the index (\<open>lib/index/config.go\<close>). The template engine is a parameter
  \<open>parse name functions action\<close>: the parsed template or the text of the error. The functions
  registered with the configuration are a map from names.
\<close>

record 't Hook =
  hk_Event :: ActionType
  hk_Action :: string
  hk_eval :: "'t option"

record ('t, 'f) Config =
  cfg_Directory :: string
  cfg_Hooks :: "'t Hook list"
  cfg_funcMap :: "(string, 'f) gomap option"

text \<open>Where the map is still nil the code allocates it first.\<close>

definition RegisterFunction :: "string \<Rightarrow> 'f \<Rightarrow> ('t, 'f) Config \<Rightarrow> ('t, 'f) Config" where
  "RegisterFunction name f c =
     (let c' = (if cfg_funcMap c = None then c\<lparr>cfg_funcMap := Some []\<rparr> else c)
      in c'\<lparr>cfg_funcMap := Some (mput name f (nil_or (cfg_funcMap c')))\<rparr>)"

text \<open>
  The loop of \<open>ParseHooks\<close>: the hooks are pointers, so those parsed before a failure keep
  their template. The result is the hooks afterwards and the returned error.
\<close>

fun parse_loop ::
    "(string \<Rightarrow> (string, 'f) gomap \<Rightarrow> string \<Rightarrow> 't res) \<Rightarrow> (string, 'f) gomap \<Rightarrow> nat \<Rightarrow>
     't Hook list \<Rightarrow> 't Hook list \<times> unit res" where
  "parse_loop parse fm i [] = ([], Ok ())"
| "parse_loop parse fm i (h # hs) =
     (let name = ''hook_'' @ Itoa (int i + 1)
      in if hk_Event h \<noteq> PushAction \<and> hk_Event h \<noteq> DeleteAction
         then (h # hs, Err (''Unknown event '' @ hk_Event h @ ''. Only '' @ PushAction @ '' and ''
                              @ DeleteAction @ '' supported''))
         else (case parse name fm (hk_Action h) of
                 Err e \<Rightarrow> (h # hs, Err (''Failed to parse '' @ name @ '' : '' @ e))
               | Panic \<Rightarrow> (h # hs, Panic)
               | Ok tpl \<Rightarrow>
                   (let (hs', r) = parse_loop parse fm (Suc i) hs
                    in (h\<lparr>hk_eval := Some tpl\<rparr> # hs', r))))"

definition ParseHooks ::
    "(string \<Rightarrow> (string, 'f) gomap \<Rightarrow> string \<Rightarrow> 't res) \<Rightarrow> ('t, 'f) Config \<Rightarrow>
     ('t, 'f) Config \<times> unit res" where
  "ParseHooks parse c =
     (let (hs, r) = parse_loop parse (nil_or (cfg_funcMap c)) 0 (cfg_Hooks c)
      in (c\<lparr>cfg_Hooks := hs\<rparr>, r))"

definition GetHooks :: "('t, 'f) Config \<Rightarrow> ActionType \<Rightarrow> 't Hook list" where
  "GetHooks c event = filter (\<lambda>h. hk_Event h = event) (cfg_Hooks c)"

text \<open>\<open>execute\<close> runs a template on an image; its output is discarded.\<close>

definition Hook_Eval :: "('t \<Rightarrow> IndexImage \<Rightarrow> unit res) \<Rightarrow> 't Hook \<Rightarrow> IndexImage \<Rightarrow> unit res" where
  "Hook_Eval execute h img =
     (case hk_eval h of
        None \<Rightarrow> Err (''Cannot eval hook, it has no template : &{'' @ hk_Event h @ '' '' @ hk_Action h @ '' <nil>}'')
      | Some t \<Rightarrow> execute t img)"

section \<open>Correctness\<close>

text \<open>A hook the loop accepts at position \<open>i\<close>.\<close>

definition acceptable :: "(string \<Rightarrow> (string, 'f) gomap \<Rightarrow> string \<Rightarrow> 't res) \<Rightarrow> (string, 'f) gomap \<Rightarrow>
    nat \<Rightarrow> 't Hook \<Rightarrow> bool" where
  "acceptable parse fm i h \<longleftrightarrow>
     (hk_Event h = PushAction \<or> hk_Event h = DeleteAction) \<and>
     is_ok (parse (''hook_'' @ Itoa (int i + 1)) fm (hk_Action h))"

lemma parse_loop_Ok_iff:
  "snd (parse_loop parse fm i hs) = Ok () \<longleftrightarrow>
     (\<forall>k < length hs. acceptable parse fm (i + k) (hs ! k))"
proof (induction hs arbitrary: i)
  case (Cons h hs)
  have "snd (parse_loop parse fm i (h # hs)) = Ok () \<longleftrightarrow>
      acceptable parse fm i h \<and> snd (parse_loop parse fm (Suc i) hs) = Ok ()"
    by (auto simp: acceptable_def Let_def split: res.splits prod.splits)
  then show ?case by (simp add: Cons.IH All_less_Suc2)
qed simp

lemma parse_loop_hooks:
  "snd (parse_loop parse fm i hs) = Ok () \<Longrightarrow>
   list_all2 (\<lambda>h h'. hk_Event h' = hk_Event h \<and> hk_Action h' = hk_Action h \<and> hk_eval h' \<noteq> None \<and>
                     (hk_Event h = PushAction \<or> hk_Event h = DeleteAction))
     hs (fst (parse_loop parse fm i hs))"
  by (induction parse fm i hs rule: parse_loop.induct)
    (auto simp: Let_def split: if_splits res.splits prod.splits)

lemma map_of_RegisterFunction:
  "map_of (nil_or (cfg_funcMap (RegisterFunction name f c))) k =
     (if k = name then Some f else map_of (nil_or (cfg_funcMap c)) k)"
  by (auto simp: RegisterFunction_def Let_def go_map_simps)

text \<open>
  After \<open>ParseHooks\<close> has returned no error, every hook that \<open>GetHooks\<close> hands out for an
  event has a template, so evaluating it runs that template and never reports a missing one;
  and every configured hook is handed out for exactly one of the two events.
\<close>

theorem ParseHooks_hooks_evaluable:
  assumes "ParseHooks parse c = (c', Ok ())"
  shows "(\<forall>h \<in> set (GetHooks c' ev). \<exists>t. hk_eval h = Some t \<and> Hook_Eval execute h im = execute t im)
    \<and> length (GetHooks c' PushAction) + length (GetHooks c' DeleteAction) = length (cfg_Hooks c)"
proof -
  let ?hs = "fst (parse_loop parse (nil_or (cfg_funcMap c)) 0 (cfg_Hooks c))"
  from assms have hs: "cfg_Hooks c' = ?hs"
    and ok: "snd (parse_loop parse (nil_or (cfg_funcMap c)) 0 (cfg_Hooks c)) = Ok ()"
    by (auto simp: ParseHooks_def Let_def split: prod.splits)
  note all2 = parse_loop_hooks [OF ok]
  have ev: "hk_eval h \<noteq> None" "hk_Event h = PushAction \<or> hk_Event h = DeleteAction"
    if "h \<in> set ?hs" for h
    using all2 that by (fastforce simp: list_all2_conv_all_nth in_set_conv_nth)+
  have "length (filter (\<lambda>h. hk_Event h = PushAction) xs)
      + length (filter (\<lambda>h. hk_Event h = DeleteAction) xs) = length xs"
    if "\<forall>h \<in> set xs. hk_Event h = PushAction \<or> hk_Event h = DeleteAction" for xs :: "'a Hook list"
    using that by (induction xs) auto
  then have "length (GetHooks c' PushAction) + length (GetHooks c' DeleteAction) = length ?hs"
    using ev(2) by (simp add: GetHooks_def hs)
  moreover have "length ?hs = length (cfg_Hooks c)"
    using all2 by (simp add: list_all2_lengthD)
  ultimately show ?thesis
    using ev(1) by (fastforce simp: GetHooks_def hs Hook_Eval_def)
qed

definition sample_config_hooks :: "(string, unit) Config" where
  "sample_config_hooks = \<lparr>cfg_Directory = ''dim.index'', cfg_Hooks =
     [\<lparr>hk_Event = PushAction, hk_Action = ''info'', hk_eval = None\<rparr>], cfg_funcMap = None\<rparr>"

theorem ParseHooks_hooks_evaluable_witness:
  "\<exists>c' h. ParseHooks (\<lambda>name fm action. Ok action) sample_config_hooks = (c', Ok ()) \<and>
     GetHooks c' PushAction = [h] \<and> Hook_Eval (\<lambda>t im. Err t) h zero_IndexImage = Err ''info''"
proof -
  let ?h = "\<lparr>hk_Event = PushAction, hk_Action = ''info'', hk_eval = Some ''info''\<rparr>"
  let ?c = "sample_config_hooks\<lparr>cfg_Hooks := [?h]\<rparr>"
  have p: "ParseHooks (\<lambda>name fm action. Ok action) sample_config_hooks = (?c, Ok ())"
    by (simp add: ParseHooks_def sample_config_hooks_def Let_def)
  have "GetHooks ?c PushAction = [?h]" by (simp add: GetHooks_def)
  with ParseHooks_hooks_evaluable [OF p, of PushAction "\<lambda>t im. Err t" zero_IndexImage] p show ?thesis
    by (intro exI [of _ ?c] exI [of _ ?h]) auto
qed

end
