(* ===== verification/Image.thy ===== *)
theory Image
  imports Types
begin

text \<open>
  From a registry image to an indexable one (\<open>Parse\<close> of \<open>lib/index/image.go\<close>), and the
  mapping that tells the search index how each field of an image is analysed and stored.
\<close>

section \<open>Parse\<close>

text \<open>The loop over the environment: an entry is split at every \<open>=\<close>, and only the first two
  parts are used.\<close>

fun env_loop :: "string list \<Rightarrow> strmap \<Rightarrow> strmap" where
  "env_loop [] envs = envs"
| "env_loop (iLabel # rest) envs =
     (let split = Split iLabel (CHR ''='')
      in env_loop rest (if length split > 1 then mput (split ! 0) (split ! 1) envs else envs))"

text \<open>An image without description or configuration is a nil dereference.\<close>

definition Parse :: "string \<Rightarrow> RegistryImage \<Rightarrow> IndexImage res" where
  "Parse name img =
     (case ri_Image img of
        None \<Rightarrow> Panic
      | Some v1 \<Rightarrow>
        (case v1_Config v1 of
           None \<Rightarrow> Panic
         | Some cfg \<Rightarrow>
           (let label = FilterValues (cc_Labels cfg) [];
                envs = env_loop (cc_Env cfg) []
            in Ok (zero_IndexImage
                 \<lparr>im_ID := ri_Digest img,
                  im_Name := name,
                  im_Tag := ri_Tag img,
                  im_Comment := v1_Comment v1,
                  im_Created := v1_Created v1,
                  im_Author := v1_Author v1,
                  im_FullName := name @ '':'' @ ri_Tag img,
                  im_Label := Some label,
                  im_Labels := Keys (Some label),
                  im_Volumes := cc_Volumes cfg,
                  im_Env := Some envs,
                  im_Envs := Keys (Some envs),
                  im_ExposedPorts := map Port_Int (cc_ExposedPorts cfg),
                  im_Size := v1_Size v1\<rparr>))))"

section \<open>The document mapping\<close>

datatype FieldType = TextField | NumberField | DateTimeField

record FieldMapping =
  fm_Type :: FieldType
  fm_Analyzer :: string
  fm_Store :: bool
  fm_Index :: bool
  fm_IncludeInAll :: bool
  fm_DateFormat :: string

definition NewTextFieldMapping :: FieldMapping where
  "NewTextFieldMapping = \<lparr>fm_Type = TextField, fm_Analyzer = [], fm_Store = True, fm_Index = True,
     fm_IncludeInAll = True, fm_DateFormat = []\<rparr>"

definition NewNumericFieldMapping :: FieldMapping where
  "NewNumericFieldMapping = \<lparr>fm_Type = NumberField, fm_Analyzer = [], fm_Store = True, fm_Index = True,
     fm_IncludeInAll = True, fm_DateFormat = []\<rparr>"

definition NewDateTimeFieldMapping :: FieldMapping where
  "NewDateTimeFieldMapping = \<lparr>fm_Type = DateTimeField, fm_Analyzer = [], fm_Store = True, fm_Index = True,
     fm_IncludeInAll = True, fm_DateFormat = []\<rparr>"

record DocumentMapping =
  dm_Properties :: "(string, FieldMapping list) gomap"
  dm_DefaultAnalyzer :: string

definition AddFieldMappingsAt :: "string \<Rightarrow> FieldMapping \<Rightarrow> DocumentMapping \<Rightarrow> DocumentMapping" where
  "AddFieldMappingsAt property fm dm =
     dm\<lparr>dm_Properties := mput property
          ((case map_of (dm_Properties dm) property of None \<Rightarrow> [] | Some fs \<Rightarrow> fs) @ [fm])
          (dm_Properties dm)\<rparr>"

text \<open>The type of a document, by which the index chooses the mapping.\<close>

definition IndexImage_Type :: "IndexImage \<Rightarrow> string" where
  "IndexImage_Type im = ''image''"

definition ImageMapping :: DocumentMapping where
  "ImageMapping =
     (let m = \<lparr>dm_Properties = [], dm_DefaultAnalyzer = []\<rparr>;
          tagMapping = NewTextFieldMapping\<lparr>fm_Analyzer := ''keyword'', fm_IncludeInAll := True,
                                            fm_Store := True\<rparr>;
          m = AddFieldMappingsAt ''Tag'' tagMapping m;
          nameMapping = NewTextFieldMapping\<lparr>fm_Analyzer := ''simple'', fm_IncludeInAll := True,
                                             fm_Store := True\<rparr>;
          m = AddFieldMappingsAt ''Name'' nameMapping m;
          m = AddFieldMappingsAt ''FullName'' nameMapping m;
          idMapping = NewTextFieldMapping\<lparr>fm_Analyzer := ''keyword'', fm_Store := True,
                                           fm_IncludeInAll := False, fm_Index := True\<rparr>;
          m = AddFieldMappingsAt ''ID'' idMapping m;
          authorMapping = NewTextFieldMapping\<lparr>fm_Analyzer := ''simple'', fm_IncludeInAll := False,
                                               fm_Store := True\<rparr>;
          m = AddFieldMappingsAt ''Author'' authorMapping m;
          m = AddFieldMappingsAt ''Volumes'' authorMapping m;
          m = AddFieldMappingsAt ''Labels'' authorMapping m;
          m = AddFieldMappingsAt ''Labels'' idMapping m;
          m = AddFieldMappingsAt ''Label'' authorMapping m;
          m = AddFieldMappingsAt ''Envs'' authorMapping m;
          m = AddFieldMappingsAt ''Envs'' idMapping m;
          m = AddFieldMappingsAt ''Env'' authorMapping m;
          commentMapping = NewTextFieldMapping\<lparr>fm_Analyzer := ''standard'', fm_IncludeInAll := True,
                                                fm_Store := True\<rparr>;
          m = AddFieldMappingsAt ''Comment'' commentMapping m;
          dateMapping = NewDateTimeFieldMapping\<lparr>fm_DateFormat := ''dateTimeOptional'',
                                                 fm_Store := True, fm_IncludeInAll := False\<rparr>;
          m = AddFieldMappingsAt ''Created'' dateMapping m;
          portsMapping = NewNumericFieldMapping\<lparr>fm_Store := True, fm_IncludeInAll := False\<rparr>;
          m = AddFieldMappingsAt ''ExposedPorts'' portsMapping m;
          m = AddFieldMappingsAt ''Size'' portsMapping m
      in m\<lparr>dm_DefaultAnalyzer := ''simple''\<rparr>)"

section \<open>Correctness\<close>

text \<open>The value an environment entry contributes: the text between its first and second \<open>=\<close>.\<close>

definition env_pair :: "string \<Rightarrow> (string \<times> string) option" where
  "env_pair e = (let s = Split e (CHR ''='') in if length s > 1 then Some (s ! 0, s ! 1) else None)"

lemma env_loop_build:
  "env_loop es acc = fold (\<lambda>(k, v). mput k v) (List.map_filter env_pair es) acc"
  by (induction es arbitrary: acc) (auto simp: env_pair_def Let_def map_filter_simps)

lemma wf_env_loop: "wf_map acc \<Longrightarrow> wf_map (env_loop es acc)"
  by (simp add: env_loop_build gm.wf_fold_put)

lemma map_of_env_loop:
  "map_of (env_loop es []) k = map_of (rev (List.map_filter env_pair es)) k"
  by (simp add: env_loop_build gm.get_build)

lemma env_pair_simple:
  "CHR ''='' \<notin> set k \<Longrightarrow> CHR ''='' \<notin> set v \<Longrightarrow> env_pair (k @ CHR ''='' # v) = Some (k, v)"
  by (simp add: env_pair_def Split_sep)

lemma env_pair_cut:
  "CHR ''='' \<notin> set k \<Longrightarrow> CHR ''='' \<notin> set v \<Longrightarrow>
   env_pair (k @ CHR ''='' # v @ CHR ''='' # w) = Some (k, v)"
  by (simp add: env_pair_def Split_sep)

lemma env_pair_none: "CHR ''='' \<notin> set k \<Longrightarrow> env_pair k = None"
  by (simp add: env_pair_def)

lemma Parse_Ok_iff:
  "(\<exists>im. Parse name img = Ok im) \<longleftrightarrow> (\<exists>v1 cfg. ri_Image img = Some v1 \<and> v1_Config v1 = Some cfg)"
  by (auto simp: Parse_def Let_def split: option.splits)

lemma env_pair_Some:
  "env_pair (k @ CHR ''='' # v) = (if CHR ''='' \<in> set k then env_pair k else Some (k, hd (Split v (CHR ''=''))))"
  if "CHR ''='' \<notin> set k" for k v
  using that by (cases "Split v (CHR ''='')") (auto simp: env_pair_def Split_sep)


definition sample_registry_image :: RegistryImage where
  "sample_registry_image = \<lparr>ri_Image = Some \<lparr>v1_Comment = [], v1_Created = 0, v1_Author = [], v1_Config =
     Some \<lparr>cc_Labels = Some [(''os'', ''debian''), (''arch'', [])], cc_Volumes = [], cc_Env = [''A=1'', ''A=2=3''],
           cc_ExposedPorts = [''80/tcp'']\<rparr>, v1_Size = 1\<rparr>, ri_Tag = ''5.7'', ri_Digest = ''d1''\<rparr>"


text \<open>The mappings of a field, empty when it is mapped dynamically.\<close>

definition mappings_at :: "DocumentMapping \<Rightarrow> string \<Rightarrow> FieldMapping list" where
  "mappings_at dm f = (case map_of (dm_Properties dm) f of None \<Rightarrow> [] | Some fs \<Rightarrow> fs)"

lemma mappings_at_Add:
  "mappings_at (AddFieldMappingsAt p fm dm) f = (if f = p then mappings_at dm f @ [fm] else mappings_at dm f)"
  by (simp add: mappings_at_def AddFieldMappingsAt_def go_map_simps)

lemma mappings_at_fold:
  "mappings_at (fold (\<lambda>(p, fm). AddFieldMappingsAt p fm) pfs dm) f =
     mappings_at dm f @ map snd (filter (\<lambda>(p, fm). p = f) pfs)"
  by (induction pfs arbitrary: dm) (auto simp: mappings_at_Add)

text \<open>The mappings as a list: field, type, analyzer, whether stored, whether indexed.\<close>

definition image_fields :: "(string \<times> FieldMapping) list" where
  "image_fields =
     (let keyword = NewTextFieldMapping\<lparr>fm_Analyzer := ''keyword''\<rparr>;
          simple = NewTextFieldMapping\<lparr>fm_Analyzer := ''simple''\<rparr>;
          idMapping = NewTextFieldMapping\<lparr>fm_Analyzer := ''keyword'', fm_IncludeInAll := False\<rparr>;
          other = NewTextFieldMapping\<lparr>fm_Analyzer := ''simple'', fm_IncludeInAll := False\<rparr>;
          standard = NewTextFieldMapping\<lparr>fm_Analyzer := ''standard''\<rparr>;
          date = NewDateTimeFieldMapping\<lparr>fm_DateFormat := ''dateTimeOptional'', fm_IncludeInAll := False\<rparr>;
          number = NewNumericFieldMapping\<lparr>fm_IncludeInAll := False\<rparr>
      in [(''Tag'', keyword), (''Name'', simple), (''FullName'', simple), (''ID'', idMapping), (''Author'', other),
          (''Volumes'', other), (''Labels'', other), (''Labels'', idMapping), (''Label'', other), (''Envs'', other),
          (''Envs'', idMapping), (''Env'', other), (''Comment'', standard), (''Created'', date),
          (''ExposedPorts'', number), (''Size'', number)])"

lemma ImageMapping_fields:
  "ImageMapping = (fold (\<lambda>(p, fm). AddFieldMappingsAt p fm) image_fields
     \<lparr>dm_Properties = [], dm_DefaultAnalyzer = []\<rparr>)\<lparr>dm_DefaultAnalyzer := ''simple''\<rparr>"
  unfolding ImageMapping_def image_fields_def Let_def
  by (simp add: NewTextFieldMapping_def NewNumericFieldMapping_def NewDateTimeFieldMapping_def)

lemma mappings_at_ImageMapping:
  "mappings_at ImageMapping f = map snd (filter (\<lambda>(p, fm). p = f) image_fields)"
proof -
  have "mappings_at (dm\<lparr>dm_DefaultAnalyzer := a\<rparr>) f = mappings_at dm f" for dm a
    by (simp add: mappings_at_def)
  moreover have "mappings_at \<lparr>dm_Properties = [], dm_DefaultAnalyzer = []\<rparr> f = []"
    by (simp add: mappings_at_def)
  ultimately show ?thesis by (simp add: ImageMapping_fields mappings_at_fold)
qed

lemmas mapping_simps = mappings_at_ImageMapping image_fields_def Let_def
  NewTextFieldMapping_def NewNumericFieldMapping_def NewDateTimeFieldMapping_def

text \<open>
  The mapping serves the queries. The field \<open>ID\<close> has exactly one mapping, indexed as one
  keyword, so a term query for a digest meets digests only as a whole; the list of label names
  and that of variable names are indexed both word by word and as keywords; and every field that
  an answer reads back is stored.
\<close>

theorem ImageMapping_serves:
  "map (\<lambda>fm. (fm_Type fm, fm_Analyzer fm, fm_Index fm)) (mappings_at ImageMapping ''ID'') = [(TextField, ''keyword'', True)] \<and>
   map fm_Analyzer (mappings_at ImageMapping ''Labels'') = [''simple'', ''keyword''] \<and>
   map fm_Analyzer (mappings_at ImageMapping ''Envs'') = [''simple'', ''keyword''] \<and>
   list_all (\<lambda>f. mappings_at ImageMapping f \<noteq> [] \<and> list_all fm_Store (mappings_at ImageMapping f))
     [''ID'', ''Name'', ''FullName'', ''Tag'', ''Comment'', ''Created'', ''Author'', ''Label'', ''Labels'',
      ''Volumes'', ''ExposedPorts'', ''Env'', ''Envs'', ''Size'']"
  unfolding mappings_at_ImageMapping by code_simp

end
