(* ===== verification/SearchIndex.thy ===== *)
theory SearchIndex
  imports IndexConfig Image
begin

text \<open>
  The index of images (\<open>lib/index/index.go\<close>): queries, searching, reading documents back,
  adding and removing images, and the handling of a notification.

  The full-text engine (bleve) is the parameter \<open>bleve\<close>, a record of its operations on an
  index value; what dim relies on is the predicate \<open>bleve_ok\<close> of theory \<open>Engine\<close>. The
  registry is reached through the interfaces of \<open>lib/types.go\<close>, records of functions.
\<close>

section \<open>The engine's interface\<close>

datatype FieldValue = FStr string | FNum rat | FList "FieldValue list"

record DocumentMatch =
  doc_ID :: string
  doc_Fields :: "(string, FieldValue) gomap"

datatype Query =
    MatchAllQuery
  | FuzzyQuery string string
  | MatchQuery string string
  | TermQuery string string
  | QueryStringQuery string
  | DocIDQuery "string list"
  | BooleanQuery "Query list" "Query list" "Query list"

record SearchRequest =
  rq_Query :: Query
  rq_Size :: int
  rq_From :: int
  rq_Fields :: "string list"

record SearchResult_bleve =
  res_Total :: nat
  res_Hits :: "DocumentMatch list"

definition NewSearchRequestOptions :: "Query \<Rightarrow> int \<Rightarrow> int \<Rightarrow> SearchRequest" where
  "NewSearchRequestOptions q sz frm = \<lparr>rq_Query = q, rq_Size = sz, rq_From = frm, rq_Fields = []\<rparr>"

definition NewSearchRequest :: "Query \<Rightarrow> SearchRequest" where
  "NewSearchRequest q = NewSearchRequestOptions q 10 0"

text \<open>
  \<open>bl_sprint\<close> is what the formatting verb \<open>%s\<close> prints for a stored value that is not text.
  Adding and deleting return errors that dim drops; what they leave behind is their result.
\<close>

record 'ix bleve =
  bl_Index :: "'ix \<Rightarrow> string \<Rightarrow> IndexImage \<Rightarrow> 'ix"
  bl_Delete :: "'ix \<Rightarrow> string \<Rightarrow> 'ix"
  bl_Search :: "'ix \<Rightarrow> SearchRequest \<Rightarrow> SearchResult_bleve res"
  bl_sprint :: "FieldValue \<Rightarrow> string"

section \<open>The registry's interface\<close>

record Repository =
  repo_Named :: string
  repo_AllTags :: "string list res"
  repo_Image :: "string \<Rightarrow> RegistryImage res"
  repo_ImageFromManifest :: "string \<Rightarrow> string \<Rightarrow> RegistryImage res"

text \<open>\<open>NewRepository\<close> may be handed a nil name.\<close>

record 'n RegistryClient =
  rc_NewRepository :: "'n option \<Rightarrow> Repository res"

record ('ix, 't, 'f, 'n) Index =
  idx_bleve :: "'ix bleve"
  idx_Index :: 'ix
  idx_Config :: "('t, 'f) Config"
  idx_RegClient :: "'n RegistryClient"

section \<open>Queries\<close>

definition BuildQuery :: "string \<Rightarrow> string \<Rightarrow> Query" where
  "BuildQuery nameTag advanced =
     (if nameTag = ''*'' \<or> advanced = ''*'' then MatchAllQuery
      else
        (let split = Split nameTag (CHR '':'');
             (name, tag) = (if length split = 2 then (split ! 0, split ! 1) else (nameTag, nameTag));
             bq = (if nameTag \<noteq> [] then [FuzzyQuery name ''Name'', MatchQuery tag ''Tag''] else []);
             bq = (if advanced \<noteq> [] then bq @ [QueryStringQuery advanced] else bq)
         in BooleanQuery [] bq []))"

section \<open>Documents back to images\<close>

text \<open>A type assertion \<open>v.(string)\<close> and \<open>v.(float64)\<close>; nil is an absent key.\<close>

fun as_string :: "FieldValue option \<Rightarrow> string res" where
  "as_string (Some (FStr s)) = Ok s"
| "as_string _ = Panic"

fun as_float :: "FieldValue option \<Rightarrow> rat res" where
  "as_float (Some (FNum r)) = Ok r"
| "as_float _ = Panic"

text \<open>Conversion of a floating-point number to an integer type drops the fraction.\<close>

definition go_trunc :: "rat \<Rightarrow> int" where
  "go_trunc r = (if r < 0 then - \<lfloor>- r\<rfloor> else \<lfloor>r\<rfloor>)"

fun field_loop :: "(string, FieldValue) gomap \<Rightarrow> strmap \<Rightarrow> strmap \<Rightarrow> (strmap \<times> strmap) res" where
  "field_loop [] labels envs = Ok (labels, envs)"
| "field_loop ((k, v) # rest) labels envs =
     (if HasPrefix k ''Label.'' then
        res_bind (as_string (Some v)) (\<lambda>s. field_loop rest (mput (TrimPrefix k ''Label.'') s labels) envs)
      else if HasPrefix k ''Env.'' then
        res_bind (as_string (Some v)) (\<lambda>s. field_loop rest labels (mput (TrimPrefix k ''Env.'') s envs))
      else field_loop rest labels envs)"

definition volumes_of :: "FieldValue option \<Rightarrow> string list res" where
  "volumes_of v =
     (case v of
        Some (FStr vol) \<Rightarrow> Ok [vol]
      | Some (FList vols) \<Rightarrow> res_mapM (\<lambda>x. as_string (Some x)) vols
      | _ \<Rightarrow> Ok [])"

definition ports_of :: "FieldValue option \<Rightarrow> int list res" where
  "ports_of v =
     (case v of
        Some (FNum p) \<Rightarrow> Ok [go_trunc p]
      | Some (FList ps) \<Rightarrow> res_mapM (\<lambda>x. res_map go_trunc (as_float (Some x))) ps
      | _ \<Rightarrow> Ok [])"

text \<open>\<open>parse_time\<close> is \<open>time.Parse(time.RFC3339, s)\<close>; a failure leaves the zero time.\<close>

definition created_of :: "(string \<Rightarrow> gotime option) \<Rightarrow> FieldValue option \<Rightarrow> gotime res" where
  "created_of parse_time v =
     (case v of
        None \<Rightarrow> Ok 0
      | Some x \<Rightarrow> res_map (\<lambda>s. case parse_time s of None \<Rightarrow> 0 | Some t \<Rightarrow> t) (as_string (Some x)))"

definition DocumentToImage :: "(string \<Rightarrow> gotime option) \<Rightarrow> DocumentMatch \<Rightarrow> IndexImage res" where
  "DocumentToImage parse_time h =
     (let flds = map_of (doc_Fields h) in
      res_bind (as_string (flds ''Name'')) (\<lambda>name.
      res_bind (as_string (flds ''Tag'')) (\<lambda>tag.
      res_bind (as_string (flds ''FullName'')) (\<lambda>fullName.
      res_bind (created_of parse_time (flds ''Created'')) (\<lambda>created.
      res_bind (field_loop (doc_Fields h) [] []) (\<lambda>(labels, envs).
      res_bind (volumes_of (flds ''Volumes'')) (\<lambda>volumes.
      res_bind (ports_of (flds ''ExposedPorts'')) (\<lambda>ports.
      res_bind (if flds ''Size'' \<noteq> None then res_map go_trunc (as_float (flds ''Size'')) else Ok 0) (\<lambda>sz.
        Ok (zero_IndexImage
              \<lparr>im_Name := name,
               im_Tag := tag,
               im_FullName := fullName,
               im_Created := created,
               im_Label := (if length labels > 0 then Some labels else None),
               im_Volumes := volumes,
               im_ExposedPorts := ports,
               im_Env := (if length envs > 0 then Some envs else None),
               im_Size := sz\<rparr>))))))))))"

section \<open>Searching\<close>

definition idx_Search ::
    "('ix, 't, 'f, 'n) Index \<Rightarrow> SearchRequest \<Rightarrow> SearchResult_bleve res" where
  "idx_Search idx rq = bl_Search (idx_bleve idx) (idx_Index idx) rq"

text \<open>The names of the per-key fields of one list field, as the request appends them.\<close>

definition key_fields :: "('ix, 't, 'f, 'n) Index \<Rightarrow> string \<Rightarrow> FieldValue option \<Rightarrow> string list" where
  "key_fields idx prefix v =
     (case v of
        Some (FStr f) \<Rightarrow> [prefix @ f]
      | Some (FList fs) \<Rightarrow>
          map (\<lambda>f. prefix @ (case f of FStr s \<Rightarrow> s | _ \<Rightarrow> bl_sprint (idx_bleve idx) f)) fs
      | _ \<Rightarrow> [])"

definition searchDetails ::
    "('ix, 't, 'f, 'n) Index \<Rightarrow> DocumentMatch \<Rightarrow> string list \<Rightarrow> DocumentMatch res" where
  "searchDetails idx doc flds =
     (let request = (NewSearchRequest (DocIDQuery [doc_ID doc]))\<lparr>rq_Fields := flds\<rparr>;
          request = (if map_of (doc_Fields doc) ''Labels'' \<noteq> None \<and> ListContains flds ''Labels''
                     then request\<lparr>rq_Fields := rq_Fields request
                            @ key_fields idx ''Label.'' (map_of (doc_Fields doc) ''Labels'')\<rparr>
                     else request);
          request = (if map_of (doc_Fields doc) ''Envs'' \<noteq> None \<and> ListContains flds ''Envs''
                     then request\<lparr>rq_Fields := rq_Fields request
                            @ key_fields idx ''Env.'' (map_of (doc_Fields doc) ''Envs'')\<rparr>
                     else request)
      in (case idx_Search idx request of
            Err e \<Rightarrow> Err (''Failed to fetch all image info : '' @ e)
          | Panic \<Rightarrow> Panic
          | Ok sr \<Rightarrow> (case res_Hits sr of [] \<Rightarrow> Panic | h # _ \<Rightarrow> Ok h)))"

text \<open>The verb \<open>%x\<close> prints a text as the hexadecimal digits of its bytes.\<close>

definition hex_digit :: "nat \<Rightarrow> char" where
  "hex_digit d = char_of (if d < 10 then 48 + d else 87 + d)"

definition hex_encode :: "string \<Rightarrow> string" where
  "hex_encode s = concat (map (\<lambda>c. let k = of_char c :: nat in [hex_digit (k div 16), hex_digit (k mod 16)]) s)"

fun detail_loop ::
    "('ix, 't, 'f, 'n) Index \<Rightarrow> string list \<Rightarrow> DocumentMatch list \<Rightarrow> DocumentMatch list res" where
  "detail_loop idx flds [] = Ok []"
| "detail_loop idx flds (h # hs) =
     (case searchDetails idx h flds of
        Err e \<Rightarrow> Err (''Error occured while searching details of an image : '' @ hex_encode e)
      | Panic \<Rightarrow> Panic
      | Ok h' \<Rightarrow> res_map (\<lambda>hs'. h' # hs') (detail_loop idx flds hs))"

definition detail_fields :: "string list \<Rightarrow> string list" where
  "detail_fields flds =
     fold (\<lambda>f fs. if \<not> ListContains fs f then fs @ [f] else fs) [''Name'', ''Tag'', ''FullName''] flds"

definition buildResults ::
    "(string \<Rightarrow> gotime option) \<Rightarrow> DocumentMatch list \<Rightarrow> IndexImage list res" where
  "buildResults parse_time hits = res_mapM (DocumentToImage parse_time) hits"

definition SearchImages ::
    "(string \<Rightarrow> gotime option) \<Rightarrow> ('ix, 't, 'f, 'n) Index \<Rightarrow> string \<Rightarrow> string \<Rightarrow> string list \<Rightarrow> int \<Rightarrow> int \<Rightarrow>
     IndexResults res" where
  "SearchImages parse_time idx q a flds offset maxResults =
     (let request = (NewSearchRequestOptions (BuildQuery q a) maxResults offset)
                      \<lparr>rq_Fields := [''Name'', ''Tag'', ''FullName'', ''Labels'', ''Envs'']\<rparr>
      in (case idx_Search idx request of
            Err e \<Rightarrow> Err (''Error occured when processing search : '' @ e)
          | Panic \<Rightarrow> Panic
          | Ok sr \<Rightarrow>
              res_bind (if length flds > 0 then detail_loop idx (detail_fields flds) (res_Hits sr)
                        else Ok (res_Hits sr)) (\<lambda>hits.
              res_bind (buildResults parse_time hits) (\<lambda>images.
                Ok \<lparr>ir_Total = res_Total sr, ir_Images = images\<rparr>))))"

definition FindImage_fields :: "string list" where
  "FindImage_fields =
     [''ID'', ''Name'', ''FullName'', ''Tag'', ''Comment'', ''Created'', ''Author'', ''Label'', ''Labels'',
      ''Volumes'', ''ExposedPorts'', ''Env'', ''Envs'', ''Size'']"

definition FindImage ::
    "(string \<Rightarrow> gotime option) \<Rightarrow> ('ix, 't, 'f, 'n) Index \<Rightarrow> string \<Rightarrow> IndexImage res" where
  "FindImage parse_time idx imageID =
     (let rq = (NewSearchRequest (TermQuery imageID ''ID''))\<lparr>rq_Fields := FindImage_fields\<rparr>
      in (case idx_Search idx rq of
            Err e \<Rightarrow> Err (''No image found for given id : '' @ e)
          | Panic \<Rightarrow> Panic
          | Ok sr \<Rightarrow>
              if res_Total sr = 0 then Err ''No image found for given id : <nil>''
              else if res_Total sr > 1 then Err ''Found many images for given id''
              else (case res_Hits sr of [] \<Rightarrow> Panic | h # _ \<Rightarrow> DocumentToImage parse_time h)))"

section \<open>Changing the index\<close>

definition GetImage ::
    "(string \<Rightarrow> 'n res) \<Rightarrow> ('ix, 't, 'f, 'n) Index \<Rightarrow> string \<Rightarrow> string \<Rightarrow> string \<Rightarrow> IndexImage res" where
  "GetImage ParseNamed idx repository tag dg =
     (let named = (case ParseNamed repository of Ok n \<Rightarrow> Some n | _ \<Rightarrow> None)
      in res_bind (rc_NewRepository (idx_RegClient idx) named) (\<lambda>repo.
         res_bind (repo_ImageFromManifest repo dg tag) (\<lambda>img.
           Parse repository img)))"

definition IndexImage_op ::
    "('ix, 't, 'f, 'n) Index \<Rightarrow> IndexImage \<Rightarrow> ('ix, 't, 'f, 'n) Index" where
  "IndexImage_op idx img = idx\<lparr>idx_Index := bl_Index (idx_bleve idx) (idx_Index idx) (im_FullName img) img\<rparr>"

fun delete_hits ::
    "('ix, 't, 'f, 'n) Index \<Rightarrow> DocumentMatch list \<Rightarrow> ('ix, 't, 'f, 'n) Index res" where
  "delete_hits idx [] = Ok idx"
| "delete_hits idx (h # hs) =
     res_bind (as_string (map_of (doc_Fields h) ''FullName'')) (\<lambda>fullName.
       delete_hits (idx\<lparr>idx_Index := bl_Delete (idx_bleve idx) (idx_Index idx) fullName\<rparr>) hs)"

text \<open>A failed search returns a nil result, whose total the error message reads: a nil
  dereference.\<close>

definition DeleteImage ::
    "('ix, 't, 'f, 'n) Index \<Rightarrow> string \<Rightarrow> ('ix, 't, 'f, 'n) Index res" where
  "DeleteImage idx imageID =
     (let rq = (NewSearchRequest (TermQuery imageID ''ID''))\<lparr>rq_Fields := [''FullName'']\<rparr>
      in (case idx_Search idx rq of
            Err e \<Rightarrow> Panic
          | Panic \<Rightarrow> Panic
          | Ok sr \<Rightarrow> if res_Total sr = 0 then Ok idx else delete_hits idx (res_Hits sr)))"

section \<open>Notifications\<close>

text \<open>One goroutine per hook: the result lists the evaluations that are started.\<close>

definition triggerHooks :: "'t Hook list \<Rightarrow> IndexImage \<Rightarrow> ('t Hook \<times> IndexImage) list" where
  "triggerHooks hooks img = map (\<lambda>h. (h, img)) hooks"

text \<open>The body of the loop of \<open>handleNotifications\<close>: the index afterwards and the hook
  evaluations started.\<close>

definition handle_job ::
    "(string \<Rightarrow> gotime option) \<Rightarrow> (string \<Rightarrow> 'n res) \<Rightarrow> ('ix, 't, 'f, 'n) Index \<Rightarrow> NotificationJob \<Rightarrow>
     (('ix, 't, 'f, 'n) Index \<times> ('t Hook \<times> IndexImage) list) res" where
  "handle_job parse_time ParseNamed idx job =
     (let hooks = GetHooks (idx_Config idx) (job_Action job) in
      if job_Action job = DeleteAction then
        res_bind (if length hooks > 0
                  then (case FindImage parse_time idx (job_Digest job) of
                          Ok img \<Rightarrow> Ok (triggerHooks hooks img)
                        | Err e \<Rightarrow> Ok []
                        | Panic \<Rightarrow> Panic)
                  else Ok []) (\<lambda>started.
        res_bind (DeleteImage idx (job_Digest job)) (\<lambda>idx'. Ok (idx', started)))
      else if job_Action job = PushAction then
        (case GetImage ParseNamed idx (job_Repository job) (job_Tag job) (job_Digest job) of
           Ok img \<Rightarrow> Ok (IndexImage_op idx img, if length hooks > 0 then triggerHooks hooks img else [])
         | Err e \<Rightarrow> Ok (idx, [])
         | Panic \<Rightarrow> Panic)
      else Ok (idx, []))"

text \<open>The jobs one worker takes from the channel, in their order.\<close>

fun handle_jobs ::
    "(string \<Rightarrow> gotime option) \<Rightarrow> (string \<Rightarrow> 'n res) \<Rightarrow> ('ix, 't, 'f, 'n) Index \<Rightarrow> NotificationJob list \<Rightarrow>
     (('ix, 't, 'f, 'n) Index \<times> ('t Hook \<times> IndexImage) list) res" where
  "handle_jobs parse_time ParseNamed idx [] = Ok (idx, [])"
| "handle_jobs parse_time ParseNamed idx (job # jobs) =
     res_bind (handle_job parse_time ParseNamed idx job) (\<lambda>(idx', started).
       res_map (\<lambda>(idx'', more). (idx'', started @ more)) (handle_jobs parse_time ParseNamed idx' jobs))"

end
