(* ===== verification/Engine.thy ===== *)
theory Engine
  imports SearchIndex
begin

text \<open>
  What dim relies on of the search engine, stated once: the content of an index value is a map
  from document ids to images, and a search answers with stored fields of documents of the
  index. \<open>mem_bleve\<close> is an engine over an association list for which the statement holds; it
  is used to run the model on concrete inputs.
\<close>

section \<open>Stored fields\<close>

definition list_field :: "FieldValue list \<Rightarrow> FieldValue option" where
  "list_field vs = (case vs of [] \<Rightarrow> None | [v] \<Rightarrow> Some v | _ \<Rightarrow> Some (FList vs))"

definition map_field :: "strmap option \<Rightarrow> string \<Rightarrow> FieldValue option" where
  "map_field m k = map_option FStr (map_of (nil_or m) k)"

text \<open>The stored value of a field of an image; a slice of one element is stored as the
  element, an empty one not at all, a time as text.\<close>

definition stored :: "(gotime \<Rightarrow> string) \<Rightarrow> IndexImage \<Rightarrow> string \<Rightarrow> FieldValue option" where
  "stored fmt im f =
     (if f = ''ID'' then Some (FStr (im_ID im))
      else if f = ''Name'' then Some (FStr (im_Name im))
      else if f = ''FullName'' then Some (FStr (im_FullName im))
      else if f = ''Tag'' then Some (FStr (im_Tag im))
      else if f = ''Comment'' then Some (FStr (im_Comment im))
      else if f = ''Created'' then Some (FStr (fmt (im_Created im)))
      else if f = ''Author'' then Some (FStr (im_Author im))
      else if f = ''Labels'' then list_field (map FStr (im_Labels im))
      else if f = ''Volumes'' then list_field (map FStr (im_Volumes im))
      else if f = ''ExposedPorts'' then list_field (map (\<lambda>p. FNum (of_int p)) (im_ExposedPorts im))
      else if f = ''Envs'' then list_field (map FStr (im_Envs im))
      else if f = ''Size'' then Some (FNum (of_int (im_Size im)))
      else if HasPrefix f ''Label.'' then map_field (im_Label im) (TrimPrefix f ''Label.'')
      else if HasPrefix f ''Env.'' then map_field (im_Env im) (TrimPrefix f ''Env.'')
      else None)"

definition hit_of :: "(gotime \<Rightarrow> string) \<Rightarrow> (string \<rightharpoonup> IndexImage) \<Rightarrow> string list \<Rightarrow> DocumentMatch \<Rightarrow> bool" where
  "hit_of fmt docs fs h \<longleftrightarrow>
     (\<exists>im. docs (doc_ID h) = Some im \<and> wf_map (doc_Fields h) \<and>
        (\<forall>f. map_of (doc_Fields h) f = (if f \<in> set fs then stored fmt im f else None)))"

section \<open>The engine's behaviour\<close>

definition updates_ok :: "'ix bleve \<Rightarrow> ('ix \<Rightarrow> string \<rightharpoonup> IndexImage) \<Rightarrow> bool" where
  "updates_ok bl docs \<longleftrightarrow>
     (\<forall>ix k im. docs (bl_Index bl ix k im) = (docs ix)(k \<mapsto> im)) \<and>
     (\<forall>ix k. docs (bl_Delete bl ix k) = (docs ix)(k := None))"

text \<open>A query for an exact ID finds the documents with that ID; the answer counts them all and
  holds at most as many as were asked for.\<close>

definition term_ok :: "(gotime \<Rightarrow> string) \<Rightarrow> 'ix bleve \<Rightarrow> ('ix \<Rightarrow> string \<rightharpoonup> IndexImage) \<Rightarrow> bool" where
  "term_ok fmt bl docs \<longleftrightarrow>
     (\<forall>ix t n fs. \<exists>ids hits.
        distinct ids \<and> set ids = {k. \<exists>im. docs ix k = Some im \<and> im_ID im = t} \<and>
        bl_Search bl ix \<lparr>rq_Query = TermQuery t ''ID'', rq_Size = int n, rq_From = 0, rq_Fields = fs\<rparr>
          = Ok \<lparr>res_Total = length ids, res_Hits = hits\<rparr> \<and>
        map doc_ID hits = take n ids \<and> list_all (hit_of fmt (docs ix) fs) hits)"

definition docid_ok :: "(gotime \<Rightarrow> string) \<Rightarrow> 'ix bleve \<Rightarrow> ('ix \<Rightarrow> string \<rightharpoonup> IndexImage) \<Rightarrow> bool" where
  "docid_ok fmt bl docs \<longleftrightarrow>
     (\<forall>ix k im fs. docs ix k = Some im \<longrightarrow>
        (\<exists>h. bl_Search bl ix \<lparr>rq_Query = DocIDQuery [k], rq_Size = 10, rq_From = 0, rq_Fields = fs\<rparr>
             = Ok \<lparr>res_Total = 1, res_Hits = [h]\<rparr> \<and> doc_ID h = k \<and> hit_of fmt (docs ix) fs h))"

definition hits_ok :: "(gotime \<Rightarrow> string) \<Rightarrow> 'ix bleve \<Rightarrow> ('ix \<Rightarrow> string \<rightharpoonup> IndexImage) \<Rightarrow> bool" where
  "hits_ok fmt bl docs \<longleftrightarrow>
     (\<forall>ix rq r. bl_Search bl ix rq = Ok r \<longrightarrow> list_all (hit_of fmt (docs ix) (rq_Fields rq)) (res_Hits r))"

definition bleve_ok :: "(gotime \<Rightarrow> string) \<Rightarrow> 'ix bleve \<Rightarrow> ('ix \<Rightarrow> string \<rightharpoonup> IndexImage) \<Rightarrow> bool" where
  "bleve_ok fmt bl docs \<longleftrightarrow>
     updates_ok bl docs \<and> term_ok fmt bl docs \<and> docid_ok fmt bl docs \<and> hits_ok fmt bl docs"

section \<open>An engine over an association list\<close>

type_synonym mem = "(string \<times> IndexImage) list"

definition mem_hit :: "(gotime \<Rightarrow> string) \<Rightarrow> string list \<Rightarrow> string \<times> IndexImage \<Rightarrow> DocumentMatch" where
  "mem_hit fmt fs d =
     \<lparr>doc_ID = fst d,
      doc_Fields = List.map_filter (\<lambda>f. map_option (\<lambda>v. (f, v)) (stored fmt (snd d) f)) (remdups fs)\<rparr>"

fun mem_match :: "Query \<Rightarrow> (string \<times> IndexImage) \<Rightarrow> bool res" where
  "mem_match MatchAllQuery d = Ok True"
| "mem_match (TermQuery t f) d = (if f = ''ID'' then Ok (im_ID (snd d) = t) else Err ''query'')"
| "mem_match (DocIDQuery ids) d = Ok (fst d \<in> set ids)"
| "mem_match _ d = Err ''query''"

definition mem_search :: "(gotime \<Rightarrow> string) \<Rightarrow> mem \<Rightarrow> SearchRequest \<Rightarrow> SearchResult_bleve res" where
  "mem_search fmt ix rq =
     res_map (\<lambda>ms. let found = map fst (filter snd ms)
               in \<lparr>res_Total = length found,
                   res_Hits = map (mem_hit fmt (rq_Fields rq))
                     (take (nat (rq_Size rq)) (drop (nat (rq_From rq)) found))\<rparr>)
       (res_mapM (\<lambda>d. res_map (Pair d) (mem_match (rq_Query rq) d)) (AList.clearjunk ix))"

definition mem_bleve :: "(gotime \<Rightarrow> string) \<Rightarrow> mem bleve" where
  "mem_bleve fmt = \<lparr>bl_Index = (\<lambda>ix k im. AList.update k im ix), bl_Delete = (\<lambda>ix k. AList.delete k ix),
     bl_Search = mem_search fmt, bl_sprint = (\<lambda>v. [])\<rparr>"

lemma map_of_map_filter_fields:
  "distinct fs \<Longrightarrow> map_of (List.map_filter (\<lambda>f. map_option (\<lambda>v. (f, v)) (g f)) fs) f =
     (if f \<in> set fs then g f else None)"
  by (induction fs) (auto simp: map_filter_simps split: option.splits)

lemma distinct_map_filter_fields:
  "distinct fs \<Longrightarrow> distinct (map fst (List.map_filter (\<lambda>f. map_option (\<lambda>v. (f, v)) (g f)) fs))"
  by (induction fs) (auto simp: map_filter_simps map_filter_def split: option.splits)

lemma mem_hit_ok:
  "(k, im) \<in> set (AList.clearjunk ix) \<Longrightarrow> hit_of fmt (map_of ix) fs (mem_hit fmt fs (k, im))"
  unfolding hit_of_def mem_hit_def
  by (auto simp: map_of_map_filter_fields wf_map_def distinct_map_filter_fields
      distinct_clearjunk map_of_clearjunk intro!: exI [of _ im] simp flip: map_of_eq_Some_iff)

lemma mem_search_pred:
  assumes "\<And>d. mem_match q d = Ok (P d)"
  shows "mem_search fmt ix \<lparr>rq_Query = q, rq_Size = n, rq_From = 0, rq_Fields = fs\<rparr> =
    Ok \<lparr>res_Total = length (filter P (AList.clearjunk ix)),
        res_Hits = map (mem_hit fmt fs) (take (nat n) (filter P (AList.clearjunk ix)))\<rparr>"
proof -
  have "res_mapM (\<lambda>d. res_map (Pair d) (mem_match q d)) xs = Ok (map (\<lambda>d. (d, P d)) xs)" for xs
    by (rule res_mapM_all_Ok) (simp add: assms)
  moreover have "map fst (filter snd (map (\<lambda>d. (d, P d)) xs)) = filter P xs" for xs
    by (induction xs) auto
  ultimately show ?thesis by (simp add: mem_search_def Let_def o_def)
qed

lemma in_clearjunk: "(k, im) \<in> set (AList.clearjunk ix) \<longleftrightarrow> map_of ix k = Some im"
  by (metis distinct_clearjunk map_of_clearjunk map_of_eq_Some_iff)

lemma mem_term_ok: "term_ok fmt (mem_bleve fmt) map_of"
  unfolding term_ok_def
proof (intro allI)
  fix ix :: mem and t n fs
  let ?found = "filter (\<lambda>d. im_ID (snd d) = t) (AList.clearjunk ix)"
  let ?hits = "map (mem_hit fmt fs) (take n ?found)"
  have "bl_Search (mem_bleve fmt) ix
      \<lparr>rq_Query = TermQuery t ''ID'', rq_Size = int n, rq_From = 0, rq_Fields = fs\<rparr>
      = Ok \<lparr>res_Total = length (map fst ?found), res_Hits = ?hits\<rparr>"
    by (simp add: mem_bleve_def mem_search_pred [where P = "\<lambda>d. im_ID (snd d) = t"])
  moreover have "distinct (map fst ?found)"
    by (rule distinct_map_filter) (rule distinct_clearjunk)
  moreover have "set (map fst ?found) = {k. \<exists>im. map_of ix k = Some im \<and> im_ID im = t}"
    by (simp add: image_def Bex_def split_paired_Ex in_clearjunk)
  moreover have "map doc_ID ?hits = take n (map fst ?found)"
    by (simp add: mem_hit_def take_map o_def)
  moreover have "list_all (hit_of fmt (map_of ix) fs) ?hits"
    by (auto simp: list_all_iff intro: mem_hit_ok dest!: in_set_takeD)
  ultimately show "\<exists>ids hits. distinct ids \<and> set ids = {k. \<exists>im. map_of ix k = Some im \<and> im_ID im = t} \<and>
      bl_Search (mem_bleve fmt) ix
        \<lparr>rq_Query = TermQuery t ''ID'', rq_Size = int n, rq_From = 0, rq_Fields = fs\<rparr>
        = Ok \<lparr>res_Total = length ids, res_Hits = hits\<rparr> \<and>
      map doc_ID hits = take n ids \<and> list_all (hit_of fmt (map_of ix) fs) hits"
    by blast
qed

lemma filter_key:
  "distinct (map fst xs) \<Longrightarrow> (k, v) \<in> set xs \<Longrightarrow> filter (\<lambda>d. fst d = k) xs = [(k, v)]"
  by (induction xs) (force simp: filter_empty_conv)+

lemma mem_docid_ok: "docid_ok fmt (mem_bleve fmt) map_of"
  unfolding docid_ok_def
proof (intro allI impI)
  fix ix :: mem and k im fs
  assume "map_of ix k = Some im"
  then have mem: "(k, im) \<in> set (AList.clearjunk ix)" by (simp add: in_clearjunk)
  then have "filter (\<lambda>d. fst d = k) (AList.clearjunk ix) = [(k, im)]"
    by (intro filter_key) (rule distinct_clearjunk)
  then have "bl_Search (mem_bleve fmt) ix
      \<lparr>rq_Query = DocIDQuery [k], rq_Size = 10, rq_From = 0, rq_Fields = fs\<rparr>
      = Ok \<lparr>res_Total = 1, res_Hits = [mem_hit fmt fs (k, im)]\<rparr>"
    by (simp add: mem_bleve_def mem_search_pred [where P = "\<lambda>d. fst d \<in> set [k]"])
  with mem_hit_ok [OF mem]
  show "\<exists>h. bl_Search (mem_bleve fmt) ix
        \<lparr>rq_Query = DocIDQuery [k], rq_Size = 10, rq_From = 0, rq_Fields = fs\<rparr>
      = Ok \<lparr>res_Total = 1, res_Hits = [h]\<rparr> \<and> doc_ID h = k \<and> hit_of fmt (map_of ix) fs h"
    by (auto simp: mem_hit_def)
qed

lemma mem_hits_ok: "hits_ok fmt (mem_bleve fmt) map_of"
  unfolding hits_ok_def
proof (intro allI impI)
  fix ix :: mem and rq r
  assume "bl_Search (mem_bleve fmt) ix rq = Ok r"
  then obtain ms where ms: "res_mapM (\<lambda>d. res_map (Pair d) (mem_match (rq_Query rq) d)) (AList.clearjunk ix) = Ok ms"
    and r: "res_Hits r = map (mem_hit fmt (rq_Fields rq))
       (take (nat (rq_Size rq)) (drop (nat (rq_From rq)) (map fst (filter snd ms))))"
    by (auto simp: mem_bleve_def mem_search_def Let_def res_simps simp del: res_mapM_Ok_iff)
  from ms have "list_all2 (\<lambda>d m. fst m = d) (AList.clearjunk ix) ms"
    by (auto simp: res_simps elim!: list_all2_mono)
  then have "map fst ms = AList.clearjunk ix"
    by (induction rule: list_all2_induct) auto
  then have "fst ` set ms = set (AList.clearjunk ix)" by (metis list.set_map)
  then show "list_all (hit_of fmt (map_of ix) (rq_Fields rq)) (res_Hits r)"
    by (force simp: r list_all_iff intro: mem_hit_ok dest!: in_set_takeD in_set_dropD)
qed

lemma mem_bleve_ok: "bleve_ok fmt (mem_bleve fmt) map_of"
  unfolding bleve_ok_def updates_ok_def
  by (auto simp: mem_term_ok mem_docid_ok mem_hits_ok) (simp_all add: mem_bleve_def update_conv' delete_conv')

end
