(* ===== verification/IndexCorrect.thy ===== *)
theory IndexCorrect
  imports Engine
begin

text \<open>
  Correctness of the index operations against an abstract index, a map from full names to
  images: what deleting removes, what reading back gives, and the refinement of the handling
  of notifications.
\<close>

section \<open>The abstract index\<close>

definition contents :: "('ix \<Rightarrow> string \<rightharpoonup> IndexImage) \<Rightarrow> ('ix, 't, 'f, 'n) Index \<Rightarrow> string \<rightharpoonup> IndexImage" where
  "contents docs idx = docs (idx_Index idx)"

text \<open>Every document is filed under the full name of its image.\<close>

definition keyed :: "(string \<rightharpoonup> IndexImage) \<Rightarrow> bool" where
  "keyed m \<longleftrightarrow> (\<forall>k im. m k = Some im \<longrightarrow> im_FullName im = k)"

definition with_id :: "(string \<rightharpoonup> IndexImage) \<Rightarrow> string \<Rightarrow> string set" where
  "with_id m t = {k. \<exists>im. m k = Some im \<and> im_ID im = t}"

definition abs_job :: "(NotificationJob \<Rightarrow> IndexImage option) \<Rightarrow> NotificationJob \<Rightarrow>
    (string \<rightharpoonup> IndexImage) \<Rightarrow> (string \<rightharpoonup> IndexImage)" where
  "abs_job fetch job m =
     (if job_Action job = DeleteAction then m |` (- with_id m (job_Digest job))
      else if job_Action job = PushAction then
        (case fetch job of Some im \<Rightarrow> m(im_FullName im \<mapsto> im) | None \<Rightarrow> m)
      else m)"

lemma keyed_upd: "keyed m \<Longrightarrow> keyed (m(im_FullName im \<mapsto> im))"
  by (auto simp: keyed_def)

lemma keyed_restrict: "keyed m \<Longrightarrow> keyed (m |` S)"
  by (auto simp: keyed_def restrict_map_def split: if_splits)

lemma keyed_abs_job: "keyed m \<Longrightarrow> keyed (abs_job fetch job m)"
  by (auto simp: abs_job_def keyed_upd keyed_restrict split: option.splits)

section \<open>Reading a document back\<close>

lemma stored_text [simp]:
  "stored fmt im ''Name'' = Some (FStr (im_Name im))"
  "stored fmt im ''Tag'' = Some (FStr (im_Tag im))"
  "stored fmt im ''FullName'' = Some (FStr (im_FullName im))"
  "stored fmt im ''Created'' = Some (FStr (fmt (im_Created im)))"
  "stored fmt im ''Size'' = Some (FNum (of_int (im_Size im)))"
  "stored fmt im ''Volumes'' = list_field (map FStr (im_Volumes im))"
  "stored fmt im ''ExposedPorts'' = list_field (map (\<lambda>p. FNum (of_int p)) (im_ExposedPorts im))"
  by (simp_all add: stored_def)

lemma stored_Label [simp]: "stored fmt im (''Label.'' @ k) = map_field (im_Label im) k"
  and stored_Env [simp]: "stored fmt im (''Env.'' @ k) = map_field (im_Env im) k"
  by (simp_all add: stored_def TrimPrefix_def HasPrefix_def)

lemma go_trunc_of_int [simp]: "go_trunc (of_int i) = i"
  by (simp add: go_trunc_def)

lemma volumes_of_list_field [simp]: "volumes_of (list_field (map FStr vs)) = Ok vs"
proof -
  have "res_mapM (\<lambda>x. as_string (Some x)) (map FStr vs) = Ok vs"
    by (induction vs) auto
  then show ?thesis by (auto simp: volumes_of_def list_field_def split: list.splits)
qed

lemma ports_of_list_field [simp]: "ports_of (list_field (map (\<lambda>p. FNum (of_int p)) ps)) = Ok ps"
proof -
  have "res_mapM (\<lambda>x. res_map go_trunc (as_float (Some x))) (map (\<lambda>p. FNum (of_int p)) ps) = Ok ps"
    by (induction ps) auto
  then show ?thesis by (auto simp: ports_of_def list_field_def split: list.splits)
qed

definition text_fields :: "(string, FieldValue) gomap \<Rightarrow> bool" where
  "text_fields fs \<longleftrightarrow>
     (\<forall>(k, v) \<in> set fs. HasPrefix k ''Label.'' \<or> HasPrefix k ''Env.'' \<longrightarrow> (\<exists>s. v = FStr s))"

definition text_at :: "(string, FieldValue) gomap \<Rightarrow> string \<Rightarrow> string option" where
  "text_at fs k = (case map_of fs k of Some (FStr s) \<Rightarrow> Some s | _ \<Rightarrow> None)"

definition over :: "'a option \<Rightarrow> 'a option \<Rightarrow> 'a option" where
  "over x y = (case x of None \<Rightarrow> y | Some a \<Rightarrow> Some a)"

lemma over_simps [simp]: "over None y = y" "over (Some a) y = Some a"
  by (simp_all add: over_def)

lemma over_None [simp]: "over x None = x"
  by (cases x) simp_all

lemma text_at_Cons:
  "text_at ((k, FStr s) # fs) k' = (if k' = k then Some s else text_at fs k')"
  by (simp add: text_at_def)

lemma field_loop_Ok_aux:
  assumes L: "L = ''Label.''" and E: "E = ''Env.''" and "wf_map fs" "text_fields fs"
  shows "\<exists>labels' envs'. field_loop fs labels envs = Ok (labels', envs') \<and>
    (\<forall>k. map_of labels' k = over (text_at fs (L @ k)) (map_of labels k)) \<and>
    (\<forall>k. map_of envs' k = over (text_at fs (E @ k)) (map_of envs k))"
  using assms(3,4)
proof (induction fs arbitrary: labels envs)
  case Nil
  then show ?case by (simp add: text_at_def)
next
  case (Cons kv fs)
  obtain k v where kv: "kv = (k, v)" by force
  from Cons.prems have rest: "wf_map fs" "text_fields fs"
    and isT: "HasPrefix k L \<or> HasPrefix k E \<Longrightarrow> \<exists>s. v = FStr s"
    by (auto simp: wf_map_def text_fields_def kv L E)
  from Cons.prems have "map_of fs k = None"
    by (simp add: wf_map_def kv map_of_eq_None_iff)
  then have new: "text_at fs k = None" by (simp add: text_at_def)
  note IH = Cons.IH [OF rest]
  have step: "field_loop ((k, FStr s) # fs) labels envs =
      (if HasPrefix k L then field_loop fs (mput (TrimPrefix k L) s labels) envs
       else if HasPrefix k E then field_loop fs labels (mput (TrimPrefix k E) s envs)
       else field_loop fs labels envs)" for s
    by (simp add: L E)
  have disj: "L @ x \<noteq> E @ y" "\<not> HasPrefix (E @ y) L" for x y
    by (simp_all add: L E HasPrefix_def)
  consider (label) l where "k = L @ l" | (env) e where "k = E @ e"
    | (other) "\<not> HasPrefix k L" "\<not> HasPrefix k E"
    by (auto simp: go_string_simps)
  then show ?case
  proof cases
    case label
    with isT obtain s where v: "v = FStr s" by auto
    show ?thesis
      using IH [of "mput l s labels" envs] new disj disj(1) [symmetric]
      by (auto simp: kv v step [unfolded label] label go_map_simps text_at_Cons simp del: field_loop.simps)
  next
    case env
    with isT obtain s where v: "v = FStr s" by auto
    show ?thesis
      using IH [of labels "mput e s envs"] new disj disj(1) [symmetric]
      by (auto simp: kv v step [unfolded env] env go_map_simps text_at_Cons simp del: field_loop.simps)
  next
    case other
    then have "text_at (kv # fs) (L @ l) = text_at fs (L @ l)"
      "text_at (kv # fs) (E @ l) = text_at fs (E @ l)" for l
      by (auto simp: text_at_def kv)
    with other IH [of labels envs] show ?thesis by (auto simp: kv L E)
  qed
qed

lemmas field_loop_Ok = field_loop_Ok_aux [OF refl refl]

text \<open>The stored fields of an image that were asked for, read back.\<close>

definition read_back :: "(gotime \<Rightarrow> string) \<Rightarrow> (string \<Rightarrow> gotime option) \<Rightarrow> string list \<Rightarrow> IndexImage \<Rightarrow> IndexImage \<Rightarrow> bool" where
  "read_back fmt parse_time fs im im' \<longleftrightarrow>
     im_Name im' = im_Name im \<and> im_Tag im' = im_Tag im \<and> im_FullName im' = im_FullName im \<and>
     im_Created im' = (if ''Created'' \<in> set fs
        then (case parse_time (fmt (im_Created im)) of None \<Rightarrow> 0 | Some t \<Rightarrow> t) else 0) \<and>
     (\<forall>k. map_of (nil_or (im_Label im')) k =
        (if ''Label.'' @ k \<in> set fs then map_of (nil_or (im_Label im)) k else None)) \<and>
     (\<forall>k. map_of (nil_or (im_Env im')) k =
        (if ''Env.'' @ k \<in> set fs then map_of (nil_or (im_Env im)) k else None)) \<and>
     im_Volumes im' = (if ''Volumes'' \<in> set fs then im_Volumes im else []) \<and>
     im_ExposedPorts im' = (if ''ExposedPorts'' \<in> set fs then im_ExposedPorts im else []) \<and>
     im_Size im' = (if ''Size'' \<in> set fs then im_Size im else 0) \<and>
     im_ID im' = [] \<and> im_Comment im' = [] \<and> im_Author im' = [] \<and> im_Labels im' = [] \<and> im_Envs im' = []"

definition doc_of :: "(gotime \<Rightarrow> string) \<Rightarrow> string list \<Rightarrow> IndexImage \<Rightarrow> DocumentMatch \<Rightarrow> bool" where
  "doc_of fmt fs im h \<longleftrightarrow> wf_map (doc_Fields h) \<and>
     (\<forall>f. map_of (doc_Fields h) f = (if f \<in> set fs then stored fmt im f else None))"

lemma hit_of_doc: "hit_of fmt docs fs h \<longleftrightarrow> (\<exists>im. docs (doc_ID h) = Some im \<and> doc_of fmt fs im h)"
  by (simp add: hit_of_def doc_of_def)

lemma stored_prefixed:
  assumes "stored fmt im f = Some v" "HasPrefix f ''Label.'' \<or> HasPrefix f ''Env.''"
  shows "\<exists>s. v = FStr s"
proof -
  from assms(2) consider k where "f = ''Label.'' @ k" | k where "f = ''Env.'' @ k"
    by (auto simp: go_string_simps)
  then show ?thesis
    by cases (use assms(1) in \<open>auto simp only: stored_Label stored_Env map_field_def map_option_eq_Some\<close>)
qed

lemma doc_of_text_fields: "doc_of fmt fs im h \<Longrightarrow> text_fields (doc_Fields h)"
  unfolding text_fields_def doc_of_def wf_map_def
  by (clarsimp simp del: imp_disjL) (metis map_of_is_SomeI option.distinct(1) stored_prefixed)

lemma doc_of_text_at:
  "doc_of fmt fs im h \<Longrightarrow> text_at (doc_Fields h) (''Label.'' @ k) =
     (if ''Label.'' @ k \<in> set fs then map_of (nil_or (im_Label im)) k else None)"
  "doc_of fmt fs im h \<Longrightarrow> text_at (doc_Fields h) (''Env.'' @ k) =
     (if ''Env.'' @ k \<in> set fs then map_of (nil_or (im_Env im)) k else None)"
  by (simp_all only: text_at_def doc_of_def stored_Label stored_Env map_field_def)
    (auto split: option.splits)

lemma DocumentToImage_doc_of:
  assumes "doc_of fmt fs im h" and fs: "{''Name'', ''Tag'', ''FullName''} \<subseteq> set fs"
  shows "\<exists>im'. DocumentToImage parse_time h = Ok im' \<and> read_back fmt parse_time fs im im'"
proof -
  have get: "map_of (doc_Fields h) f = (if f \<in> set fs then stored fmt im f else None)" for f
    using assms(1) by (simp add: doc_of_def)
  obtain labels envs where fl: "field_loop (doc_Fields h) [] [] = Ok (labels, envs)"
    and lab: "\<And>k. map_of labels k = text_at (doc_Fields h) (''Label.'' @ k)"
    and env: "\<And>k. map_of envs k = text_at (doc_Fields h) (''Env.'' @ k)"
    using field_loop_Ok [of "doc_Fields h" "[]" "[]"] doc_of_text_fields [OF assms(1)] assms(1)
    by (fastforce simp: doc_of_def)
  have nil: "nil_or (if m \<noteq> [] then Some m else None) = m" for m :: strmap
    by simp
  have vol: "volumes_of None = Ok []" "ports_of None = Ok []" "created_of parse_time None = Ok 0"
    by (simp_all add: volumes_of_def ports_of_def created_of_def)
  show ?thesis
    using fs doc_of_text_at [OF assms(1)]
    by (simp add: DocumentToImage_def Let_def get fl vol created_of_def read_back_def
        zero_IndexImage_def nil lab env)
qed

section \<open>Search results with details\<close>

text \<open>An indexed image lists the keys of its label and environment maps; images made by
  \<open>Parse\<close> do.\<close>

definition lists_keys :: "IndexImage \<Rightarrow> bool" where
  "lists_keys im \<longleftrightarrow> set (im_Labels im) = dom (map_of (nil_or (im_Label im))) \<and>
                  set (im_Envs im) = dom (map_of (nil_or (im_Env im)))"

lemma Parse_lists_keys: "Parse name img = Ok im \<Longrightarrow> lists_keys im"
  by (clarsimp simp: Parse_def Let_def lists_keys_def Keys_def zero_IndexImage_def
      dom_map_of_conv_image_fst split: option.splits)

lemma key_fields_list [simp]: "key_fields idx p (list_field (map FStr ls)) = map (\<lambda>l. p @ l) ls"
  by (auto simp: key_fields_def list_field_def split: list.splits)

lemma list_field_None [simp]: "list_field vs = None \<longleftrightarrow> vs = []"
  by (auto simp: list_field_def split: list.splits)

text \<open>The request for the details of a document.\<close>

definition details_request :: "IndexImage \<Rightarrow> string list \<Rightarrow> string list" where
  "details_request im flds =
     flds @ (if ''Labels'' \<in> set flds then map (\<lambda>l. ''Label.'' @ l) (im_Labels im) else [])
          @ (if ''Envs'' \<in> set flds then map (\<lambda>l. ''Env.'' @ l) (im_Envs im) else [])"

lemma searchDetails_doc:
  assumes bl: "bleve_ok fmt (idx_bleve idx) docs"
    and h: "docs (idx_Index idx) (doc_ID h) = Some im" "doc_of fmt fs im h"
    and fs: "''Labels'' \<in> set fs" "''Envs'' \<in> set fs"
  shows "\<exists>h'. searchDetails idx h flds = Ok h' \<and> doc_of fmt (details_request im flds) im h'"
proof -
  have st: "stored fmt im ''Labels'' = list_field (map FStr (im_Labels im))"
      "stored fmt im ''Envs'' = list_field (map FStr (im_Envs im))"
    by (simp_all add: stored_def)
  have get: "map_of (doc_Fields h) ''Labels'' = list_field (map FStr (im_Labels im))"
      "map_of (doc_Fields h) ''Envs'' = list_field (map FStr (im_Envs im))"
    using h(2) fs by (simp_all add: doc_of_def st)
  obtain h' where h': "bl_Search (idx_bleve idx) (idx_Index idx)
      \<lparr>rq_Query = DocIDQuery [doc_ID h], rq_Size = 10, rq_From = 0, rq_Fields = details_request im flds\<rparr>
      = Ok \<lparr>res_Total = 1, res_Hits = [h']\<rparr>" "doc_ID h' = doc_ID h"
      "hit_of fmt (docs (idx_Index idx)) (details_request im flds) h'"
    using bl h(1) unfolding bleve_ok_def docid_ok_def by blast
  have "searchDetails idx h flds = Ok h'"
    using h'(1)
    by (cases "im_Labels im = []"; cases "im_Envs im = []"; cases "''Labels'' \<in> set flds";
        cases "''Envs'' \<in> set flds")
      (simp_all add: searchDetails_def Let_def get NewSearchRequest_def NewSearchRequestOptions_def
        idx_Search_def details_request_def del: append_Cons)
  with h'(2,3) h(1) show ?thesis by (auto simp: hit_of_doc)
qed

lemma detail_fields_set:
  "set (detail_fields flds) = set flds \<union> {''Name'', ''Tag'', ''FullName''}"
  by (auto simp: detail_fields_def)

text \<open>What a detailed answer shows of an image: everything the index holds about the labels,
  environment, volumes, ports, size and time that were asked for.\<close>

definition shown :: "(gotime \<Rightarrow> string) \<Rightarrow> (string \<Rightarrow> gotime option) \<Rightarrow> string list \<Rightarrow> IndexImage \<Rightarrow> IndexImage \<Rightarrow> bool" where
  "shown fmt parse_time flds im im' \<longleftrightarrow>
     im_Name im' = im_Name im \<and> im_Tag im' = im_Tag im \<and> im_FullName im' = im_FullName im \<and>
     (''Labels'' \<in> set flds \<longrightarrow> map_of (nil_or (im_Label im')) = map_of (nil_or (im_Label im))) \<and>
     (''Envs'' \<in> set flds \<longrightarrow> map_of (nil_or (im_Env im')) = map_of (nil_or (im_Env im))) \<and>
     (''Volumes'' \<in> set flds \<longrightarrow> im_Volumes im' = im_Volumes im) \<and>
     (''ExposedPorts'' \<in> set flds \<longrightarrow> im_ExposedPorts im' = im_ExposedPorts im) \<and>
     (''Size'' \<in> set flds \<longrightarrow> im_Size im' = im_Size im) \<and>
     (''Created'' \<in> set flds \<longrightarrow>
        im_Created im' = (case parse_time (fmt (im_Created im)) of None \<Rightarrow> 0 | Some t \<Rightarrow> t))"

lemma details_request_keys:
  assumes "lists_keys im"
  shows "''Labels'' \<in> set flds \<Longrightarrow>
      (if ''Label.'' @ k \<in> set (details_request im flds) then map_of (nil_or (im_Label im)) k else None)
      = map_of (nil_or (im_Label im)) k"
    and "''Envs'' \<in> set flds \<Longrightarrow>
      (if ''Env.'' @ k \<in> set (details_request im flds) then map_of (nil_or (im_Env im)) k else None)
      = map_of (nil_or (im_Env im)) k"
  using assms by (auto simp: details_request_def lists_keys_def domIff image_iff)

lemma read_back_shown:
  assumes "read_back fmt parse_time (details_request im flds) im im'" "lists_keys im"
  shows "shown fmt parse_time flds im im'"
proof -
  have "f \<in> set flds \<Longrightarrow> f \<in> set (details_request im flds)" for f
    by (simp add: details_request_def)
  with assms details_request_keys [OF assms(2), of flds]
  show ?thesis by (simp add: read_back_def shown_def fun_eq_iff del: append.simps append_Cons)
qed

lemma shown_mono: "shown fmt pt flds im im' \<Longrightarrow> set flds' \<subseteq> set flds \<Longrightarrow> shown fmt pt flds' im im'"
  by (auto simp: shown_def)

lemma detail_loop_Ok:
  assumes bl: "bleve_ok fmt (idx_bleve idx) docs"
    and keys: "\<forall>k im. docs (idx_Index idx) k = Some im \<longrightarrow> lists_keys im"
    and fs: "''Labels'' \<in> set fs" "''Envs'' \<in> set fs"
    and hits: "list_all (hit_of fmt (docs (idx_Index idx)) fs) hs"
    and flds: "{''Name'', ''Tag'', ''FullName''} \<subseteq> set flds"
  shows "\<exists>hs' ims. detail_loop idx flds hs = Ok hs' \<and> buildResults parse_time hs' = Ok ims \<and>
     list_all2 (\<lambda>h im'. \<exists>im. docs (idx_Index idx) (doc_ID h) = Some im \<and> shown fmt parse_time flds im im') hs ims"
  using hits
proof (induction hs)
  case Nil
  then show ?case by (simp add: buildResults_def)
next
  case (Cons h hs)
  then obtain hs' ims where IH: "detail_loop idx flds hs = Ok hs'" "buildResults parse_time hs' = Ok ims"
    "list_all2 (\<lambda>h im'. \<exists>im. docs (idx_Index idx) (doc_ID h) = Some im \<and> shown fmt parse_time flds im im') hs ims"
    by auto
  from Cons.prems obtain im where im: "docs (idx_Index idx) (doc_ID h) = Some im" "doc_of fmt fs im h"
    by (auto simp: hit_of_doc)
  then obtain h' where h': "searchDetails idx h flds = Ok h'" "doc_of fmt (details_request im flds) im h'"
    using searchDetails_doc [OF bl _ _ fs] by blast
  moreover obtain im' where im': "DocumentToImage parse_time h' = Ok im'"
    "read_back fmt parse_time (details_request im flds) im im'"
    using DocumentToImage_doc_of [OF h'(2)] flds by (auto simp: details_request_def)
  ultimately show ?case
    using IH read_back_shown [OF im'(2) keys [rule_format, OF im(1)]] im(1)
    by (intro exI [of _ "h' # hs'"] exI [of _ "im' # ims"]) (auto simp: buildResults_def)
qed


section \<open>At a concrete index\<close>

definition sample_image :: IndexImage where
  "sample_image = zero_IndexImage\<lparr>im_ID := ''d1'', im_Name := ''mysql'', im_Tag := ''5.7'',
     im_FullName := ''mysql:5.7'', im_Label := Some [(''os'', ''debian'')], im_Labels := [''os'']\<rparr>"

definition sample_index :: "(mem, unit, unit, string) Index" where
  "sample_index = \<lparr>idx_bleve = mem_bleve (\<lambda>_. ''t''), idx_Index = [(''mysql:5.7'', sample_image)],
     idx_Config = \<lparr>cfg_Directory = [], cfg_Hooks = [], cfg_funcMap = None\<rparr>,
     idx_RegClient = \<lparr>rc_NewRepository = (\<lambda>_. Err ''unreachable'')\<rparr>\<rparr>"

lemma sample_index_sel:
  "idx_bleve sample_index = mem_bleve (\<lambda>_. ''t'')" "idx_Index sample_index = [(''mysql:5.7'', sample_image)]"
  "contents map_of sample_index = [''mysql:5.7'' \<mapsto> sample_image]"
  by (simp_all add: sample_index_def contents_def fun_eq_iff)

lemma with_id_single: "with_id [k \<mapsto> im] t = (if im_ID im = t then {k} else {})"
  by (auto simp: with_id_def split: if_splits)

lemma sample_with_id: "with_id (contents map_of sample_index) ''d1'' = {''mysql:5.7''}"
  by (simp add: sample_index_sel with_id_single) (simp add: sample_image_def)

lemma sample_bleve_ok: "bleve_ok (\<lambda>_. ''t'') (idx_bleve sample_index) map_of"
  by (simp add: sample_index_sel mem_bleve_ok)

lemma sample_keyed: "keyed (contents map_of sample_index)"
  by (simp add: sample_index_sel keyed_def sample_image_def)


end
