(* ===== verification/IndexJobs.thy ===== *)
theory IndexJobs
  imports IndexCorrect
begin

text \<open>
  Deleting from the index and the handling of notifications, against the abstract index of
  theory \<open>IndexCorrect\<close>. The search for the images to delete asks for the default number of
  hits, ten; the theorems say what that means for a digest with more tags.
\<close>

section \<open>Deleting\<close>

text \<open>Nothing but the engine's index value differs.\<close>

definition same_but_index :: "('ix, 't, 'f, 'n) Index \<Rightarrow> ('ix, 't, 'f, 'n) Index \<Rightarrow> bool" where
  "same_but_index idx idx' \<longleftrightarrow> idx' = idx\<lparr>idx_Index := idx_Index idx'\<rparr>"

lemma same_but_index_refl [simp]: "same_but_index idx idx"
  by (simp add: same_but_index_def)

lemma same_but_index_trans:
  "same_but_index a b \<Longrightarrow> same_but_index b c \<Longrightarrow> same_but_index a c"
  by (metis (no_types, lifting) same_but_index_def Index.surjective Index.update_convs(2))

lemma same_but_index_sel:
  "same_but_index idx idx' \<Longrightarrow> idx_bleve idx' = idx_bleve idx"
  "same_but_index idx idx' \<Longrightarrow> idx_Config idx' = idx_Config idx"
  "same_but_index idx idx' \<Longrightarrow> idx_RegClient idx' = idx_RegClient idx"
  by (metis same_but_index_def Index.select_convs Index.surjective Index.update_convs(2))+

lemma delete_hits_contents:
  assumes "updates_ok (idx_bleve idx) docs"
    and "\<forall>h \<in> set hs. map_of (doc_Fields h) ''FullName'' = Some (FStr (doc_ID h))"
  shows "\<exists>idx'. delete_hits idx hs = Ok idx' \<and> same_but_index idx idx' \<and>
      contents docs idx' = contents docs idx |` (- set (map doc_ID hs))"
  using assms
proof (induction hs arbitrary: idx)
  case Nil
  then show ?case by (simp add: contents_def)
next
  case (Cons h hs)
  let ?i = "idx\<lparr>idx_Index := bl_Delete (idx_bleve idx) (idx_Index idx) (doc_ID h)\<rparr>"
  obtain idx' where "delete_hits ?i hs = Ok idx'" "same_but_index ?i idx'"
    "contents docs idx' = contents docs ?i |` (- set (map doc_ID hs))"
    using Cons.IH [of ?i] Cons.prems by auto
  moreover have "contents docs ?i = (contents docs idx)(doc_ID h := None)"
    using Cons.prems by (simp add: contents_def updates_ok_def fun_eq_iff)
  moreover have "same_but_index idx ?i" by (simp add: same_but_index_def)
  ultimately show ?case
    using Cons.prems
    by (auto simp: restrict_map_def fun_eq_iff intro: same_but_index_trans)
qed

lemma search_by_id:
  assumes "bleve_ok fmt (idx_bleve idx) docs"
  obtains ids hits where "distinct ids" "set ids = with_id (contents docs idx) t"
    "idx_Search idx ((NewSearchRequest (TermQuery t ''ID''))\<lparr>rq_Fields := fs\<rparr>)
       = Ok \<lparr>res_Total = length ids, res_Hits = hits\<rparr>"
    "map doc_ID hits = take 10 ids" "list_all (hit_of fmt (contents docs idx) fs) hits"
proof -
  have "term_ok fmt (idx_bleve idx) docs" using assms by (simp add: bleve_ok_def)
  then obtain ids hits where "distinct ids \<and> set ids = {k. \<exists>im. docs (idx_Index idx) k = Some im \<and> im_ID im = t} \<and>
      bl_Search (idx_bleve idx) (idx_Index idx)
        \<lparr>rq_Query = TermQuery t ''ID'', rq_Size = int 10, rq_From = 0, rq_Fields = fs\<rparr>
        = Ok \<lparr>res_Total = length ids, res_Hits = hits\<rparr> \<and>
      map doc_ID hits = take 10 ids \<and> list_all (hit_of fmt (docs (idx_Index idx)) fs) hits"
    unfolding term_ok_def by blast
  then show ?thesis
    by (intro that [of ids hits])
      (auto simp: with_id_def contents_def idx_Search_def NewSearchRequest_def NewSearchRequestOptions_def)
qed

text \<open>The documents deleted: all those with the digest, or ten of them.\<close>

lemma DeleteImage_contents:
  assumes bl: "bleve_ok fmt (idx_bleve idx) docs" and k: "keyed (contents docs idx)"
  shows "\<exists>idx' D. DeleteImage idx t = Ok idx' \<and> same_but_index idx idx' \<and>
      D \<subseteq> with_id (contents docs idx) t \<and> finite (with_id (contents docs idx) t) \<and>
      card D = min 10 (card (with_id (contents docs idx) t)) \<and>
      contents docs idx' = contents docs idx |` (- D)"
proof -
  obtain ids hits where ids: "distinct ids" "set ids = with_id (contents docs idx) t"
    and sr: "idx_Search idx ((NewSearchRequest (TermQuery t ''ID''))\<lparr>rq_Fields := [''FullName'']\<rparr>)
       = Ok \<lparr>res_Total = length ids, res_Hits = hits\<rparr>"
    and hits: "map doc_ID hits = take 10 ids" "list_all (hit_of fmt (contents docs idx) [''FullName'']) hits"
    using search_by_id [OF bl] by blast
  have "\<forall>h \<in> set hits. map_of (doc_Fields h) ''FullName'' = Some (FStr (doc_ID h))"
    using hits(2) k by (fastforce simp: list_all_iff hit_of_doc doc_of_def keyed_def)
  then obtain idx' where del: "delete_hits idx hits = Ok idx'" "same_but_index idx idx'"
    "contents docs idx' = contents docs idx |` (- set (map doc_ID hits))"
    using delete_hits_contents [of idx docs hits] bl by (auto simp: bleve_ok_def)
  have "DeleteImage idx t = Ok idx'"
  proof (cases "ids = []")
    case True
    with hits(1) del(1) sr show ?thesis by (simp add: DeleteImage_def Let_def)
  next
    case False
    with del(1) sr show ?thesis by (simp add: DeleteImage_def Let_def)
  qed
  moreover have "set (take 10 ids) \<subseteq> set ids" by (rule set_take_subset)
  moreover have "card (set (take 10 ids)) = min 10 (card (set ids))"
    using ids(1) by (simp add: distinct_card)
  moreover have "finite (with_id (contents docs idx) t)" by (simp flip: ids(2))
  ultimately show ?thesis
    using del(2,3) hits(1) ids(2) by (intro exI [of _ idx'] exI [of _ "set (take 10 ids)"]) simp
qed

lemma with_id_restrict: "with_id (m |` (- D)) t = with_id m t - D"
  by (auto simp: with_id_def restrict_map_def split: if_splits)

text \<open>
  C16: deleting by digest never fails on an index whose documents are filed under their full
  names: it returns an index in which no image with another digest has changed, nothing has been
  added, and of the \<open>n\<close> images with that digest \<open>n - 10\<close> are left (none when there are at most
  ten, the number of hits a search returns by default).
\<close>

theorem DeleteImage_removes:
  assumes "bleve_ok fmt (idx_bleve idx) docs" and "keyed (contents docs idx)"
  shows "\<exists>idx'. DeleteImage idx t = Ok idx' \<and>
      contents docs idx' \<subseteq>\<^sub>m contents docs idx \<and>
      (\<forall>k. k \<notin> with_id (contents docs idx) t \<longrightarrow> contents docs idx' k = contents docs idx k) \<and>
      card (with_id (contents docs idx') t) = card (with_id (contents docs idx) t) - 10 \<and>
      (card (with_id (contents docs idx) t) \<le> 10 \<longrightarrow> with_id (contents docs idx') t = {})"
proof -
  obtain idx' D where d: "DeleteImage idx t = Ok idx'" "D \<subseteq> with_id (contents docs idx) t"
    "finite (with_id (contents docs idx) t)" "card D = min 10 (card (with_id (contents docs idx) t))"
    "contents docs idx' = contents docs idx |` (- D)"
    using DeleteImage_contents [OF assms] by blast
  have "with_id (contents docs idx') t = with_id (contents docs idx) t - D"
    by (simp add: d(5) with_id_restrict)
  moreover have "card (with_id (contents docs idx) t - D) = card (with_id (contents docs idx) t) - 10"
    using d(2,3,4) by (simp add: card_Diff_subset finite_subset [OF d(2,3)] min_def)
  moreover have "D = with_id (contents docs idx) t" if "card (with_id (contents docs idx) t) \<le> 10"
    using d(2-4) that by (simp add: card_subset_eq)
  ultimately show ?thesis
    using d(1,2,5) by (intro exI [of _ idx']) (auto simp: map_le_def restrict_map_def)
qed

lemma DeleteImage_all:
  assumes "bleve_ok fmt (idx_bleve idx) docs" "keyed (contents docs idx)"
    and "card (with_id (contents docs idx) t) \<le> 10"
  shows "\<exists>idx'. DeleteImage idx t = Ok idx' \<and> same_but_index idx idx' \<and>
      contents docs idx' = contents docs idx |` (- with_id (contents docs idx) t)"
proof -
  obtain idx' D where d: "DeleteImage idx t = Ok idx'" "same_but_index idx idx'"
    "D \<subseteq> with_id (contents docs idx) t"
    "finite (with_id (contents docs idx) t)" "card D = min 10 (card (with_id (contents docs idx) t))"
    "contents docs idx' = contents docs idx |` (- D)"
    using DeleteImage_contents [OF assms(1,2)] by blast
  moreover have "D = with_id (contents docs idx) t"
    using d(3-5) assms(3) by (simp add: card_subset_eq)
  ultimately show ?thesis by blast
qed

section \<open>Handling notifications\<close>

text \<open>The image a push notification asks for, when it can be fetched.\<close>

definition fetched :: "(string \<Rightarrow> 'n res) \<Rightarrow> ('ix, 't, 'f, 'n) Index \<Rightarrow> NotificationJob \<Rightarrow> IndexImage option" where
  "fetched ParseNamed idx job =
     (case GetImage ParseNamed idx (job_Repository job) (job_Tag job) (job_Digest job) of
        Ok im \<Rightarrow> Some im | _ \<Rightarrow> None)"

lemma fetched_same: "same_but_index idx idx' \<Longrightarrow> fetched P idx' job = fetched P idx job"
  by (simp add: fetched_def GetImage_def same_but_index_sel)

lemma FindImage_no_panic:
  assumes bl: "bleve_ok fmt (idx_bleve idx) docs"
  shows "FindImage parse_time idx t \<noteq> Panic"
proof -
  obtain ids hits where "distinct ids"
    and sr: "idx_Search idx ((NewSearchRequest (TermQuery t ''ID''))\<lparr>rq_Fields := FindImage_fields\<rparr>)
       = Ok \<lparr>res_Total = length ids, res_Hits = hits\<rparr>"
    and hits: "map doc_ID hits = take 10 ids" "list_all (hit_of fmt (contents docs idx) FindImage_fields) hits"
    using search_by_id [OF bl, of t FindImage_fields] by metis
  have "\<exists>h im. hits = [h] \<and> doc_of fmt FindImage_fields im h" if "length ids = 1"
  proof -
    have "length hits = 1" using hits(1) that by (metis length_map length_take min_def numeral_le_one_iff
        semiring_norm(69) nle_le)
    with hits(2) show ?thesis by (auto simp: length_Suc_conv hit_of_doc)
  qed
  moreover have "DocumentToImage parse_time h \<noteq> Panic" if "doc_of fmt FindImage_fields im h" for h im
    using DocumentToImage_doc_of [OF that, of parse_time] by (auto simp: FindImage_fields_def)
  moreover have "length ids = 0 \<or> length ids = 1 \<or> length ids > 1" by linarith
  ultimately show ?thesis
    using sr by (auto simp: FindImage_def Let_def simp del: length_0_conv length_greater_0_conv)
qed

text \<open>A push whose image has no configuration crashes the worker; \<open>fetch_safe\<close> says it does not
  happen for a job.\<close>

definition fetch_safe :: "(string \<Rightarrow> 'n res) \<Rightarrow> ('ix, 't, 'f, 'n) Index \<Rightarrow> NotificationJob \<Rightarrow> bool" where
  "fetch_safe ParseNamed idx job \<longleftrightarrow>
     job_Action job \<noteq> PushAction \<or>
     GetImage ParseNamed idx (job_Repository job) (job_Tag job) (job_Digest job) \<noteq> Panic"

lemma handle_job_refines:
  assumes bl: "bleve_ok fmt (idx_bleve idx) docs" and k: "keyed (contents docs idx)"
    and few: "card (with_id (contents docs idx) (job_Digest job)) \<le> 10"
    and safe: "fetch_safe ParseNamed idx job"
  shows "\<exists>idx' started. handle_job parse_time ParseNamed idx job = Ok (idx', started) \<and>
      same_but_index idx idx' \<and>
      contents docs idx' = abs_job (fetched ParseNamed idx) job (contents docs idx)"
proof -
  consider (del) "job_Action job = DeleteAction" | (push) "job_Action job = PushAction"
    | (other) "job_Action job \<noteq> DeleteAction" "job_Action job \<noteq> PushAction" by blast
  then show ?thesis
  proof cases
    case del
    obtain idx' where "DeleteImage idx (job_Digest job) = Ok idx'" "same_but_index idx idx'"
      "contents docs idx' = contents docs idx |` (- with_id (contents docs idx) (job_Digest job))"
      using DeleteImage_all [OF bl k few] by blast
    with del FindImage_no_panic [OF bl, of parse_time "job_Digest job"] show ?thesis
      by (auto simp: handle_job_def abs_job_def Let_def split: res.splits)
  next
    case push
    then have a: "job_Action job \<noteq> DeleteAction" by simp
    have "contents docs (IndexImage_op idx im) = (contents docs idx)(im_FullName im \<mapsto> im)" for im
      using bl by (simp add: IndexImage_op_def contents_def bleve_ok_def updates_ok_def fun_eq_iff)
    moreover have "same_but_index idx (IndexImage_op idx im)" for im
      by (simp add: IndexImage_op_def same_but_index_def)
    ultimately show ?thesis
      using push a safe
      by (auto simp: handle_job_def abs_job_def fetched_def fetch_safe_def Let_def split: res.splits)
  next
    case other
    then show ?thesis by (simp add: handle_job_def abs_job_def Let_def)
  qed
qed

text \<open>What has to hold before each job of a run: at most ten images share the digest it names,
  and fetching its image does not crash.\<close>

fun run_safe :: "(string \<Rightarrow> 'n res) \<Rightarrow> ('ix, 't, 'f, 'n) Index \<Rightarrow> (string \<rightharpoonup> IndexImage) \<Rightarrow>
    NotificationJob list \<Rightarrow> bool" where
  "run_safe ParseNamed idx m [] = True"
| "run_safe ParseNamed idx m (job # jobs) =
     (card (with_id m (job_Digest job)) \<le> 10 \<and> fetch_safe ParseNamed idx job \<and>
      run_safe ParseNamed idx (abs_job (fetched ParseNamed idx) job m) jobs)"

lemma run_safe_same: "same_but_index idx idx' \<Longrightarrow> run_safe P idx' m jobs = run_safe P idx m jobs"
proof (induction jobs arbitrary: m)
  case (Cons job jobs)
  then have "fetched P idx' = fetched P idx" by (auto simp: fetched_same)
  with Cons show ?case by (simp add: fetch_safe_def GetImage_def same_but_index_sel)
qed simp

lemma handle_jobs_contents:
  assumes "bleve_ok fmt (idx_bleve idx) docs" and "keyed (contents docs idx)"
    and "run_safe ParseNamed idx (contents docs idx) jobs"
  shows "\<exists>idx' started. handle_jobs parse_time ParseNamed idx jobs = Ok (idx', started) \<and>
      contents docs idx' = fold (abs_job (fetched ParseNamed idx)) jobs (contents docs idx) \<and>
      keyed (contents docs idx') \<and> same_but_index idx idx'"
  using assms
proof (induction jobs arbitrary: idx)
  case Nil
  then show ?case by simp
next
  case (Cons job jobs)
  then obtain idx1 s1 where 1: "handle_job parse_time ParseNamed idx job = Ok (idx1, s1)"
    "same_but_index idx idx1" "contents docs idx1 = abs_job (fetched ParseNamed idx) job (contents docs idx)"
    using handle_job_refines [of fmt idx docs job ParseNamed parse_time] by auto
  have f: "fetched ParseNamed idx1 = fetched ParseNamed idx"
    using 1(2) by (auto simp: fetched_same)
  have "bleve_ok fmt (idx_bleve idx1) docs" "keyed (contents docs idx1)"
    "run_safe ParseNamed idx1 (contents docs idx1) jobs"
    using Cons.prems 1 by (simp_all add: same_but_index_sel keyed_abs_job run_safe_same)
  then obtain idx2 s2 where "handle_jobs parse_time ParseNamed idx1 jobs = Ok (idx2, s2)"
    "contents docs idx2 = fold (abs_job (fetched ParseNamed idx1)) jobs (contents docs idx1)"
    "keyed (contents docs idx2)" "same_but_index idx1 idx2"
    using Cons.IH by blast
  with 1 f show ?case by (auto intro: same_but_index_trans)
qed

text \<open>
  C3: the notifications one worker handles take the index through exactly the abstract steps: a
  deletion removes all images with its digest, a push files the fetched image under its full
  name (and changes nothing when it cannot be fetched), any other action is ignored. Every
  document stays filed under its full name, and the configuration and the registry client are
  untouched.
\<close>

theorem handle_jobs_refines:
  assumes "bleve_ok fmt (idx_bleve idx) docs" and "keyed (contents docs idx)"
    and "run_safe ParseNamed idx (contents docs idx) jobs"
  shows "\<exists>idx' started. handle_jobs parse_time ParseNamed idx jobs = Ok (idx', started) \<and>
      contents docs idx' = fold (abs_job (fetched ParseNamed idx)) jobs (contents docs idx) \<and>
      keyed (contents docs idx') \<and> same_but_index idx idx'"
  using handle_jobs_contents [OF assms] .

theorem DeleteImage_removes_witness:
  "\<exists>idx'. DeleteImage sample_index ''d1'' = Ok idx' \<and> with_id (contents map_of idx') ''d1'' = {}"
  using DeleteImage_removes [OF sample_bleve_ok sample_keyed, of "''d1''"]
  by (elim exE conjE) (simp add: sample_with_id)

theorem handle_jobs_refines_witness:
  "\<exists>idx' started. handle_jobs (\<lambda>_. None) Ok sample_index
       [\<lparr>job_Action = DeleteAction, job_Repository = [], job_Tag = [], job_Digest = ''d1''\<rparr>] = Ok (idx', started) \<and>
     contents map_of idx' = Map.empty"
proof -
  let ?j = "\<lparr>job_Action = DeleteAction, job_Repository = [], job_Tag = [], job_Digest = ''d1''\<rparr>"
  have safe: "run_safe Ok sample_index (contents map_of sample_index) [?j]"
    by (simp add: sample_with_id fetch_safe_def)
  have empty: "[k \<mapsto> x] |` (- {k}) = Map.empty" for k :: string and x :: IndexImage
    by (simp add: restrict_map_def fun_eq_iff)
  have "abs_job f ?j (contents map_of sample_index) = Map.empty" for f
    by (simp add: abs_job_def sample_with_id del: fun_upd_apply)
      (simp only: sample_index_sel empty)
  then show ?thesis
    using handle_jobs_refines [OF sample_bleve_ok sample_keyed safe, of "\<lambda>_. None"]
    by (elim exE conjE) simp
qed

end
