(* ===== verification/Channels.thy ===== *)
theory Channels
  imports Prelude
begin

text \<open>
  Go's buffered channels, the contract the programs over them use, and what a sequence of
  channel operations transports. A send to a full channel and a receive from an empty open one
  block: their result is \<open>None\<close>, and a step relation has no step for them.
\<close>

record 'a chan =
  ch_buf :: "'a list"
  ch_cap :: nat
  ch_closed :: bool

definition make_chan :: "nat \<Rightarrow> 'a chan" where
  "make_chan n = \<lparr>ch_buf = [], ch_cap = n, ch_closed = False\<rparr>"

text \<open>Sending on a closed channel panics.\<close>

definition chan_send :: "'a \<Rightarrow> 'a chan \<Rightarrow> 'a chan option res" where
  "chan_send x c =
     (if ch_closed c then Panic
      else if length (ch_buf c) < ch_cap c then Ok (Some (c\<lparr>ch_buf := ch_buf c @ [x]\<rparr>))
      else Ok None)"

text \<open>A receive gives an element, or the end of a closed channel, or blocks.\<close>

datatype 'a received = Elem 'a | Closed

definition chan_recv :: "'a chan \<Rightarrow> ('a received \<times> 'a chan) option" where
  "chan_recv c =
     (case ch_buf c of
        x # xs \<Rightarrow> Some (Elem x, c\<lparr>ch_buf := xs\<rparr>)
      | [] \<Rightarrow> if ch_closed c then Some (Closed, c) else None)"

definition chan_close :: "'a chan \<Rightarrow> 'a chan res" where
  "chan_close c = (if ch_closed c then Panic else Ok (c\<lparr>ch_closed := True\<rparr>))"

section \<open>The contract\<close>

locale channel =
  fixes send :: "'a \<Rightarrow> 'c \<Rightarrow> 'c option res"
    and recv :: "'c \<Rightarrow> ('a received \<times> 'c) option"
    and close :: "'c \<Rightarrow> 'c res"
    and content :: "'c \<Rightarrow> 'a list"
    and closed :: "'c \<Rightarrow> bool"
    and cap :: "'c \<Rightarrow> nat"
  assumes send_some: "send x c = Ok (Some c') \<Longrightarrow>
      content c' = content c @ [x] \<and> closed c' = closed c \<and> cap c' = cap c \<and>
      length (content c) < cap c \<and> \<not> closed c"
    and send_free: "\<not> closed c \<Longrightarrow> length (content c) < cap c \<Longrightarrow> \<exists>c'. send x c = Ok (Some c')"
    and recv_elem: "recv c = Some (Elem x, c') \<Longrightarrow>
      content c = x # content c' \<and> closed c' = closed c \<and> cap c' = cap c"
    and recv_closed: "recv c = Some (Closed, c') \<Longrightarrow> content c = [] \<and> closed c \<and> c' = c"
    and recv_ready: "content c \<noteq> [] \<or> closed c \<Longrightarrow> recv c \<noteq> None"
    and close_open: "\<not> closed c \<Longrightarrow>
      \<exists>c'. close c = Ok c' \<and> closed c' \<and> content c' = content c \<and> cap c' = cap c"
begin

text \<open>A history of successful operations: what was sent, what was received.\<close>

inductive history :: "'c \<Rightarrow> 'a list \<Rightarrow> 'a list \<Rightarrow> 'c \<Rightarrow> bool" where
  start: "history c [] [] c"
| sent: "history c xs ys d \<Longrightarrow> send x d = Ok (Some e) \<Longrightarrow> history c (xs @ [x]) ys e"
| got: "history c xs ys d \<Longrightarrow> recv d = Some (Elem y, e) \<Longrightarrow> history c xs (ys @ [y]) e"
| shut: "history c xs ys d \<Longrightarrow> close d = Ok e \<Longrightarrow> \<not> closed d \<Longrightarrow> history c xs ys e"

text \<open>First in, first out, and never more than the capacity inside.\<close>

lemma history_fifo: "history c xs ys d \<Longrightarrow> content c @ xs = ys @ content d \<and> cap d = cap c"
proof (induction rule: history.induct)
  case (shut c xs ys d e)
  with close_open [of d] show ?case by auto
qed (auto dest: send_some recv_elem)

lemma history_bound:
  "history c xs ys d \<Longrightarrow> length (content c) \<le> cap c \<Longrightarrow> length (content d) \<le> cap c"
proof (induction rule: history.induct)
  case (sent c xs ys d x e)
  then show ?case using history_fifo [of c xs ys d] send_some [of x d e] by auto
next
  case (got c xs ys d y e)
  then show ?case using recv_elem [of d y e] by auto
next
  case (shut c xs ys d e)
  then show ?case using close_open [of d] by auto
qed simp

text \<open>A channel that is neither empty nor full blocks nobody.\<close>

lemma not_stuck: "\<not> closed c \<Longrightarrow> 0 < cap c \<Longrightarrow> (\<exists>d. send x c = Ok (Some d)) \<or> recv c \<noteq> None"
  using send_free [of c x] recv_ready [of c] by fastforce

end

interpretation gochan: channel chan_send chan_recv chan_close ch_buf ch_closed ch_cap
  by unfold_locales
    (auto simp: chan_send_def chan_recv_def chan_close_def split: if_splits list.splits)

lemma close_keeps: "chan_close c = Ok c' \<Longrightarrow> ch_buf c' = ch_buf c \<and> ch_closed c' \<and> \<not> ch_closed c \<and> ch_cap c' = ch_cap c"
  by (auto simp: chan_close_def split: if_splits)

end
