(* ===== verification/Notifications.thy ===== *)
theory Notifications
  imports Types Channels
begin

text \<open>
  The notification queue of the index: \<open>Submit\<close> sends a job to a channel of capacity 3 and
  three workers (\<open>loop\<close>) take jobs from it and handle them (\<open>handleNotifications\<close>). A step is
  one send, one receive or one job handled; any of the workers may move, so the steps are a
  relation. The effect of handling a job on the index is the parameter \<open>h\<close>.
\<close>

section \<open>The system\<close>

record 'x nsys =
  ns_todo :: "NotificationJob list"
  ns_chan :: "NotificationJob chan"
  ns_work :: "NotificationJob option list"
  ns_done :: "NotificationJob list"
  ns_index :: 'x

text \<open>\<open>New\<close> makes the channel and starts the workers, idle.\<close>

definition new_nsys :: "'x \<Rightarrow> 'x nsys" where
  "new_nsys x = \<lparr>ns_todo = [], ns_chan = make_chan 3, ns_work = replicate 3 None,
                 ns_done = [], ns_index = x\<rparr>"

text \<open>A caller of \<open>Submit\<close> has its job wait for the channel.\<close>

definition Submit :: "NotificationJob \<Rightarrow> 'x nsys \<Rightarrow> 'x nsys" where
  "Submit job s = s\<lparr>ns_todo := ns_todo s @ [job]\<rparr>"

inductive nstep :: "('x \<Rightarrow> NotificationJob \<Rightarrow> 'x) \<Rightarrow> 'x nsys \<Rightarrow> 'x nsys \<Rightarrow> bool" for h where
  send: "ns_todo s = j # js \<Longrightarrow> chan_send j (ns_chan s) = Ok (Some c) \<Longrightarrow>
     nstep h s (s\<lparr>ns_todo := js, ns_chan := c\<rparr>)"
| take: "i < length (ns_work s) \<Longrightarrow> ns_work s ! i = None \<Longrightarrow>
     chan_recv (ns_chan s) = Some (Elem j, c) \<Longrightarrow>
     nstep h s (s\<lparr>ns_chan := c, ns_work := (ns_work s)[i := Some j]\<rparr>)"
| handle: "i < length (ns_work s) \<Longrightarrow> ns_work s ! i = Some j \<Longrightarrow>
     nstep h s (s\<lparr>ns_work := (ns_work s)[i := None], ns_done := ns_done s @ [j],
                  ns_index := h (ns_index s) j\<rparr>)"

inductive_cases nstepE: "nstep h s t"

inductive nreach :: "('x \<Rightarrow> NotificationJob \<Rightarrow> 'x) \<Rightarrow> 'x nsys \<Rightarrow> 'x nsys \<Rightarrow> bool" for h s where
  stay: "nreach h s s"
| move: "nreach h s t \<Longrightarrow> nstep h t u \<Longrightarrow> nreach h s u"

section \<open>The contract of a sink of jobs\<close>

locale job_sink =
  fixes submit :: "NotificationJob \<Rightarrow> 's \<Rightarrow> 's"
    and jobs :: "'s \<Rightarrow> NotificationJob list"
  assumes jobs_submit: "jobs (submit j s) = jobs s @ [j]"
begin

lemma jobs_submits: "jobs (fold submit js s) = jobs s @ js"
  by (induction js arbitrary: s) (auto simp: jobs_submit)

text \<open>A loop that submits what \<open>f\<close> makes of each element, if anything.\<close>

lemma jobs_loop:
  "jobs (fold (\<lambda>e s. case f e of None \<Rightarrow> s | Some j \<Rightarrow> submit j s) es s) = jobs s @ List.map_filter f es"
  by (induction es arbitrary: s) (auto simp: jobs_submit map_filter_simps split: option.splits)

end

definition outstanding :: "'x nsys \<Rightarrow> NotificationJob list" where
  "outstanding s = ch_buf (ns_chan s) @ ns_todo s"

interpretation queue: job_sink Submit outstanding
  by unfold_locales (simp add: Submit_def outstanding_def)

section \<open>Every job is handled exactly once\<close>

fun somes :: "'a option list \<Rightarrow> 'a list" where
  "somes [] = []"
| "somes (None # ws) = somes ws"
| "somes (Some j # ws) = j # somes ws"

definition in_work :: "'x nsys \<Rightarrow> NotificationJob list" where
  "in_work s = somes (ns_work s)"

definition accounted :: "'x nsys \<Rightarrow> NotificationJob multiset" where
  "accounted s = mset (ns_todo s) + mset (ch_buf (ns_chan s)) + mset (in_work s) + mset (ns_done s)"

lemma mset_somes_update:
  "i < length ws \<Longrightarrow> mset (somes (ws[i := v])) + mset (somes [ws ! i]) = mset (somes ws) + mset (somes [v])"
proof (induction ws arbitrary: i)
  case (Cons w ws)
  then show ?case by (cases i; cases w; cases v) force+
qed simp

lemma in_work_update:
  "i < length (ns_work s) \<Longrightarrow> ns_work s ! i = None \<Longrightarrow>
     mset (somes ((ns_work s)[i := Some j])) = add_mset j (mset (in_work s))"
  "i < length (ns_work s) \<Longrightarrow> ns_work s ! i = Some j \<Longrightarrow>
     add_mset j (mset (somes ((ns_work s)[i := None]))) = mset (in_work s)"
  using mset_somes_update [of i "ns_work s"]
  by (auto simp: in_work_def)

lemma nstep_accounted: "nstep h s t \<Longrightarrow> accounted t = accounted s"
proof (induction rule: nstep.induct)
  case (send s j js c)
  then show ?case using gochan.send_some [of j "ns_chan s" c] by (simp add: accounted_def in_work_def)
next
  case (take i s j c)
  then show ?case using gochan.recv_elem [of "ns_chan s" j c] in_work_update(1) [of i s j]
    by (simp add: accounted_def in_work_def)
next
  case (handle i s j)
  then show ?case using in_work_update(2) [of i s j] by (simp add: accounted_def in_work_def)
qed

text \<open>The shape of a running system: an open channel of capacity 3, three workers.\<close>

definition running :: "'x nsys \<Rightarrow> bool" where
  "running s \<longleftrightarrow> ch_cap (ns_chan s) = 3 \<and> \<not> ch_closed (ns_chan s) \<and>
     length (ch_buf (ns_chan s)) \<le> 3 \<and> length (ns_work s) = 3"

lemma running_new: "running (new_nsys x)"
  by (simp add: running_def new_nsys_def make_chan_def)

lemma running_Submit: "running s \<Longrightarrow> running (Submit j s)"
  by (simp add: running_def Submit_def)

lemma nstep_running: "nstep h s t \<Longrightarrow> running s \<Longrightarrow> running t"
proof (induction rule: nstep.induct)
  case (send s j js c)
  then show ?case using gochan.send_some [of j "ns_chan s" c] by (simp add: running_def)
next
  case (take i s j c)
  then show ?case using gochan.recv_elem [of "ns_chan s" j c] by (simp add: running_def)
qed (simp add: running_def)

lemma nstep_index:
  "nstep h s t \<Longrightarrow> ns_index s = fold (\<lambda>j x. h x j) (ns_done s) x0 \<Longrightarrow>
   ns_index t = fold (\<lambda>j x. h x j) (ns_done t) x0"
  by (induction rule: nstep.induct) auto

text \<open>Every step brings the jobs closer to being handled.\<close>

definition work_left :: "'x nsys \<Rightarrow> nat" where
  "work_left s = 3 * length (ns_todo s) + 2 * length (ch_buf (ns_chan s)) + length (in_work s)"

lemma nstep_work_left: "nstep h s t \<Longrightarrow> work_left t < work_left s"
proof (induction rule: nstep.induct)
  case (send s j js c)
  then show ?case using gochan.send_some [of j "ns_chan s" c] by (simp add: work_left_def in_work_def)
next
  case (take i s j c)
  then have "length (somes ((ns_work s)[i := Some j])) = Suc (length (in_work s))"
    using in_work_update(1) [of i s j] by (metis size_add_mset size_mset)
  then show ?case using take gochan.recv_elem [of "ns_chan s" j c] by (simp add: work_left_def in_work_def)
next
  case (handle i s j)
  then have "Suc (length (somes ((ns_work s)[i := None]))) = length (in_work s)"
    using in_work_update(2) [of i s j] by (metis size_add_mset size_mset)
  then show ?case by (simp add: work_left_def in_work_def)
qed

interpretation nrun: runs "nstep h" "nreach h" work_left "\<lambda>_. True"
proof unfold_locales
  fix Q s t assume "nreach h s t" "Q s" "\<And>t u. Q t \<Longrightarrow> nstep h t u \<Longrightarrow> Q u"
  then show "Q t" by (induction rule: nreach.induct) auto
qed (auto intro: nreach.intros nstep_work_left)

lemma some_worker_busy: "in_work s \<noteq> [] \<Longrightarrow> \<exists>i < length (ns_work s). \<exists>j. ns_work s ! i = Some j"
proof -
  have "somes ws \<noteq> [] \<Longrightarrow> \<exists>i < length ws. \<exists>j. ws ! i = Some j" for ws :: "NotificationJob option list"
  proof (induction ws rule: somes.induct)
    case (2 ws)
    then obtain i where "i < length ws" "\<exists>j. ws ! i = Some j" by auto
    then show ?case by (intro exI [of _ "Suc i"]) simp
  qed (auto intro: exI [of _ 0])
  then show "in_work s \<noteq> [] \<Longrightarrow> \<exists>i < length (ns_work s). \<exists>j. ns_work s ! i = Some j"
    by (simp add: in_work_def)
qed

lemma nstep_progress:
  assumes "running s" "work_left s \<noteq> 0"
  shows "\<exists>t. nstep h s t"
proof (cases "in_work s = []")
  case False
  then show ?thesis using some_worker_busy [of s] nstep.handle [of _ s _ h] by blast
next
  case True
  then have idle: "ns_work s ! 0 = None" "0 < length (ns_work s)"
    using assms(1) by (cases "ns_work s" rule: somes.cases; auto simp: in_work_def running_def)+
  show ?thesis
  proof (cases "ch_buf (ns_chan s) = []")
    case False
    then obtain j c where "chan_recv (ns_chan s) = Some (Elem j, c)"
      by (cases "ch_buf (ns_chan s)") (auto simp: chan_recv_def)
    with idle show ?thesis using nstep.take [of 0 s j c h] by blast
  next
    case empty: True
    with True assms(2) obtain j js where todo: "ns_todo s = j # js"
      by (cases "ns_todo s") (auto simp: work_left_def)
    obtain c where "chan_send j (ns_chan s) = Ok (Some c)"
      using assms(1) empty gochan.send_free [of "ns_chan s" j] by (auto simp: running_def)
    with todo show ?thesis using nstep.send [of s j js c h] by blast
  qed
qed

lemma nreach_invariant:
  assumes "nreach h s t" "running s" "ns_index s = fold (\<lambda>j x. h x j) (ns_done s) x0"
  shows "running t \<and> accounted t = accounted s \<and> ns_index t = fold (\<lambda>j x. h x j) (ns_done t) x0"
  using assms
  by (induction rule: nreach.induct) (auto simp: nstep_running nstep_accounted nstep_index)

lemma work_left_0: "work_left s = 0 \<Longrightarrow> accounted s = mset (ns_done s)"
  by (simp add: work_left_def accounted_def)

lemma Submits_eq: "fold Submit js s = s\<lparr>ns_todo := ns_todo s @ js\<rparr>"
  by (induction js arbitrary: s) (auto simp: Submit_def)

lemma running_Submits: "running s \<Longrightarrow> running (fold Submit js s)"
  by (simp add: Submits_eq running_def)

lemma accounted_Submits: "accounted (fold Submit js s) = accounted s + mset js"
  by (simp add: Submits_eq accounted_def in_work_def)

lemma drained:
  assumes "nreach h s t" "running s" "\<nexists>u. nstep h t u"
  shows "mset (ns_done t) = accounted s"
proof -
  have t: "running t" "accounted t = accounted s"
    using assms(1,2) by (induction rule: nreach.induct) (auto simp: nstep_running nstep_accounted)
  then have "work_left t = 0" using assms(3) nstep_progress [of t h] by auto
  with t show ?thesis using work_left_0 [of t] by simp
qed

lemma accounted_new: "accounted (new_nsys x) = {#}"
  by (simp add: accounted_def new_nsys_def in_work_def make_chan_def numeral_3_eq_3)

text \<open>
  Whatever the workers' schedule, the queue drains. Started with no job and handed \<open>js\<close>,
  the system never deadlocks and never runs for ever, since each step lowers \<open>work_left\<close>; and a
  state without a next step has handled every submitted job exactly once, the index being the
  result of handling them in the order in which they were finished.
\<close>

theorem notifications_drain:
  assumes "nreach h (fold Submit js (new_nsys x)) s"
  shows "(\<forall>t. nstep h s t \<longrightarrow> work_left t < work_left s) \<and>
    ((\<nexists>t. nstep h s t) \<longrightarrow> mset (ns_done s) = mset js \<and> ns_index s = fold (\<lambda>j x. h x j) (ns_done s) x)"
proof (intro conjI impI allI)
  fix t assume "nstep h s t"
  then show "work_left t < work_left s" by (rule nstep_work_left)
next
  let ?s0 = "fold Submit js (new_nsys x)"
  have run: "running ?s0" by (intro running_Submits running_new)
  assume "\<nexists>t. nstep h s t"
  then show "mset (ns_done s) = mset js"
    using drained [OF assms run] by (simp add: accounted_Submits accounted_new)
  have "ns_index ?s0 = fold (\<lambda>j x. h x j) (ns_done ?s0) x" by (simp add: Submits_eq new_nsys_def)
  then show "ns_index s = fold (\<lambda>j x. h x j) (ns_done s) x"
    using nreach_invariant [OF assms run] by simp
qed

theorem notifications_drain_witness:
  "\<exists>s. nreach (\<lambda>x j. x @ [job_Digest j]) (fold Submit
        [\<lparr>job_Action = DeleteAction, job_Repository = [], job_Tag = [], job_Digest = ''d1''\<rparr>] (new_nsys [])) s \<and>
     ns_index s = [''d1'']"
proof -
  let ?h = "\<lambda>x j. x @ [job_Digest j]"
  let ?j = "\<lparr>job_Action = DeleteAction, job_Repository = [], job_Tag = [], job_Digest = ''d1''\<rparr>"
  let ?s0 = "fold Submit [?j] (new_nsys [])"
  note drain = notifications_drain [of ?h "[?j]" "[]"]
  obtain s where s: "nreach ?h ?s0 s" "\<nexists>t. nstep ?h s t" using nrun.ends [of ?h ?s0] by blast
  from drain [OF s(1)] s(2)
  have "mset (ns_done s) = {#?j#}" "ns_index s = fold (\<lambda>j x. ?h x j) (ns_done s) []" by auto
  then have "ns_index s = [''d1'']" by (auto simp: mset_single_iff)
  with s show ?thesis by blast
qed

end
