(* ===== verification/Build.thy ===== *)
theory Build
  imports Channels Types
begin

text \<open>
  \<open>Build\<close> (\<open>lib/index/index.go\<close>): the pipeline that fills the index from the registry. The
  repositories are met one after the other and get a goroutine each, which passes the images of
  the repository to a channel of capacity 10; once all repositories have been met, three parsers
  turn them into documents on a channel of capacity 5, from which one goroutine fills a batch that
  is committed at the end. A repository is the list of the images its own channel delivers before
  it is closed.
\<close>

section \<open>The system\<close>

datatype parser = PReady | PHolding IndexImage | PDone

datatype bphase = Spawning | Browsing | Parsing | Closed_tasks

text \<open>The phases are gone through in this order.\<close>

fun phase_no :: "bphase \<Rightarrow> nat" where
  "phase_no Spawning = 0"
| "phase_no Browsing = 1"
| "phase_no Parsing = 2"
| "phase_no Closed_tasks = 3"

instantiation bphase :: linorder
begin

definition less_eq_bphase :: "bphase \<Rightarrow> bphase \<Rightarrow> bool" where
  "less_eq_bphase p q \<longleftrightarrow> phase_no p \<le> phase_no q"

definition less_bphase :: "bphase \<Rightarrow> bphase \<Rightarrow> bool" where
  "less_bphase p q \<longleftrightarrow> phase_no p < phase_no q"

instance
proof
  show "p = q" if "p \<le> q" "q \<le> p" for p q :: bphase
    using that by (cases p; cases q) (simp_all add: less_eq_bphase_def)
qed (auto simp: less_eq_bphase_def less_bphase_def)

end

lemma phase_le [simp]: "Parsing \<le> p \<longleftrightarrow> p = Parsing \<or> p = Closed_tasks"
  by (cases p) (simp_all add: less_eq_bphase_def)

record ('i, 'x) bsys =
  b_repos :: "(string \<times> 'i list) list"
  b_browsers :: "(string \<times> 'i list) option list"
  b_browseWg :: int
  b_images :: "(string \<times> 'i) chan"
  b_parsers :: "parser list"
  b_parseWg :: int
  b_tasks :: "IndexImage chan"
  b_batch :: "IndexImage list"
  b_phase :: bphase
  b_done :: bool
  b_panicked :: bool
  b_index :: 'x

definition start_build :: "(string \<times> 'i list) list \<Rightarrow> 'x \<Rightarrow> ('i, 'x) bsys" where
  "start_build repos x =
     \<lparr>b_repos = repos, b_browsers = [], b_browseWg = 0, b_images = make_chan 10, b_parsers = [],
      b_parseWg = 0, b_tasks = make_chan 5, b_batch = [], b_phase = Spawning, b_done = False,
      b_panicked = False, b_index = x\<rparr>"

text \<open>
  \<open>parse\<close> is the function \<open>Parse\<close> of the index, which may panic and then takes the program down;
  \<open>commit\<close> applies a batch, in which each document is filed under its full name.
\<close>

inductive bstep ::
    "(string \<Rightarrow> 'i \<Rightarrow> IndexImage res) \<Rightarrow> ((string \<times> IndexImage) list \<Rightarrow> 'x \<Rightarrow> 'x) \<Rightarrow>
     ('i, 'x) bsys \<Rightarrow> ('i, 'x) bsys \<Rightarrow> bool" for parse commit where
  spawn: "\<not> b_panicked s \<Longrightarrow> b_phase s = Spawning \<Longrightarrow> b_repos s = r # rs \<Longrightarrow>
     bstep parse commit s (s\<lparr>b_repos := rs, b_browsers := b_browsers s @ [Some r],
                            b_browseWg := b_browseWg s + 1\<rparr>)"
| spawned: "\<not> b_panicked s \<Longrightarrow> b_phase s = Spawning \<Longrightarrow> b_repos s = [] \<Longrightarrow>
     bstep parse commit s (s\<lparr>b_phase := Browsing, b_parsers := replicate 3 PReady, b_parseWg := 3\<rparr>)"
| browse: "\<not> b_panicked s \<Longrightarrow> i < length (b_browsers s) \<Longrightarrow> b_browsers s ! i = Some (name, img # imgs) \<Longrightarrow>
     chan_send (name, img) (b_images s) = Ok (Some c) \<Longrightarrow>
     bstep parse commit s (s\<lparr>b_images := c, b_browsers := (b_browsers s)[i := Some (name, imgs)]\<rparr>)"
| browsed: "\<not> b_panicked s \<Longrightarrow> i < length (b_browsers s) \<Longrightarrow> b_browsers s ! i = Some (name, []) \<Longrightarrow>
     bstep parse commit s (s\<lparr>b_browsers := (b_browsers s)[i := None], b_browseWg := b_browseWg s - 1\<rparr>)"
| close_images: "\<not> b_panicked s \<Longrightarrow> b_phase s = Browsing \<Longrightarrow> b_browseWg s = 0 \<Longrightarrow>
     chan_close (b_images s) = Ok c \<Longrightarrow>
     bstep parse commit s (s\<lparr>b_images := c, b_phase := Parsing\<rparr>)"
| parse: "\<not> b_panicked s \<Longrightarrow> i < length (b_parsers s) \<Longrightarrow> b_parsers s ! i = PReady \<Longrightarrow>
     chan_recv (b_images s) = Some (Elem (name, img), c) \<Longrightarrow> parse name img = Ok doc \<Longrightarrow>
     bstep parse commit s (s\<lparr>b_images := c, b_parsers := (b_parsers s)[i := PHolding doc]\<rparr>)"
| parse_panic: "\<not> b_panicked s \<Longrightarrow> i < length (b_parsers s) \<Longrightarrow> b_parsers s ! i = PReady \<Longrightarrow>
     chan_recv (b_images s) = Some (Elem (name, img), c) \<Longrightarrow> \<not> is_ok (parse name img) \<Longrightarrow>
     bstep parse commit s (s\<lparr>b_images := c, b_panicked := True\<rparr>)"
| task: "\<not> b_panicked s \<Longrightarrow> i < length (b_parsers s) \<Longrightarrow> b_parsers s ! i = PHolding doc \<Longrightarrow>
     chan_send doc (b_tasks s) = Ok (Some c) \<Longrightarrow>
     bstep parse commit s (s\<lparr>b_tasks := c, b_parsers := (b_parsers s)[i := PReady]\<rparr>)"
| parser_done: "\<not> b_panicked s \<Longrightarrow> i < length (b_parsers s) \<Longrightarrow> b_parsers s ! i = PReady \<Longrightarrow>
     chan_recv (b_images s) = Some (Closed, c) \<Longrightarrow>
     bstep parse commit s (s\<lparr>b_parsers := (b_parsers s)[i := PDone], b_parseWg := b_parseWg s - 1\<rparr>)"
| close_tasks: "\<not> b_panicked s \<Longrightarrow> b_phase s = Parsing \<Longrightarrow> b_parseWg s = 0 \<Longrightarrow>
     chan_close (b_tasks s) = Ok c \<Longrightarrow>
     bstep parse commit s (s\<lparr>b_tasks := c, b_phase := Closed_tasks\<rparr>)"
| batch: "\<not> b_panicked s \<Longrightarrow> b_phase s \<noteq> Spawning \<Longrightarrow> chan_recv (b_tasks s) = Some (Elem doc, c) \<Longrightarrow>
     bstep parse commit s (s\<lparr>b_tasks := c, b_batch := b_batch s @ [doc]\<rparr>)"
| commit: "\<not> b_panicked s \<Longrightarrow> b_phase s \<noteq> Spawning \<Longrightarrow> \<not> b_done s \<Longrightarrow>
     chan_recv (b_tasks s) = Some (Closed, c) \<Longrightarrow>
     bstep parse commit s (s\<lparr>b_done := True,
        b_index := commit (map (\<lambda>doc. (im_FullName doc, doc)) (b_batch s)) (b_index s)\<rparr>)"

inductive breach ::
    "(string \<Rightarrow> 'i \<Rightarrow> IndexImage res) \<Rightarrow> ((string \<times> IndexImage) list \<Rightarrow> 'x \<Rightarrow> 'x) \<Rightarrow>
     ('i, 'x) bsys \<Rightarrow> ('i, 'x) bsys \<Rightarrow> bool" for parse commit s where
  stay: "breach parse commit s s"
| move: "breach parse commit s t \<Longrightarrow> bstep parse commit t u \<Longrightarrow> breach parse commit s u"

lemma bstep_phase: "bstep parse commit s t \<Longrightarrow> b_phase s \<le> b_phase t"
  by (induction rule: bstep.induct) (simp_all add: less_eq_bphase_def)

section \<open>The work that is left\<close>

fun images_of :: "(string \<times> 'i list) option \<Rightarrow> (string \<times> 'i) list" where
  "images_of None = []"
| "images_of (Some (name, imgs)) = map (Pair name) imgs"

fun browser_weight :: "(string \<times> 'i list) option \<Rightarrow> nat" where
  "browser_weight None = 0"
| "browser_weight (Some (name, imgs)) = Suc (6 * length imgs)"

fun parser_weight :: "parser \<Rightarrow> nat" where
  "parser_weight PReady = 1"
| "parser_weight (PHolding _) = 5"
| "parser_weight PDone = 0"

definition build_left :: "('i, 'x) bsys \<Rightarrow> nat" where
  "build_left s =
     sum_list (map (\<lambda>r. Suc (browser_weight (Some r))) (b_repos s)) + sum_list (map browser_weight (b_browsers s))
     + 5 * length (ch_buf (b_images s)) + sum_list (map parser_weight (b_parsers s))
     + 2 * length (ch_buf (b_tasks s))
     + (case b_phase s of Spawning \<Rightarrow> 6 | Browsing \<Rightarrow> 2 | Parsing \<Rightarrow> 1 | Closed_tasks \<Rightarrow> 0)
     + (if b_done s then 0 else 1)
     + (if b_phase s = Spawning then sum_list (map parser_weight [PReady, PReady, PReady]) else 0)"

lemma bstep_build_left:
  "bstep parse commit s t \<Longrightarrow> (b_phase s = Spawning \<longrightarrow> b_parsers s = []) \<Longrightarrow> build_left t < build_left s"
proof (induction rule: bstep.induct)
  case (browse s i name img imgs c)
  then show ?case
    using gochan.send_some [of "(name, img)" "b_images s" c]
      sum_list_map_update [of i "b_browsers s" browser_weight "Some (name, imgs)"]
    by (simp add: build_left_def)
next
  case (browsed s i name)
  then show ?case
    using sum_list_map_update [of i "b_browsers s" browser_weight None] by (simp add: build_left_def)
next
  case (close_images s c)
  then show ?case using close_keeps [of "b_images s" c] by (simp add: build_left_def)
next
  case (parse s i name img c doc)
  then show ?case
    using gochan.recv_elem [of "b_images s" "(name, img)" c]
      sum_list_map_update [of i "b_parsers s" parser_weight "PHolding doc"]
    by (simp add: build_left_def)
next
  case (parse_panic s i name img c)
  then show ?case
    using gochan.recv_elem [of "b_images s" "(name, img)" c] by (simp add: build_left_def)
next
  case (task s i doc c)
  then show ?case
    using gochan.send_some [of doc "b_tasks s" c] sum_list_map_update [of i "b_parsers s" parser_weight PReady]
    by (simp add: build_left_def)
next
  case (parser_done s i c)
  then show ?case
    using sum_list_map_update [of i "b_parsers s" parser_weight PDone] by (simp add: build_left_def)
next
  case (close_tasks s c)
  then show ?case using close_keeps [of "b_tasks s" c] by (simp add: build_left_def)
next
  case (batch s doc c)
  then show ?case using gochan.recv_elem [of "b_tasks s" doc c] by (simp add: build_left_def)
qed (simp_all add: build_left_def eval_nat_numeral)

section \<open>The flow of the images\<close>

definition unparsed :: "('i, 'x) bsys \<Rightarrow> (string \<times> 'i) multiset" where
  "unparsed s = sum_list (map (\<lambda>r. mset (images_of (Some r))) (b_repos s))
     + sum_list (map (\<lambda>b. mset (images_of b)) (b_browsers s)) + mset (ch_buf (b_images s))"

fun in_parser :: "parser \<Rightarrow> IndexImage multiset" where
  "in_parser (PHolding doc) = {#doc#}"
| "in_parser _ = {#}"

definition parsed :: "('i, 'x) bsys \<Rightarrow> IndexImage multiset" where
  "parsed s = sum_list (map in_parser (b_parsers s)) + mset (ch_buf (b_tasks s)) + mset (b_batch s)"

definition doc_of_image :: "(string \<Rightarrow> 'i \<Rightarrow> IndexImage res) \<Rightarrow> string \<times> 'i \<Rightarrow> IndexImage" where
  "doc_of_image parse ni = (case parse (fst ni) (snd ni) of Ok doc \<Rightarrow> doc | _ \<Rightarrow> zero_IndexImage)"

definition docs_due :: "(string \<Rightarrow> 'i \<Rightarrow> IndexImage res) \<Rightarrow> ('i, 'x) bsys \<Rightarrow> IndexImage multiset" where
  "docs_due parse s = image_mset (doc_of_image parse) (unparsed s) + parsed s"

lemma browse_split:
  "i < length bs \<Longrightarrow> bs ! i = Some (name, img # imgs) \<Longrightarrow>
   sum_list (map (\<lambda>b. mset (images_of b)) bs) =
     add_mset (name, img) (sum_list (map (\<lambda>b. mset (images_of b)) (bs[i := Some (name, imgs)])))"
  using sum_list_map_update [of i bs "\<lambda>b. mset (images_of b)" "Some (name, imgs)"] by simp

lemma bstep_docs_due:
  "bstep parse commit s t \<Longrightarrow> \<not> b_panicked t \<Longrightarrow> (b_phase s = Spawning \<longrightarrow> b_parsers s = []) \<Longrightarrow>
   docs_due parse t = docs_due parse s"
proof (induction rule: bstep.induct)
  case (browse s i name img imgs c)
  then show ?case
    using browse_split [of i "b_browsers s" name img imgs] gochan.send_some [of "(name, img)" "b_images s" c]
    by (simp add: docs_due_def unparsed_def parsed_def)
next
  case (browsed s i name)
  then show ?case
    using sum_list_map_update [of i "b_browsers s" "\<lambda>b. mset (images_of b)" None]
    by (simp add: docs_due_def unparsed_def parsed_def)
next
  case (close_images s c)
  then show ?case using close_keeps [of "b_images s" c] by (simp add: docs_due_def unparsed_def parsed_def)
next
  case (parse s i name img c doc)
  then show ?case
    using gochan.recv_elem [of "b_images s" "(name, img)" c]
      sum_list_map_update [of i "b_parsers s" in_parser "PHolding doc"]
    by (simp add: docs_due_def unparsed_def parsed_def doc_of_image_def)
next
  case (task s i doc c)
  then have "sum_list (map in_parser (b_parsers s)) = add_mset doc (sum_list (map in_parser ((b_parsers s)[i := PReady])))"
    using sum_list_map_update [of i "b_parsers s" in_parser PReady] by simp
  then show ?case
    using task gochan.send_some [of doc "b_tasks s" c] by (simp add: docs_due_def unparsed_def parsed_def)
next
  case (parser_done s i c)
  then show ?case
    using sum_list_map_update [of i "b_parsers s" in_parser PDone]
    by (simp add: docs_due_def unparsed_def parsed_def)
next
  case (close_tasks s c)
  then show ?case using close_keeps [of "b_tasks s" c] by (simp add: docs_due_def unparsed_def parsed_def)
next
  case (batch s doc c)
  then show ?case
    using gochan.recv_elem [of "b_tasks s" doc c] by (simp add: docs_due_def unparsed_def parsed_def)
qed (simp_all add: docs_due_def unparsed_def parsed_def eval_nat_numeral)

lemma bstep_unparsed: "bstep parse commit s t \<Longrightarrow> set_mset (unparsed t) \<subseteq> set_mset (unparsed s)"
proof (induction rule: bstep.induct)
  case (browse s i name img imgs c)
  then show ?case
    using browse_split [of i "b_browsers s" name img imgs] gochan.send_some [of "(name, img)" "b_images s" c] by (auto simp: unparsed_def)
next
  case (browsed s i name)
  then show ?case
    using sum_list_map_update [of i "b_browsers s" "\<lambda>b. mset (images_of b)" None] by (simp add: unparsed_def)
next
  case (close_images s c)
  then show ?case using close_keeps [of "b_images s" c] by (simp add: unparsed_def)
next
  case (parse s i name img c doc)
  then show ?case using gochan.recv_elem [of "b_images s" "(name, img)" c] by (auto simp: unparsed_def)
next
  case (parse_panic s i name img c)
  then show ?case using gochan.recv_elem [of "b_images s" "(name, img)" c] by (auto simp: unparsed_def)
qed (auto simp: unparsed_def)

section \<open>The control of the pipeline\<close>

definition browsing :: "(string \<times> 'i list) option \<Rightarrow> int" where
  "browsing b = (case b of None \<Rightarrow> 0 | Some _ \<Rightarrow> 1)"

fun parsing :: "parser \<Rightarrow> int" where
  "parsing PDone = 0"
| "parsing _ = 1"

lemma browsing_simps [simp]: "browsing None = 0" "browsing (Some r) = 1"
  by (simp_all add: browsing_def)

definition in_shape :: "('i, 'x) bsys \<Rightarrow> bool" where
  "in_shape s \<longleftrightarrow>
     ch_cap (b_images s) = 10 \<and> ch_cap (b_tasks s) = 5 \<and>
     b_browseWg s = sum_list (map browsing (b_browsers s)) \<and>
     b_parseWg s = sum_list (map parsing (b_parsers s)) \<and>
     (b_phase s = Spawning \<longleftrightarrow> b_parsers s = []) \<and> (b_phase s \<noteq> Spawning \<longrightarrow> b_repos s = []) \<and>
     (ch_closed (b_images s) \<longleftrightarrow> Parsing \<le> b_phase s) \<and>
     (ch_closed (b_tasks s) \<longleftrightarrow> b_phase s = Closed_tasks) \<and>
     (ch_closed (b_images s) \<longrightarrow> set (b_browsers s) \<subseteq> {None}) \<and>
     (PDone \<in> set (b_parsers s) \<longrightarrow> ch_closed (b_images s) \<and> ch_buf (b_images s) = []) \<and>
     (ch_closed (b_tasks s) \<longrightarrow> set (b_parsers s) \<subseteq> {PDone}) \<and>
     (b_done s \<longrightarrow> ch_closed (b_tasks s) \<and> ch_buf (b_tasks s) = [])"

text \<open>The index, when nobody else writes it.\<close>

definition shaped ::
    "((string \<times> IndexImage) list \<Rightarrow> 'x \<Rightarrow> 'x) \<Rightarrow> 'x \<Rightarrow> ('i, 'x) bsys \<Rightarrow> bool" where
  "shaped commit x s \<longleftrightarrow> in_shape s \<and>
     b_index s = (if b_done s then commit (map (\<lambda>doc. (im_FullName doc, doc)) (b_batch s)) x else x)"

lemma in_shape_start: "in_shape (start_build repos x)"
  by (simp add: in_shape_def start_build_def make_chan_def)

lemma shaped_start: "shaped commit x (start_build repos x)"
  by (simp add: shaped_def in_shape_start) (simp add: start_build_def)

lemma sum_browsing: "0 \<le> sum_list (map browsing bs)" "sum_list (map browsing bs) = 0 \<longleftrightarrow> set bs \<subseteq> {None}"
proof -
  show nonneg: "0 \<le> sum_list (map browsing bs)" for bs :: "(string \<times> 'a list) option list"
    by (induction bs) (auto simp: browsing_def split: option.splits)
  show "sum_list (map browsing bs) = 0 \<longleftrightarrow> set bs \<subseteq> {None}"
  proof (induction bs)
    case (Cons b bs)
    then show ?case using nonneg [of bs] by (cases b) auto
  qed simp
qed

lemma sum_parsing: "0 \<le> sum_list (map parsing ps)" "sum_list (map parsing ps) = 0 \<longleftrightarrow> set ps \<subseteq> {PDone}"
proof -
  show nonneg: "0 \<le> sum_list (map parsing ps)" for ps
  proof (induction ps)
    case (Cons p ps)
    then show ?case by (cases p) auto
  qed simp
  show "sum_list (map parsing ps) = 0 \<longleftrightarrow> set ps \<subseteq> {PDone}"
  proof (induction ps)
    case (Cons p ps)
    then show ?case using nonneg [of ps] by (cases p) auto
  qed simp
qed

lemma not_all_None: "i < length bs \<Longrightarrow> bs ! i = Some r \<Longrightarrow> \<not> set bs \<subseteq> {None}"
  using nth_mem [of i bs] by auto

lemma not_all_PDone: "i < length ps \<Longrightarrow> ps ! i \<noteq> PDone \<Longrightarrow> \<not> set ps \<subseteq> {PDone}"
  by (metis nth_mem singletonD subsetD)

lemma bstep_in_shape: "bstep parse commit s t \<Longrightarrow> in_shape s \<Longrightarrow> in_shape t"
proof (induction rule: bstep.induct)
  case (browse s i name img imgs c)
  then show ?case
    using gochan.send_some [of "(name, img)" "b_images s" c] not_all_None [of i "b_browsers s"]
      sum_list_map_update [of i "b_browsers s" browsing "Some (name, imgs)"]
    by (auto simp: in_shape_def)
next
  case (browsed s i name)
  then show ?case
    using sum_list_map_update [of i "b_browsers s" browsing None] not_all_None [of i "b_browsers s"]
    by (auto simp: in_shape_def)
next
  case (close_images s c)
  then show ?case using close_keeps [of "b_images s" c] sum_browsing(2) [of "b_browsers s"]
    by (auto simp: in_shape_def)
next
  case (parse s i name img c doc)
  then show ?case
    using gochan.recv_elem [of "b_images s" "(name, img)" c] not_all_PDone [of i "b_parsers s"]
      sum_list_map_update [of i "b_parsers s" parsing "PHolding doc"]
    by (auto simp: in_shape_def dest: set_update_other)
next
  case (parse_panic s i name img c)
  then show ?case
    using gochan.recv_elem [of "b_images s" "(name, img)" c] by (auto simp: in_shape_def)
next
  case (task s i doc c)
  then show ?case
    using gochan.send_some [of doc "b_tasks s" c] not_all_PDone [of i "b_parsers s"]
      sum_list_map_update [of i "b_parsers s" parsing PReady]
    by (auto simp: in_shape_def dest: set_update_other)
next
  case (parser_done s i c)
  then show ?case
    using sum_list_map_update [of i "b_parsers s" parsing PDone] not_all_PDone [of i "b_parsers s"]
      gochan.recv_closed [of "b_images s" c]
    by (auto simp: in_shape_def)
next
  case (close_tasks s c)
  then show ?case using close_keeps [of "b_tasks s" c] sum_parsing(2) [of "b_parsers s"]
    by (auto simp: in_shape_def)
next
  case (batch s doc c)
  then show ?case using gochan.recv_elem [of "b_tasks s" doc c] by (auto simp: in_shape_def)
next
  case (commit s c)
  then show ?case using gochan.recv_closed [of "b_tasks s" c] by (auto simp: in_shape_def)
qed (auto simp: in_shape_def eval_nat_numeral)

lemma bstep_index:
  "bstep parse commit s t \<Longrightarrow> b_done t = b_done s \<and> b_index t = b_index s \<and> (b_done s \<longrightarrow> in_shape s \<longrightarrow> b_batch t = b_batch s) \<or>
     \<not> b_done s \<and> b_done t \<and> b_batch t = b_batch s \<and>
     b_index t = commit (map (\<lambda>doc. (im_FullName doc, doc)) (b_batch s)) (b_index s)"
  by (induction rule: bstep.induct) (auto simp: in_shape_def chan_recv_def)

lemma bstep_shaped: "bstep parse commit s t \<Longrightarrow> shaped commit x s \<Longrightarrow> shaped commit x t"
  using bstep_index [of parse commit s t] bstep_in_shape [of parse commit s t] by (auto simp: shaped_def)

lemma bstep_progress:
  assumes shaped: "in_shape s" and ok: "\<not> b_panicked s"
    and more: "\<not> b_done s"
  shows "\<exists>t. bstep parse commit s t"
proof -
  note shaped = shaped [unfolded in_shape_def phase_le]
  have closed: "ch_closed (b_images s) \<longleftrightarrow> b_phase s = Parsing \<or> b_phase s = Closed_tasks"
    "ch_closed (b_tasks s) \<longleftrightarrow> b_phase s = Closed_tasks"
    using shaped by blast+
  show ?thesis
  proof (cases "b_phase s = Spawning")
    case True
    then show ?thesis
      using ok by (cases "b_repos s") (blast intro: bstep.spawn bstep.spawned)+
  next
    case started: False
    show ?thesis
    proof (cases "ch_buf (b_tasks s) \<noteq> [] \<or> ch_closed (b_tasks s)")
      case True
      then obtain r c where r: "chan_recv (b_tasks s) = Some (r, c)"
        using gochan.recv_ready [of "b_tasks s"] by auto
      then show ?thesis
        using ok more started by (cases r) (blast intro: bstep.batch bstep.commit)+
    next
      case no_task: False
      consider (holding) i doc where "i < length (b_parsers s)" "b_parsers s ! i = PHolding doc"
        | (ready) i where "i < length (b_parsers s)" "b_parsers s ! i = PReady"
        | (finished) "set (b_parsers s) \<subseteq> {PDone}"
        by (metis in_set_conv_nth insertCI parser.exhaust subsetI)
      then show ?thesis
      proof cases
        case holding
        obtain c where "chan_send doc (b_tasks s) = Ok (Some c)"
          using gochan.send_free [of "b_tasks s" doc] no_task shaped by auto
        with holding ok show ?thesis by (blast intro: bstep.task)
      next
        case ready
        show ?thesis
        proof (cases "ch_buf (b_images s) \<noteq> [] \<or> ch_closed (b_images s)")
          case True
          then obtain r c where r: "chan_recv (b_images s) = Some (r, c)"
            using gochan.recv_ready [of "b_images s"] by auto
          show ?thesis
          proof (cases r)
            case (Elem ni)
            obtain name img where "ni = (name, img)" by fastforce
            with Elem r ready ok show ?thesis
              by (cases "parse name img") (fastforce intro: bstep.parse bstep.parse_panic)+
          next
            case Closed
            with r ready ok show ?thesis by (blast intro: bstep.parser_done)
          qed
        next
          case no_image: False
          with closed started have phase: "b_phase s = Browsing" by (cases "b_phase s") auto
          show ?thesis
          proof (cases "set (b_browsers s) \<subseteq> {None}")
            case True
            then have "b_browseWg s = 0" using shaped sum_browsing(2) [of "b_browsers s"] by simp
            moreover obtain c where "chan_close (b_images s) = Ok c"
              using gochan.close_open [of "b_images s"] no_image by auto
            ultimately show ?thesis using phase ok by (blast intro: bstep.close_images)
          next
            case False
            then obtain i r where i: "i < length (b_browsers s)" "b_browsers s ! i = Some r"
              by (metis in_set_conv_nth insertCI not_None_eq subsetI)
            obtain name imgs where r: "r = (name, imgs)" by fastforce
            show ?thesis
            proof (cases imgs)
              case Nil
              with i r ok show ?thesis by (blast intro: bstep.browsed)
            next
              case (Cons img rest)
              obtain c where "chan_send (name, img) (b_images s) = Ok (Some c)"
                using gochan.send_free [of "b_images s" "(name, img)"] no_image shaped by auto
              with i r Cons ok show ?thesis by (blast intro: bstep.browse)
            qed
          qed
        qed
      next
        case finished
        then have wg: "b_parseWg s = 0" using shaped sum_parsing(2) [of "b_parsers s"] by simp
        have "PDone \<in> set (b_parsers s)"
          using finished shaped started by (metis insert_not_empty singletonD subset_singletonD set_empty singletonI)
        then have "b_phase s = Parsing" using shaped closed no_task by auto
        moreover obtain c where "chan_close (b_tasks s) = Ok c"
          using gochan.close_open [of "b_tasks s"] no_task by auto
        ultimately show ?thesis using wg ok by (blast intro: bstep.close_tasks)
      qed
    qed
  qed
qed

section \<open>The whole registry is indexed\<close>

definition repo_images :: "(string \<times> 'i list) list \<Rightarrow> (string \<times> 'i) list" where
  "repo_images repos = concat (map (\<lambda>r. images_of (Some r)) repos)"

lemma unparsed_start: "unparsed (start_build repos x) = mset (repo_images repos)"
  by (induction repos) (simp_all add: unparsed_def start_build_def repo_images_def make_chan_def)

lemma docs_due_start:
  "docs_due parse (start_build repos x) = image_mset (doc_of_image parse) (mset (repo_images repos))"
  by (simp add: docs_due_def unparsed_start) (simp add: parsed_def start_build_def make_chan_def)

lemma done_unparsed: "in_shape s \<Longrightarrow> b_done s \<Longrightarrow> unparsed s = {#} \<and> parsed s = mset (b_batch s)"
proof -
  assume s: "in_shape s" "b_done s"
  then have closed: "ch_closed (b_tasks s)" "ch_buf (b_tasks s) = []" "b_phase s = Closed_tasks"
    "set (b_parsers s) \<subseteq> {PDone}" "b_parsers s \<noteq> []" "ch_closed (b_images s)" "b_repos s = []"
    "set (b_browsers s) \<subseteq> {None}"
    by (auto simp: in_shape_def)
  then have "PDone \<in> set (b_parsers s)" by (cases "b_parsers s") auto
  with s have images: "ch_buf (b_images s) = []" by (auto simp: in_shape_def)
  have "sum_list (map (\<lambda>b. mset (images_of b)) bs) = {#}" if "set bs \<subseteq> {None}"
    for bs :: "(string \<times> 'c list) option list"
    using that by (induction bs) auto
  moreover have "sum_list (map in_parser ps) = {#}" if "set ps \<subseteq> {PDone}" for ps
    using that by (induction ps) auto
  ultimately show ?thesis using closed images by (simp add: unparsed_def parsed_def)
qed

definition all_parse :: "(string \<Rightarrow> 'i \<Rightarrow> IndexImage res) \<Rightarrow> (string \<times> 'i list) list \<Rightarrow> bool" where
  "all_parse parse repos \<longleftrightarrow> (\<forall>(name, img) \<in> set (repo_images repos). is_ok (parse name img))"

text \<open>What holds in every state of a build that does not panic, whoever else writes the index.\<close>

definition flowing :: "(string \<Rightarrow> 'i \<Rightarrow> IndexImage res) \<Rightarrow> (string \<times> 'i list) list \<Rightarrow> ('i, 'x) bsys \<Rightarrow> bool" where
  "flowing parse repos s \<longleftrightarrow> \<not> b_panicked s \<and> in_shape s \<and> set_mset (unparsed s) \<subseteq> set (repo_images repos) \<and>
     docs_due parse s = image_mset (doc_of_image parse) (mset (repo_images repos))"

lemma flowing_start: "flowing parse repos (start_build repos x)"
  by (simp add: flowing_def in_shape_start docs_due_start unparsed_start) (simp add: start_build_def)

lemma bstep_flowing:
  assumes "bstep parse commit s t" and "all_parse parse repos" and s: "flowing parse repos s"
  shows "flowing parse repos t"
proof -
  have "\<not> b_panicked t"
    using assms(1) s
  proof (cases rule: bstep.cases)
    case (parse_panic i name img c)
    then have "(name, img) \<in># unparsed s"
      using gochan.recv_elem [of "b_images s" "(name, img)" c] by (simp add: unparsed_def)
    with s assms(2) have "is_ok (parse name img)" by (auto simp: all_parse_def flowing_def)
    with parse_panic show ?thesis by simp
  qed (auto simp: flowing_def)
  moreover have "b_phase s = Spawning \<longrightarrow> b_parsers s = []" using s by (auto simp: flowing_def in_shape_def)
  ultimately show ?thesis
    using s bstep_in_shape [OF assms(1)] bstep_docs_due [OF assms(1)] bstep_unparsed [OF assms(1)]
    by (auto simp: flowing_def)
qed

lemma flowing_left: "bstep parse commit s t \<Longrightarrow> flowing parse repos s \<Longrightarrow> build_left t < build_left s"
  by (rule bstep_build_left) (auto simp: flowing_def in_shape_def)

lemma flowing_progress: "flowing parse repos s \<Longrightarrow> \<not> b_done s \<Longrightarrow> \<exists>t. bstep parse commit s t"
  by (rule bstep_progress) (simp_all add: flowing_def)

lemma flowing_done:
  "flowing parse repos s \<Longrightarrow> b_done s \<Longrightarrow> mset (b_batch s) = image_mset (doc_of_image parse) (mset (repo_images repos))"
  using done_unparsed [of s] by (simp add: flowing_def docs_due_def)

lemma breach_invariant:
  assumes "breach parse commit (start_build repos x) s" and "all_parse parse repos"
  shows "flowing parse repos s \<and> shaped commit x s"
  using assms(1)
  by (induction rule: breach.induct) (auto simp: shaped_start flowing_start intro: bstep_shaped bstep_flowing assms(2))

interpretation brun: runs "bstep parse commit" "breach parse commit" build_left "shaped commit x"
proof unfold_locales
  fix Q s t assume "breach parse commit s t" "Q s" "\<And>t u. Q t \<Longrightarrow> bstep parse commit t u \<Longrightarrow> Q u"
  then show "Q t" by (induction rule: breach.induct) auto
next
  fix s t assume s: "shaped commit x s" and st: "bstep parse commit s t"
  show "shaped commit x t" by (rule bstep_shaped [OF st s])
  from s have "b_phase s = Spawning \<longrightarrow> b_parsers s = []" by (simp add: shaped_def in_shape_def)
  with st show "build_left t < build_left s" by (rule bstep_build_left)
qed (fact breach.stay breach.move)+



end
