(* ===== verification/WalkImages.thy ===== *)
theory WalkImages
  imports Channels
begin

text \<open>
  \<open>WalkImages\<close> (\<open>lib/registry/repository.go\<close>): one goroutine feeds the tags of a repository to ten
  workers over a channel of capacity 10, each worker fetches the image of a tag and sends it to a
  channel of capacity 3, and the feeder closes that channel when all workers are done. The
  goroutines share the variable \<open>err\<close>: a worker assigns it when it fetches an image and tests it
  afterwards, and other workers may move in between. The consumer of the images is part of the
  system, and so is the order of the steps, which is arbitrary.
\<close>

section \<open>The system\<close>

text \<open>\<open>Gone\<close> is a worker that has returned without telling the wait group. An image is nil when
  its fetch failed.\<close>

datatype 'i worker = Ready | Fetched "'i option" | Sending "'i option" | Finished | Gone

datatype phase = Feeding | Waiting | Ended

record 'i wsys =
  ws_todo :: "string list"
  ws_tags :: "string chan"
  ws_phase :: phase
  ws_err :: bool
  ws_workers :: "'i worker list"
  ws_wg :: int
  ws_images :: "'i option chan"
  ws_out :: "'i option list"

text \<open>The goroutine after \<open>AllTags\<close>: an error ends it, which closes the images.\<close>

definition start_walk :: "string list res \<Rightarrow> 'i wsys" where
  "start_walk tags =
     (case tags of
        Ok ts \<Rightarrow> \<lparr>ws_todo = ts, ws_tags = make_chan 10, ws_phase = Feeding, ws_err = False,
                  ws_workers = replicate 10 Ready, ws_wg = 10, ws_images = make_chan 3, ws_out = []\<rparr>
      | _ \<Rightarrow> \<lparr>ws_todo = [], ws_tags = make_chan 10, ws_phase = Ended, ws_err = True,
              ws_workers = [], ws_wg = 0, ws_images = (make_chan 3)\<lparr>ch_closed := True\<rparr>, ws_out = []\<rparr>)"

text \<open>What \<open>Image\<close> leaves in the variables \<open>img\<close> and \<open>err\<close>.\<close>

definition img_of :: "'i res \<Rightarrow> 'i option" where
  "img_of r = (case r of Ok i \<Rightarrow> Some i | _ \<Rightarrow> None)"

inductive wstep :: "(string \<Rightarrow> 'i res) \<Rightarrow> 'i wsys \<Rightarrow> 'i wsys \<Rightarrow> bool" for fetch where
  feed: "ws_phase s = Feeding \<Longrightarrow> ws_todo s = t # ts \<Longrightarrow> chan_send t (ws_tags s) = Ok (Some c) \<Longrightarrow>
     wstep fetch s (s\<lparr>ws_todo := ts, ws_tags := c\<rparr>)"
| close_tags: "ws_phase s = Feeding \<Longrightarrow> ws_todo s = [] \<Longrightarrow> chan_close (ws_tags s) = Ok c \<Longrightarrow>
     wstep fetch s (s\<lparr>ws_tags := c, ws_phase := Waiting\<rparr>)"
| close_images: "ws_phase s = Waiting \<Longrightarrow> ws_wg s = 0 \<Longrightarrow> chan_close (ws_images s) = Ok c \<Longrightarrow>
     wstep fetch s (s\<lparr>ws_images := c, ws_phase := Ended\<rparr>)"
| fetch: "i < length (ws_workers s) \<Longrightarrow> ws_workers s ! i = Ready \<Longrightarrow>
     chan_recv (ws_tags s) = Some (Elem t, c) \<Longrightarrow>
     wstep fetch s (s\<lparr>ws_tags := c, ws_workers := (ws_workers s)[i := Fetched (img_of (fetch t))],
                     ws_err := \<not> is_ok (fetch t)\<rparr>)"
| check: "i < length (ws_workers s) \<Longrightarrow> ws_workers s ! i = Fetched img \<Longrightarrow>
     wstep fetch s (s\<lparr>ws_workers := (ws_workers s)[i := (if ws_err s then Gone else Sending img)]\<rparr>)"
| put: "i < length (ws_workers s) \<Longrightarrow> ws_workers s ! i = Sending img \<Longrightarrow>
     chan_send img (ws_images s) = Ok (Some c) \<Longrightarrow>
     wstep fetch s (s\<lparr>ws_images := c, ws_workers := (ws_workers s)[i := Ready]\<rparr>)"
| leave: "i < length (ws_workers s) \<Longrightarrow> ws_workers s ! i = Ready \<Longrightarrow>
     chan_recv (ws_tags s) = Some (Closed, c) \<Longrightarrow>
     wstep fetch s (s\<lparr>ws_tags := c, ws_workers := (ws_workers s)[i := Finished], ws_wg := ws_wg s - 1\<rparr>)"
| consume: "chan_recv (ws_images s) = Some (Elem img, c) \<Longrightarrow>
     wstep fetch s (s\<lparr>ws_images := c, ws_out := ws_out s @ [img]\<rparr>)"

inductive wreach :: "(string \<Rightarrow> 'i res) \<Rightarrow> 'i wsys \<Rightarrow> 'i wsys \<Rightarrow> bool" for fetch s where
  stay: "wreach fetch s s"
| move: "wreach fetch s t \<Longrightarrow> wstep fetch t u \<Longrightarrow> wreach fetch s u"

inductive_cases wstepE: "wstep fetch s t"

section \<open>Sums over the workers\<close>

fun active :: "'i worker \<Rightarrow> int" where
  "active Finished = 0"
| "active _ = 1"

fun held :: "'i worker \<Rightarrow> 'i option multiset" where
  "held (Fetched x) = {#x#}"
| "held (Sending x) = {#x#}"
| "held _ = {#}"

fun weight :: "'i worker \<Rightarrow> nat" where
  "weight Ready = 1"
| "weight (Fetched _) = 6"
| "weight (Sending _) = 5"
| "weight Finished = 0"
| "weight Gone = 0"

text \<open>Every step uses up some of the work that is left.\<close>

definition walk_left :: "'i wsys \<Rightarrow> nat" where
  "walk_left s = 7 * length (ws_todo s) + 6 * length (ch_buf (ws_tags s)) + sum_list (map weight (ws_workers s))
     + 3 * length (ch_buf (ws_images s)) + (case ws_phase s of Feeding \<Rightarrow> 2 | Waiting \<Rightarrow> 1 | Ended \<Rightarrow> 0)"

lemma wstep_walk_left: "wstep fetch s t \<Longrightarrow> walk_left t < walk_left s"
proof (induction rule: wstep.induct)
  case (feed s t ts c)
  then show ?case using gochan.send_some [of t "ws_tags s" c] by (simp add: walk_left_def)
next
  case (close_tags s c)
  then show ?case using close_keeps [of "ws_tags s" c] by (simp add: walk_left_def)
next
  case (close_images s c)
  then show ?case using close_keeps [of "ws_images s" c] by (simp add: walk_left_def)
next
  case (fetch i s t c)
  then show ?case
    using gochan.recv_elem [of "ws_tags s" t c] sum_list_map_update [of i "ws_workers s" weight "Fetched (img_of (fetch t))"]
    by (simp add: walk_left_def)
next
  case (check i s img)
  then show ?case
    using sum_list_map_update [of i "ws_workers s" weight "if ws_err s then Gone else Sending img"]
    by (simp add: walk_left_def split: if_splits)
next
  case (put i s img c)
  then show ?case
    using gochan.send_some [of img "ws_images s" c] sum_list_map_update [of i "ws_workers s" weight Ready]
    by (simp add: walk_left_def)
next
  case (leave i s c)
  then show ?case
    using gochan.recv_closed [of "ws_tags s" c] sum_list_map_update [of i "ws_workers s" weight Finished]
    by (simp add: walk_left_def)
next
  case (consume s img c)
  then show ?case using gochan.recv_elem [of "ws_images s" img c] by (simp add: walk_left_def)
qed

section \<open>The wait group\<close>

text \<open>In every reachable state the wait group counts the workers that have not told it they are
  done, the images are closed exactly at the end, and the end is reached by all workers.\<close>

definition counted :: "'i wsys \<Rightarrow> bool" where
  "counted s \<longleftrightarrow>
     ws_wg s = sum_list (map active (ws_workers s)) \<and>
     (ch_closed (ws_images s) \<longleftrightarrow> ws_phase s = Ended) \<and>
     (ws_phase s = Ended \<longrightarrow> ws_wg s = 0)"

lemma sum_active: "0 \<le> sum_list (map active ws)"
proof (induction ws)
  case (Cons w ws)
  then show ?case by (cases w) auto
qed simp

lemma sum_active_0: "sum_list (map active ws) = 0 \<longleftrightarrow> (\<forall>w \<in> set ws. w = Finished)"
proof (induction ws)
  case (Cons w ws)
  then show ?case using sum_active [of ws] by (cases w) auto
qed simp

lemma counted_start: "counted (start_walk tags)"
  by (auto simp: counted_def start_walk_def make_chan_def sum_list_replicate split: res.splits)

lemma wstep_counted: "wstep fetch s t \<Longrightarrow> counted s \<Longrightarrow> counted t"
proof (induction rule: wstep.induct)
  case (close_images s c)
  then show ?case using close_keeps [of "ws_images s" c] by (simp add: counted_def)
next
  case (fetch i s t c)
  then show ?case
    using sum_list_map_update [of i "ws_workers s" active "Fetched (img_of (fetch t))"]
    by (auto simp: counted_def)
next
  case (check i s img)
  then show ?case
    using sum_list_map_update [of i "ws_workers s" active "if ws_err s then Gone else Sending img"]
    by (simp add: counted_def split: if_splits)
next
  case (put i s img c)
  then show ?case
    using gochan.send_some [of img "ws_images s" c] sum_list_map_update [of i "ws_workers s" active Ready]
    by (simp add: counted_def)
next
  case (leave i s c)
  then have "0 < sum_list (map active (ws_workers s))"
    using sum_active [of "ws_workers s"] sum_active_0 [of "ws_workers s"] nth_mem [of i "ws_workers s"]
    by (metis order_le_less worker.distinct(5))
  with leave show ?case
    using sum_list_map_update [of i "ws_workers s" active Finished]
    by (auto simp: counted_def)
next
  case (consume s img c)
  then show ?case using gochan.recv_elem [of "ws_images s" img c] by (auto simp: counted_def)
qed (simp_all add: counted_def)

lemma wreach_counted: "wreach fetch s t \<Longrightarrow> counted s \<Longrightarrow> counted t"
  by (induction rule: wreach.induct) (auto intro: wstep_counted)

section \<open>A failing fetch\<close>

lemma wstep_gone: "wstep fetch s t \<Longrightarrow> Gone \<in> set (ws_workers s) \<Longrightarrow> Gone \<in> set (ws_workers t)"
  by (induction rule: wstep.induct) (simp_all add: set_update_keeps)

lemma wreach_gone: "wreach fetch s t \<Longrightarrow> Gone \<in> set (ws_workers s) \<Longrightarrow> Gone \<in> set (ws_workers t)"
  by (induction rule: wreach.induct) (auto intro: wstep_gone)

text \<open>
  C39: once a worker has left because of an error, the channel of images is never closed again,
  whatever happens afterwards: the worker did not tell the wait group. Whoever ranges over the
  images of the repository waits for ever.
\<close>

theorem WalkImages_never_closed:
  assumes "wreach fetch (start_walk tags) s" and "Gone \<in> set (ws_workers s)" and "wreach fetch s t"
  shows "\<not> ch_closed (ws_images t)"
proof
  assume "ch_closed (ws_images t)"
  moreover have "counted t"
    using wreach_counted [OF assms(3) wreach_counted [OF assms(1) counted_start]] .
  ultimately have "sum_list (map active (ws_workers t)) = 0" by (auto simp: counted_def)
  then have "\<forall>w \<in> set (ws_workers t). w = Finished" by (simp add: sum_active_0)
  with wreach_gone [OF assms(3,2)] show False by auto
qed

section \<open>When every fetch succeeds\<close>

definition good :: "(string \<Rightarrow> 'i res) \<Rightarrow> string list \<Rightarrow> 'i wsys \<Rightarrow> bool" where
  "good fetch tags s \<longleftrightarrow>
     \<not> ws_err s \<and> Gone \<notin> set (ws_workers s) \<and> ws_workers s \<noteq> [] \<and>
     ch_cap (ws_tags s) = 10 \<and> ch_cap (ws_images s) = 3 \<and>
     (ch_closed (ws_tags s) \<longleftrightarrow> ws_phase s \<noteq> Feeding) \<and>
     (ws_phase s \<noteq> Feeding \<longrightarrow> ws_todo s = []) \<and>
     (Finished \<in> set (ws_workers s) \<longrightarrow> ch_closed (ws_tags s) \<and> ch_buf (ws_tags s) = []) \<and>
     set (ws_todo s) \<union> set (ch_buf (ws_tags s)) \<subseteq> set tags \<and>
     image_mset (img_of \<circ> fetch) (mset (ws_todo s) + mset (ch_buf (ws_tags s))) +
       sum_list (map held (ws_workers s)) + mset (ch_buf (ws_images s)) + mset (ws_out s) =
     image_mset (img_of \<circ> fetch) (mset tags)"

lemma good_start: "good fetch tags (start_walk (Ok tags))"
  by (simp add: good_def start_walk_def make_chan_def eval_nat_numeral)

lemma wstep_good:
  assumes "\<forall>t \<in> set tags. is_ok (fetch t)"
  shows "wstep fetch s s' \<Longrightarrow> good fetch tags s \<Longrightarrow> good fetch tags s'"
proof (induction rule: wstep.induct)
  case (feed s t ts c)
  then show ?case using gochan.send_some [of t "ws_tags s" c] by (auto simp: good_def)
next
  case (close_tags s c)
  then show ?case using close_keeps [of "ws_tags s" c] by (auto simp: good_def)
next
  case (close_images s c)
  then show ?case using close_keeps [of "ws_images s" c] by (auto simp: good_def)
next
  case (fetch i s t c)
  then show ?case
    using gochan.recv_elem [of "ws_tags s" t c] assms
      sum_list_map_update [of i "ws_workers s" held "Fetched (img_of (fetch t))"]
    by (auto simp: good_def dest: set_update_other)
next
  case (check i s img)
  then show ?case
    using sum_list_map_update [of i "ws_workers s" held "Sending img"]
    by (auto simp: good_def dest: set_update_other)
next
  case (put i s img c)
  then have "sum_list (map held (ws_workers s)) = add_mset img (sum_list (map held ((ws_workers s)[i := Ready])))"
    using sum_list_map_update [of i "ws_workers s" held Ready] by simp
  then show ?case
    using put gochan.send_some [of img "ws_images s" c]
    by (auto simp: good_def ac_simps dest: set_update_other)
next
  case (leave i s c)
  then show ?case
    using gochan.recv_closed [of "ws_tags s" c] sum_list_map_update [of i "ws_workers s" held Finished]
    by (auto simp: good_def dest: set_update_other)
next
  case (consume s img c)
  then show ?case using gochan.recv_elem [of "ws_images s" img c] by (auto simp: good_def)
qed

lemma wstep_progress:
  assumes good: "good fetch tags s" and counted: "counted s"
    and more: "ws_phase s \<noteq> Ended \<or> ch_buf (ws_images s) \<noteq> []"
  shows "\<exists>t. wstep fetch s t"
proof (cases "ch_buf (ws_images s) = []")
  case False
  then obtain img c where "chan_recv (ws_images s) = Some (Elem img, c)"
    by (cases "ch_buf (ws_images s)") (auto simp: chan_recv_def)
  then show ?thesis by (blast intro: wstep.consume)
next
  case True
  with more have running: "ws_phase s \<noteq> Ended" by simp
  note good = good [unfolded good_def] and counted = counted [unfolded counted_def]
  consider (fetched) i img where "i < length (ws_workers s)" "ws_workers s ! i = Fetched img"
    | (sending) i img where "i < length (ws_workers s)" "ws_workers s ! i = Sending img"
    | (ready) i where "i < length (ws_workers s)" "ws_workers s ! i = Ready"
    | (finished) "\<forall>w \<in> set (ws_workers s). w = Finished"
    using good by (metis in_set_conv_nth worker.exhaust)
  then show ?thesis
  proof cases
    case fetched
    then show ?thesis by (blast intro: wstep.check)
  next
    case sending
    obtain c where "chan_send img (ws_images s) = Ok (Some c)"
      using gochan.send_free [of "ws_images s" img] True good counted running by auto
    with sending show ?thesis by (blast intro: wstep.put)
  next
    case ready
    show ?thesis
    proof (cases "ch_buf (ws_tags s) \<noteq> [] \<or> ch_closed (ws_tags s)")
      case True
      then obtain r c where r: "chan_recv (ws_tags s) = Some (r, c)"
        using gochan.recv_ready [of "ws_tags s"] by auto
      show ?thesis
      proof (cases r)
        case (Elem t)
        with r ready show ?thesis by (blast intro: wstep.fetch)
      next
        case Closed
        with r ready show ?thesis by (blast intro: wstep.leave)
      qed
    next
      case idle: False
      then have feeding: "ws_phase s = Feeding" using good by auto
      show ?thesis
      proof (cases "ws_todo s")
        case Nil
        obtain c where "chan_close (ws_tags s) = Ok c" using gochan.close_open [of "ws_tags s"] idle by auto
        with Nil feeding show ?thesis by (blast intro: wstep.close_tags)
      next
        case (Cons t ts)
        obtain c where "chan_send t (ws_tags s) = Ok (Some c)"
          using gochan.send_free [of "ws_tags s" t] idle good by auto
        with Cons feeding show ?thesis by (blast intro: wstep.feed)
      qed
    qed
  next
    case finished
    then have "ws_wg s = 0" using counted sum_active_0 [of "ws_workers s"] by simp
    moreover have "ws_phase s = Waiting"
      using finished good running by (metis last_in_set phase.exhaust)
    moreover obtain c where "chan_close (ws_images s) = Ok c"
      using gochan.close_open [of "ws_images s"] counted running by auto
    ultimately show ?thesis by (blast intro: wstep.close_images)
  qed
qed

lemma all_finished_held: "\<forall>w \<in> set ws. w = Finished \<Longrightarrow> sum_list (map held ws) = {#}"
  by (induction ws) auto

interpretation wrun: runs "wstep fetch" "wreach fetch" walk_left "\<lambda>_. True"
proof unfold_locales
  fix Q s t assume "wreach fetch s t" "Q s" "\<And>t u. Q t \<Longrightarrow> wstep fetch t u \<Longrightarrow> Q u"
  then show "Q t" by (induction rule: wreach.induct) auto
qed (auto intro: wreach.intros wstep_walk_left)

lemma walk_rest:
  assumes "\<forall>t \<in> set tags. is_ok (fetch t)" and "wreach fetch (start_walk (Ok tags)) s" and "\<nexists>t. wstep fetch s t"
  shows "ch_closed (ws_images s) \<and> mset (ws_out s) = image_mset (img_of \<circ> fetch) (mset tags)"
proof
  have good: "good fetch tags s"
    using assms(2) by (induction rule: wreach.induct) (auto intro: good_start wstep_good [OF assms(1)])
  have counted: "counted s" using wreach_counted [OF assms(2) counted_start] .
  from assms(3) have final: "ws_phase s = Ended" "ch_buf (ws_images s) = []"
    using wstep_progress [OF good counted] by blast+
  then show "ch_closed (ws_images s)" using counted by (simp add: counted_def)
  have "\<forall>w \<in> set (ws_workers s). w = Finished"
    using counted final by (simp add: counted_def flip: sum_active_0)
  moreover from this good final have "ch_buf (ws_tags s) = []" "ws_todo s = []"
    by (metis good_def last_in_set phase.distinct(3))+
  ultimately show "mset (ws_out s) = image_mset (img_of \<circ> fetch) (mset tags)"
    using good final by (simp add: good_def all_finished_held)
qed

text \<open>
  C13: when every tag can be fetched, the walk ends whatever the schedule (each step lowers
  \<open>walk_left\<close>), and when nothing can move any more the consumer has received the image of every
  tag exactly once and the channel of images is closed.
\<close>

theorem WalkImages_complete:
  assumes "\<forall>t \<in> set tags. is_ok (fetch t)" and "wreach fetch (start_walk (Ok tags)) s"
  shows "(\<forall>t. wstep fetch s t \<longrightarrow> walk_left t < walk_left s) \<and>
    ((\<nexists>t. wstep fetch s t) \<longrightarrow> ch_closed (ws_images s) \<and>
       mset (ws_out s) = image_mset (img_of \<circ> fetch) (mset tags))"
  using wstep_walk_left walk_rest [OF assms] by blast

theorem WalkImages_complete_witness:
  "\<exists>s. wreach (\<lambda>t. Ok t) (start_walk (Ok [''5.6'', ''5.7''])) s \<and>
     ch_closed (ws_images s) \<and> mset (ws_out s) = {#Some ''5.6'', Some ''5.7''#}"
proof -
  let ?s0 = "start_walk (Ok [''5.6'', ''5.7''])"
  have "\<forall>t \<in> set [''5.6'', ''5.7'']. is_ok (Ok t)" by simp
  note complete = WalkImages_complete [OF this]
  obtain s where "wreach Ok ?s0 s" "\<nexists>t. wstep Ok s t" using wrun.ends [of Ok ?s0] by blast
  with complete [of s] show ?thesis by (auto simp: img_of_def)
qed

section \<open>The shared error variable\<close>

definition bad_fetch :: "string \<Rightarrow> nat res" where
  "bad_fetch t = (if t = ''bad'' then Err ''blob unknown'' else Ok 7)"

text \<open>A state of a walk whose feeder is still active.\<close>

definition mid_walk ::
    "string list \<Rightarrow> string list \<Rightarrow> bool \<Rightarrow> nat worker list \<Rightarrow> nat option list \<Rightarrow> nat option list \<Rightarrow> nat wsys" where
  "mid_walk todo tags err ws imgs out =
     \<lparr>ws_todo = todo, ws_tags = (make_chan 10)\<lparr>ch_buf := tags\<rparr>, ws_phase = Feeding, ws_err = err,
      ws_workers = ws @ replicate (10 - length ws) Ready, ws_wg = 10,
      ws_images = (make_chan 3)\<lparr>ch_buf := imgs\<rparr>, ws_out = out\<rparr>"

lemma mid_start: "start_walk (Ok ts) = mid_walk ts [] False [] [] []"
  by (simp add: start_walk_def mid_walk_def make_chan_def)

lemma mid_feed: "wstep f (mid_walk (t # ts) [] e ws im out) (mid_walk ts [t] e ws im out)"
  using wstep.feed [of "mid_walk (t # ts) [] e ws im out" t ts "(make_chan 10)\<lparr>ch_buf := [t]\<rparr>" f]
  by (simp add: mid_walk_def chan_send_def make_chan_def)

lemma mid_fetch:
  assumes "length ws < 10"
  shows "wstep f (mid_walk ts [t] e ws im out) (mid_walk ts [] (\<not> is_ok (f t)) (ws @ [Fetched (img_of (f t))]) im out)"
proof -
  have "ws @ replicate (10 - length ws) Ready = ws @ Ready # replicate (10 - length (ws @ [Ready])) Ready"
    using assms by (simp flip: replicate_Suc add: Suc_diff_Suc)
  then show ?thesis
    using wstep.fetch [of "length ws" "mid_walk ts [t] e ws im out" t "make_chan 10" f] assms
    by (simp add: mid_walk_def chan_recv_def make_chan_def list_update_append nth_append)
qed

lemma mid_check:
  "wstep f (mid_walk ts tags e (Fetched img # ws) im out)
     (mid_walk ts tags e ((if e then Gone else Sending img) # ws) im out)"
  using wstep.check [of 0 "mid_walk ts tags e (Fetched img # ws) im out" img f]
  by (simp add: mid_walk_def)

lemma mid_put: "wstep f (mid_walk ts tags e (Sending img # ws) [] out) (mid_walk ts tags e (Ready # ws) [img] out)"
  using wstep.put [of 0 "mid_walk ts tags e (Sending img # ws) [] out" img "(make_chan 3)\<lparr>ch_buf := [img]\<rparr>" f]
  by (simp add: mid_walk_def chan_send_def make_chan_def)

lemma mid_consume: "wstep f (mid_walk ts tags e ws [img] out) (mid_walk ts tags e ws [] (out @ [img]))"
  using wstep.consume [of "mid_walk ts tags e ws [img] out" img "make_chan 3" f]
  by (simp add: mid_walk_def chan_recv_def make_chan_def)

lemma wreach_two: "wreach f s t \<Longrightarrow> wstep f t u \<Longrightarrow> wstep f u v \<Longrightarrow> wreach f s v"
  by (blast intro: wreach.move)

lemma mid_feed_fetch:
  "wreach f s (mid_walk (t # ts) [] e ws im out) \<Longrightarrow> length ws < 10 \<Longrightarrow>
   wreach f s (mid_walk ts [] (\<not> is_ok (f t)) (ws @ [Fetched (img_of (f t))]) im out)"
  by (rule wreach_two [OF _ mid_feed mid_fetch])

lemma bad_fetch_simps: "bad_fetch ''bad'' = Err ''blob unknown''" "bad_fetch ''good'' = Ok 7"
  by (simp_all add: bad_fetch_def)

lemma lone_failure: "wreach bad_fetch (start_walk (Ok [''bad''])) (mid_walk [] [] True [Gone] [] [])"
proof -
  have "wreach bad_fetch (start_walk (Ok [''bad''])) (mid_walk [''bad''] [] False [] [] [])"
    unfolding mid_start by (rule wreach.stay)
  from mid_feed_fetch [OF this]
  have "wreach bad_fetch (start_walk (Ok [''bad''])) (mid_walk [] [] True [Fetched None] [] [])"
    by (simp add: bad_fetch_simps img_of_def)
  from wreach.move [OF this mid_check] show ?thesis by simp
qed

theorem WalkImages_never_closed_witness:
  "\<exists>s. wreach bad_fetch (start_walk (Ok [''bad''])) s \<and> (\<forall>t. wreach bad_fetch s t \<longrightarrow> \<not> ch_closed (ws_images t))"
  using WalkImages_never_closed [OF lone_failure] lone_failure
  by (auto simp: mid_walk_def)

text \<open>
  The race on the shared variable is real. When the fetch of one tag fails and that of
  another succeeds between the assignment and the test of \<open>err\<close>, the nil image of the failed
  fetch is sent to the consumer as if it had been fetched.
\<close>

theorem WalkImages_nil_image:
  "\<exists>s. wreach bad_fetch (start_walk (Ok [''bad'', ''good''])) s \<and> None \<in> set (ws_out s)"
proof -
  let ?s = "start_walk (Ok [''bad'', ''good''])"
  have "wreach bad_fetch ?s (mid_walk [''bad'', ''good''] [] False [] [] [])"
    unfolding mid_start by (rule wreach.stay)
  from mid_feed_fetch [OF this]
  have "wreach bad_fetch ?s (mid_walk [''good''] [] True [Fetched None] [] [])"
    by (simp add: bad_fetch_simps img_of_def)
  from mid_feed_fetch [OF this]
  have "wreach bad_fetch ?s (mid_walk [] [] False [Fetched None, Fetched (Some 7)] [] [])"
    by (simp add: bad_fetch_simps img_of_def)
  from wreach.move [OF this mid_check]
  have "wreach bad_fetch ?s (mid_walk [] [] False [Sending None, Fetched (Some 7)] [] [])" by simp
  from wreach_two [OF this mid_put mid_consume]
  have "wreach bad_fetch ?s (mid_walk [] [] False [Ready, Fetched (Some 7)] [] [None])" by simp
  then show ?thesis by (auto simp: mid_walk_def)
qed

end
