(* ===== verification/Access.thy ===== *)
theory Access
  imports GoMap Sha256
begin

text \<open>
  Access control of the server (\<open>server/config.go\<close>, \<open>server/middleware.go\<close>): which rule
  applies to a request, whether it grants access, and the filter put before every handler.

  The regular-expression engine is a parameter: \<open>compile\<close> gives the matching predicate of a
  pattern (whether it matches somewhere in a text) or the text of an error. A request carries
  the outcome of reading its basic-authentication header.
\<close>

section \<open>Requests and responses\<close>

record Request =
  req_Method :: string
  req_Path :: string
  req_Auth :: "(string \<times> string) option"
  req_Body :: string
  req_Form :: "(string, string list) gomap"
  req_FormErr :: "string option"

text \<open>
  A response as it goes out: the status is that of the first \<open>WriteHeader\<close>, a header set
  afterwards is not sent, and the body grows with every write (the first write of a body sends
  the status 200 when there is none).
\<close>

record Response =
  rw_Status :: "int option"
  rw_Header :: strmap
  rw_Body :: string

definition new_Response :: Response where
  "new_Response = \<lparr>rw_Status = None, rw_Header = [], rw_Body = []\<rparr>"

definition Header_Set :: "string \<Rightarrow> string \<Rightarrow> Response \<Rightarrow> Response" where
  "Header_Set k v w = (if rw_Status w = None then w\<lparr>rw_Header := mput k v (rw_Header w)\<rparr> else w)"

definition WriteHeader :: "int \<Rightarrow> Response \<Rightarrow> Response" where
  "WriteHeader code w = (if rw_Status w = None then w\<lparr>rw_Status := Some code\<rparr> else w)"

definition Write :: "string \<Rightarrow> Response \<Rightarrow> Response" where
  "Write b w = (let w' = WriteHeader 200 w in w'\<lparr>rw_Body := rw_Body w' @ b\<rparr>)"

definition newline :: string where "newline = [char_of (10::nat)]"

definition http_Error :: "Response \<Rightarrow> string \<Rightarrow> int \<Rightarrow> Response" where
  "http_Error w msg code =
     Write (msg @ newline)
       (WriteHeader code
         (Header_Set ''X-Content-Type-Options'' ''nosniff''
           (Header_Set ''Content-Type'' ''text/plain; charset=utf-8'' w)))"

section \<open>Rules\<close>

record Credentials =
  cr_Username :: string
  cr_Password :: string

text \<open>A nil list of users makes a rule public; an empty one denies everybody.\<close>

record Authorization =
  au_Path :: string
  au_Method :: string
  au_Users :: "Credentials list option"
  au_regexp :: "(string \<Rightarrow> bool) option"

record ServerConfig =
  sc_Port :: string
  sc_Authorizations :: "Authorization list"

definition CompilePath ::
    "(string \<Rightarrow> (string \<Rightarrow> bool) res) \<Rightarrow> Authorization \<Rightarrow> Authorization \<times> unit res" where
  "CompilePath compile auth =
     (let path = (if \<not> HasSuffix (au_Path auth) ''$'' then au_Path auth @ ''.*'' else au_Path auth)
      in (case compile path of
            Ok r \<Rightarrow> (auth\<lparr>au_regexp := Some r\<rparr>, Ok ())
          | Err e \<Rightarrow> (auth\<lparr>au_regexp := None\<rparr>, Err (''Failed to parse path '' @ au_Path auth @ '' : '' @ e))
          | Panic \<Rightarrow> (auth, Panic)))"

text \<open>A rule whose path was not compiled has a nil expression.\<close>

definition Applies :: "Authorization \<Rightarrow> Request \<Rightarrow> bool res" where
  "Applies auth req =
     (let path = (if req_Path req = [] then ''/'' else req_Path req)
      in (case au_regexp auth of
            None \<Rightarrow> Panic
          | Some r \<Rightarrow> Ok (r path \<and> (au_Method auth = [] \<or> au_Method auth = req_Method req))))"

fun GetAuthorization :: "Request \<Rightarrow> Authorization list \<Rightarrow> Authorization option res" where
  "GetAuthorization req [] = Ok None"
| "GetAuthorization req (auth # auths) =
     res_bind (Applies auth req) (\<lambda>b. if b then Ok (Some auth) else GetAuthorization req auths)"

fun grant_loop :: "Request \<Rightarrow> string \<Rightarrow> Credentials list \<Rightarrow> unit res" where
  "grant_loop req path [] = Err (''You are not allowed to access URLs matching '' @ path)"
| "grant_loop req path (user # users) =
     (case req_Auth req of
        Some (u, p) \<Rightarrow>
          if u = cr_Username user \<and> Sha256 p = cr_Password user then Ok () else grant_loop req path users
      | None \<Rightarrow> grant_loop req path users)"

definition grantAccess :: "Request \<Rightarrow> Authorization \<Rightarrow> unit res" where
  "grantAccess req auth =
     (case au_Users auth of Some users \<Rightarrow> grant_loop req (au_Path auth) users | None \<Rightarrow> Ok ())"

definition authenticateHeaderName :: string where
  "authenticateHeaderName = ''WWW-Authenticate''"

definition authenticateHeaderValue :: string where
  "authenticateHeaderValue = ''Basic realm='' @ [CHR 0x22] @ ''Registry Authentication'' @ [CHR 0x22]"

text \<open>A handler turns the state of the server and the response so far into new ones.\<close>

type_synonym 's handler = "Request \<Rightarrow> 's \<times> Response \<Rightarrow> ('s \<times> Response) res"

definition securityFilter :: "ServerConfig \<Rightarrow> 's handler \<Rightarrow> 's handler" where
  "securityFilter cfg hf r sw =
     res_bind (GetAuthorization r (sc_Authorizations cfg)) (\<lambda>auth.
       (case auth of
          Some a \<Rightarrow>
            (case grantAccess r a of
               Err e \<Rightarrow> Ok (fst sw, http_Error
                          (Header_Set authenticateHeaderName authenticateHeaderValue (snd sw)) e 401)
             | Panic \<Rightarrow> Panic
             | Ok _ \<Rightarrow> hf r sw)
        | None \<Rightarrow> hf r sw))"

section \<open>The policy a configuration states\<close>

definition compiled :: "Authorization list \<Rightarrow> bool" where
  "compiled auths \<longleftrightarrow> (\<forall>a \<in> set auths. au_regexp a \<noteq> None)"

definition rule_applies :: "Request \<Rightarrow> Authorization \<Rightarrow> bool" where
  "rule_applies req a \<longleftrightarrow> Applies a req = Ok True"

definition knows :: "Credentials list \<Rightarrow> (string \<times> string) option \<Rightarrow> bool" where
  "knows users auth \<longleftrightarrow>
     (\<exists>u p. auth = Some (u, p) \<and> \<lparr>cr_Username = u, cr_Password = Sha256 p\<rparr> \<in> set users)"

text \<open>The first rule that applies decides; without one the request is let through.\<close>

definition allowed :: "Authorization list \<Rightarrow> Request \<Rightarrow> bool" where
  "allowed auths req \<longleftrightarrow>
     (case List.find (rule_applies req) auths of
        None \<Rightarrow> True
      | Some a \<Rightarrow> (case au_Users a of None \<Rightarrow> True | Some users \<Rightarrow> knows users (req_Auth req)))"

lemma Applies_compiled: "au_regexp a \<noteq> None \<Longrightarrow> Applies a req = Ok (rule_applies req a)"
  by (auto simp: rule_applies_def Applies_def Let_def)

lemma GetAuthorization_find:
  "compiled auths \<Longrightarrow> GetAuthorization req auths = Ok (List.find (rule_applies req) auths)"
  by (induction auths) (auto simp: compiled_def Applies_compiled)

lemma grant_loop_eq:
  "grant_loop req path users =
     (if knows users (req_Auth req) then Ok ()
      else Err (''You are not allowed to access URLs matching '' @ path))"
proof (induction users)
  case Nil
  then show ?case by (simp add: knows_def)
next
  case (Cons user users)
  have "knows (user # users) (Some (u, p)) \<longleftrightarrow>
      u = cr_Username user \<and> Sha256 p = cr_Password user \<or> knows users (Some (u, p))" for u p
    by (cases user) (auto simp: knows_def)
  with Cons show ?case by (auto simp: knows_def split: option.splits)
qed

lemma grantAccess_iff:
  "grantAccess req a = Ok () \<longleftrightarrow>
     (case au_Users a of None \<Rightarrow> True | Some users \<Rightarrow> knows users (req_Auth req))"
  by (auto simp: grantAccess_def grant_loop_eq split: option.splits)

lemma http_Error_fresh:
  "rw_Status w = None \<Longrightarrow> rw_Status (http_Error w m c) = Some c \<and> rw_Body (http_Error w m c) = rw_Body w @ m @ newline"
  by (simp add: http_Error_def Write_def WriteHeader_def Header_Set_def Let_def)

lemma http_Error_keeps_header:
  "k \<noteq> ''Content-Type'' \<Longrightarrow> k \<noteq> ''X-Content-Type-Options'' \<Longrightarrow>
   map_of (rw_Header (http_Error w m c)) k = map_of (rw_Header w) k"
  by (auto simp: http_Error_def Write_def WriteHeader_def Header_Set_def Let_def go_map_simps)

text \<open>What a rejected client receives.\<close>

definition rejected :: "Response \<Rightarrow> bool" where
  "rejected w \<longleftrightarrow> rw_Status w = Some 401 \<and>
     map_of (rw_Header w) authenticateHeaderName = Some authenticateHeaderValue"

text \<open>
  With compiled rules the filter is exact. A request the policy allows is served by the
  handler as if there were no filter; any other request leaves the state of the server alone,
  whatever the handler would have done, and is answered with 401 and the challenge header.
\<close>

theorem securityFilter_exact:
  assumes "compiled (sc_Authorizations cfg)"
  shows "(allowed (sc_Authorizations cfg) r \<longrightarrow> securityFilter cfg hf r (s, w) = hf r (s, w)) \<and>
    (\<not> allowed (sc_Authorizations cfg) r \<and> rw_Status w = None \<longrightarrow>
       (\<exists>w'. securityFilter cfg hf r (s, w) = Ok (s, w') \<and> rejected w'))"
proof -
  let ?a = "List.find (rule_applies r) (sc_Authorizations cfg)"
  have get: "GetAuthorization r (sc_Authorizations cfg) = Ok ?a"
    using assms by (rule GetAuthorization_find)
  show ?thesis
  proof (intro conjI impI)
    assume "allowed (sc_Authorizations cfg) r"
    then show "securityFilter cfg hf r (s, w) = hf r (s, w)"
      by (auto simp: securityFilter_def get allowed_def grantAccess_def grant_loop_eq split: option.splits)
  next
    assume "\<not> allowed (sc_Authorizations cfg) r \<and> rw_Status w = None"
    then obtain a users where "?a = Some a" "au_Users a = Some users" "\<not> knows users (req_Auth r)"
      and w: "rw_Status w = None"
      by (auto simp: allowed_def split: option.splits)
    then have "securityFilter cfg hf r (s, w) = Ok (s, http_Error
        (Header_Set authenticateHeaderName authenticateHeaderValue w)
        (''You are not allowed to access URLs matching '' @ au_Path a) 401)"
      by (simp add: securityFilter_def get grantAccess_def grant_loop_eq)
    moreover have "rejected (http_Error (Header_Set authenticateHeaderName authenticateHeaderValue w) m 401)" for m
      using w by (simp add: rejected_def http_Error_fresh http_Error_keeps_header Header_Set_def
          authenticateHeaderName_def go_map_simps)
    ultimately show "\<exists>w'. securityFilter cfg hf r (s, w) = Ok (s, w') \<and> rejected w'" by blast
  qed
qed

section \<open>The order and the shape of rules\<close>

lemma find_append:
  "List.find P (xs @ ys) = (case List.find P xs of None \<Rightarrow> List.find P ys | Some x \<Rightarrow> Some x)"
  by (induction xs) auto

text \<open>
  Rules are tried in the order of the configuration. The first rule that applies to a
  request decides alone: the decision depends on its users only, and neither on the rules before
  it, which do not apply, nor on those after it, whatever they are.
\<close>

theorem allowed_first_rule:
  assumes "\<forall>a \<in> set before. \<not> rule_applies req a" and "rule_applies req a"
  shows "allowed (before @ a # after) req =
       (case au_Users a of None \<Rightarrow> True | Some users \<Rightarrow> knows users (req_Auth req))"
  using assms by (auto simp: allowed_def find_append find_None_iff [THEN iffD2])

text \<open>A rule whose path is a plain text without end marker, under an engine that finds a plain
  text anywhere: it applies to every path that contains the text.\<close>

lemma plain_rule_applies:
  assumes "CompilePath compile a = (a', Ok ())" and "\<not> HasSuffix (au_Path a) ''$''"
    and "compile (au_Path a @ ''.*'') = Ok (\<lambda>s. \<exists>pre post. s = pre @ au_Path a @ post)"
  shows "rule_applies req a' \<longleftrightarrow>
    (\<exists>pre post. (if req_Path req = [] then ''/'' else req_Path req) = pre @ au_Path a @ post) \<and>
    (au_Method a = [] \<or> au_Method a = req_Method req)"
proof -
  have "a' = a\<lparr>au_regexp := Some (\<lambda>s. \<exists>pre post. s = pre @ au_Path a @ post)\<rparr>"
    using assms by (simp add: CompilePath_def)
  then show ?thesis by (simp add: rule_applies_def Applies_def Let_def)
qed

definition sample_rule :: Authorization where
  "sample_rule = \<lparr>au_Path = ''/v2/'', au_Method = ''PUT'', au_Users = Some [], au_regexp = Some (\<lambda>p. HasPrefix p ''/v2/'')\<rparr>"

definition sample_put :: Request where
  "sample_put = \<lparr>req_Method = ''PUT'', req_Path = ''/v2/mysql'', req_Auth = None, req_Body = [], req_Form = [], req_FormErr = None\<rparr>"

lemma sample_rule_applies: "rule_applies sample_put sample_rule"
  by (simp add: rule_applies_def Applies_def sample_rule_def sample_put_def HasPrefix_def)

theorem securityFilter_exact_witness:
  "\<exists>w'. securityFilter \<lparr>sc_Port = [], sc_Authorizations = [sample_rule]\<rparr> (\<lambda>r sw. Panic) sample_put
      ((), new_Response) = Ok ((), w') \<and> rejected w'"
  using securityFilter_exact [of "\<lparr>sc_Port = [], sc_Authorizations = [sample_rule]\<rparr>" sample_put "\<lambda>r sw. Panic"
      "()" new_Response] sample_rule_applies
  by (simp add: compiled_def allowed_def knows_def new_Response_def) (simp add: sample_rule_def knows_def)

theorem allowed_first_rule_witness:
  "\<not> allowed ([] @ sample_rule # [sample_rule\<lparr>au_Users := None\<rparr>]) sample_put"
  using allowed_first_rule [of "[]" sample_put sample_rule "[sample_rule\<lparr>au_Users := None\<rparr>]"] sample_rule_applies
  by (simp add: sample_rule_def knows_def)

end
