(* ===== verification/Handlers.thy ===== *)
theory Handlers
  imports Access Wire Notifications
begin

text \<open>
  The HTTP handlers of the server (\<open>server/server.go\<close>) and the values of its context
  (\<open>lib/environment/environment.go\<close>). The state \<open>'s\<close> behind a handler is that of the index and
  its queue; the operations of the index interface the handlers call are their parameters.
\<close>

section \<open>The context\<close>

datatype ctxval = CString string | CTime gotime

type_synonym ctx = "(string \<times> ctxval) list"

definition VersionKey :: string where "VersionKey = ''dimVersion''"

definition StartTimeKey :: string where "StartTimeKey = ''startTime''"

text \<open>\<open>context.WithValue\<close> puts a pair in front of its parent; the newest pair of a key is found.\<close>

definition environment_Set :: "ctx \<Rightarrow> string \<Rightarrow> ctxval \<Rightarrow> ctx" where
  "environment_Set c key v = (key, v) # c"

definition environment_Get :: "ctx \<Rightarrow> string \<Rightarrow> ctxval option" where
  "environment_Get c key = map_of c key"

section \<open>Durations as text\<close>

text \<open>\<open>Duration.String\<close>: the largest unit below a second, or hours, minutes and seconds.\<close>

definition frac_digits :: "nat \<Rightarrow> nat \<Rightarrow> string" where
  "frac_digits prec u =
     (let ds = map (\<lambda>i. digit_char (u div 10 ^ i mod 10)) (rev [0..<prec]);
          kept = rev (dropWhile (\<lambda>c. c = CHR ''0'') (rev ds))
      in if kept = [] then [] else CHR ''.'' # kept)"

definition unit_text :: "nat \<Rightarrow> nat \<Rightarrow> string" where
  "unit_text prec u = nat_digits (u div 10 ^ prec) @ frac_digits prec u"

definition Duration_String :: "int \<Rightarrow> string" where
  "Duration_String d =
     (let u = nat (abs d);
          secs = u div 10 ^ 9;
          body =
            (if u = 0 then ''0s''
             else if u < 10 ^ 3 then nat_digits u @ ''ns''
             else if u < 10 ^ 6 then unit_text 3 u @ [CHR 0xC2, CHR 0xB5, CHR ''s'']
             else if u < 10 ^ 9 then unit_text 6 u @ ''ms''
             else (if secs \<ge> 3600 then nat_digits (secs div 3600) @ ''h'' else [])
                @ (if secs \<ge> 60 then nat_digits (secs div 60 mod 60) @ ''m'' else [])
                @ nat_digits (secs mod 60) @ frac_digits 9 u @ ''s'')
      in if d < 0 then CHR ''-'' # body else body)"

section \<open>Version\<close>

definition Version :: "(jval \<Rightarrow> string res) \<Rightarrow> ctx \<Rightarrow> gotime \<Rightarrow> 's handler" where
  "Version json_print c now r sw =
     (case environment_Get c VersionKey of
        Some (CTime _) \<Rightarrow> Panic
      | v \<Rightarrow>
        (case environment_Get c StartTimeKey of
           Some (CString _) \<Rightarrow> Panic
         | start \<Rightarrow>
           (let info = \<lparr>info_Version = (case v of Some (CString s) \<Rightarrow> s | _ \<Rightarrow> []),
                        info_Uptime = (case start of
                            Some (CTime t) \<Rightarrow> Duration_String (clamp_int (now - t)) | _ \<Rightarrow> [])\<rparr>
            in (case json_print (enc_Info info) of
                  Err e \<Rightarrow> Ok (fst sw, http_Error (snd sw) ''Failed to serialize the response'' 500)
                | Panic \<Rightarrow> Panic
                | Ok b \<Rightarrow> Ok (fst sw, Write b (snd sw))))))"

section \<open>Notifications of the registry\<close>

text \<open>The fields of an event of \<open>docker/distribution/notifications\<close> that dim reads.\<close>

record Event =
  ev_Action :: string
  ev_MediaType :: string
  ev_Repository :: string
  ev_Tag :: string
  ev_Digest :: string

definition EventActionPush :: string where "EventActionPush = ''push''"

definition EventActionDelete :: string where "EventActionDelete = ''delete''"

definition MediaTypeManifest :: string where
  "MediaTypeManifest = ''application/vnd.docker.distribution.manifest.v2+json''"

definition event_job :: "Event \<Rightarrow> NotificationJob option" where
  "event_job event =
     (if ev_Action event = EventActionDelete then
        Some \<lparr>job_Action = DeleteAction, job_Repository = [], job_Tag = [], job_Digest = ev_Digest event\<rparr>
      else if ev_Action event = EventActionPush then
        (if ev_MediaType event = MediaTypeManifest then
           Some \<lparr>job_Action = PushAction, job_Repository = ev_Repository event,
                 job_Tag = ev_Tag event, job_Digest = ev_Digest event\<rparr>
         else None)
      else None)"

definition event_loop :: "(NotificationJob \<Rightarrow> 's \<Rightarrow> 's) \<Rightarrow> Event list \<Rightarrow> 's \<Rightarrow> 's" where
  "event_loop submit events s =
     fold (\<lambda>event s. case event_job event of None \<Rightarrow> s | Some job \<Rightarrow> submit job s) events s"

text \<open>\<open>decode\<close> reads the events of an envelope from the text of the body. The answer is written
  before the first job is submitted.\<close>

definition NotifyImageChange ::
    "(string \<Rightarrow> Event list res) \<Rightarrow> (NotificationJob \<Rightarrow> 's \<Rightarrow> 's) \<Rightarrow> 's handler" where
  "NotifyImageChange decode submit r sw =
     (case decode (req_Body r) of
        Err e \<Rightarrow> Ok (fst sw, Write (e @ newline) (WriteHeader 400 (snd sw)))
      | Panic \<Rightarrow> Panic
      | Ok events \<Rightarrow>
          (let w = Write (''Notiifcation handled !'' @ newline) (WriteHeader 200 (snd sw))
           in Ok (event_loop submit events (fst sw), w)))"

section \<open>Search\<close>

text \<open>\<open>Form.Get\<close>, \<open>FormValue\<close> and the indexing of a parsed form.\<close>

definition form_values :: "(string, string list) gomap \<Rightarrow> string \<Rightarrow> string list" where
  "form_values f k = (case map_of f k of None \<Rightarrow> [] | Some vs \<Rightarrow> vs)"

definition form_get :: "(string, string list) gomap \<Rightarrow> string \<Rightarrow> string" where
  "form_get f k = (case form_values f k of [] \<Rightarrow> [] | v # _ \<Rightarrow> v)"

definition imageToSearchResult :: "IndexImage \<Rightarrow> SearchResult" where
  "imageToSearchResult i =
     \<lparr>sr_StarCount = 0, sr_IsOfficial = False, sr_Name = im_Name i, sr_IsAutomated = False,
      sr_Description = im_Tag i, sr_Tag = im_Tag i, sr_FullName = im_FullName i,
      sr_Created = im_Created i, sr_Label = im_Label i, sr_Volumes = im_Volumes i,
      sr_ExposedPorts = im_ExposedPorts i, sr_Env = im_Env i, sr_Size = im_Size i\<rparr>"

definition buildSearchResults :: "IndexResults \<Rightarrow> SearchResult list" where
  "buildSearchResults sr = map imageToSearchResult (ir_Images sr)"

text \<open>The conversion \<open>int(sr.Total)\<close> of an unsigned 64-bit number.\<close>

definition int_of_uint64 :: "nat \<Rightarrow> int" where
  "int_of_uint64 n = signed_take_bit 63 (int n)"

type_synonym 's search_op = "'s \<Rightarrow> string \<Rightarrow> string \<Rightarrow> string list \<Rightarrow> int \<Rightarrow> int \<Rightarrow> IndexResults res"

text \<open>The handler goes on after a form it could not parse, with what was parsed.\<close>

definition Search ::
    "(gotime \<Rightarrow> string res) \<Rightarrow> (jval \<Rightarrow> string res) \<Rightarrow> 's search_op \<Rightarrow> 's handler" where
  "Search time_text json_print search r sw =
     (let (s, w0) = sw;
          w = (if req_FormErr r \<noteq> None then http_Error w0 ''Failed to parse query'' 400 else w0);
          q = form_get (req_Form r) ''q'';
          a = form_get (req_Form r) ''a'';
          flds = form_values (req_Form r) ''f'';
          offset = Atoi (form_get (req_Form r) ''offset'');
          maxResults = Atoi (form_get (req_Form r) ''maxResults'');
          maxResults = (if maxResults = 0 then 10 else maxResults)
      in if q = [] \<and> a = [] then Ok (s, http_Error w ''No search criteria provided'' 400)
         else
           (case search s q a flds offset maxResults of
              Err e \<Rightarrow> Ok (s, http_Error w ''An error occured while procesing your request'' 500)
            | Panic \<Rightarrow> Panic
            | Ok sr \<Rightarrow>
                (let results = \<lparr>srs_Query = q, srs_NumResults = int_of_uint64 (ir_Total sr),
                                srs_Results = buildSearchResults sr\<rparr>
                 in (case res_bind (enc_SearchResults time_text results) json_print of
                       Err e \<Rightarrow> Ok (s, http_Error w ''Failed to serialize the response'' 500)
                     | Panic \<Rightarrow> Panic
                     | Ok b \<Rightarrow> Ok (s, Write b w)))))"

section \<open>Routing\<close>

text \<open>\<open>cleanPath\<close> of \<open>net/http\<close>: empty and single-dot segments go, a double dot takes the
  segment before it, a final slash stays.\<close>

fun clean_segments :: "string list \<Rightarrow> string list \<Rightarrow> string list" where
  "clean_segments acc [] = rev acc"
| "clean_segments acc (seg # segs) =
     (if seg = [] \<or> seg = ''.'' then clean_segments acc segs
      else if seg = ''..'' then clean_segments (tl acc) segs
      else clean_segments (seg # acc) segs)"

definition cleanPath :: "string \<Rightarrow> string" where
  "cleanPath p =
     (let p' = (if HasPrefix p ''/'' then p else ''/'' @ p);
          np = ''/'' @ Join (clean_segments [] (Split p' (CHR ''/''))) ''/''
      in if p = [] then ''/'' else if HasSuffix p' ''/'' \<and> np \<noteq> ''/'' then np @ ''/'' else np)"

text \<open>The server's multiplexer: the request for \<open>*\<close> is refused, a path that is not clean is
  redirected (the HTML of the answer is left out), the three paths of dim have their handlers,
  and all others below the root go to the registry.\<close>

definition redirect :: "string \<Rightarrow> 's handler" where
  "redirect url r sw = Ok (fst sw, WriteHeader 301 (Header_Set ''Location'' url (snd sw)))"

definition NewServer ::
    "ServerConfig \<Rightarrow> 's handler \<Rightarrow> 's handler \<Rightarrow> 's handler \<Rightarrow> 's handler \<Rightarrow> 's handler" where
  "NewServer cfg search notify version forwards r =
     (if req_Path r = ''*'' then (\<lambda>sw. Ok (fst sw, WriteHeader 400 (snd sw)))
      else if req_Method r \<noteq> ''CONNECT'' \<and> cleanPath (req_Path r) \<noteq> req_Path r then
        redirect (cleanPath (req_Path r)) r
      else if req_Path r = ''/v1/search'' then securityFilter cfg search r
      else if req_Path r = ''/dim/notify'' then securityFilter cfg notify r
      else if req_Path r = ''/dim/version'' then securityFilter cfg version r
      else if HasPrefix (req_Path r) ''/'' then securityFilter cfg forwards r
      else (\<lambda>sw. Ok (fst sw, http_Error (snd sw) ''404 page not found'' 404)))"

section \<open>Every handler is behind the filter\<close>

definition routed :: "Request \<Rightarrow> bool" where
  "routed r \<longleftrightarrow> HasPrefix (req_Path r) ''/'' \<and> (req_Method r = ''CONNECT'' \<or> cleanPath (req_Path r) = req_Path r)"

definition route :: "'s handler \<Rightarrow> 's handler \<Rightarrow> 's handler \<Rightarrow> 's handler \<Rightarrow> string \<Rightarrow> 's handler" where
  "route search notify version forwards p =
     (if p = ''/v1/search'' then search else if p = ''/dim/notify'' then notify
      else if p = ''/dim/version'' then version else forwards)"

lemma NewServer_filtered:
  "routed r \<Longrightarrow> NewServer cfg search notify version forwards r =
     securityFilter cfg (route search notify version forwards (req_Path r)) r"
  by (auto simp: NewServer_def routed_def route_def HasPrefix_def)

lemma NewServer_unrouted:
  assumes "\<not> routed r" and "rw_Status w = None"
  shows "\<exists>w' code. NewServer cfg search notify version forwards r (s, w) = Ok (s, w') \<and>
    rw_Status w' = Some code \<and> code \<in> {301, 400, 404}"
  using assms
  by (auto simp: NewServer_def routed_def redirect_def WriteHeader_def Header_Set_def http_Error_fresh HasPrefix_def)

lemma securityFilter_allowed:
  "compiled (sc_Authorizations cfg) \<Longrightarrow> allowed (sc_Authorizations cfg) r \<Longrightarrow> securityFilter cfg hf r sw = hf r sw"
  by (auto simp: securityFilter_def GetAuthorization_find allowed_def grantAccess_def grant_loop_eq
      split: option.splits)

lemma securityFilter_denied:
  "compiled (sc_Authorizations cfg) \<Longrightarrow> \<not> allowed (sc_Authorizations cfg) r \<Longrightarrow>
   \<exists>e. securityFilter cfg hf r (s, w) =
     Ok (s, http_Error (Header_Set authenticateHeaderName authenticateHeaderValue w) e 401)"
  by (auto simp: securityFilter_def GetAuthorization_find allowed_def grantAccess_def grant_loop_eq
      split: option.splits)

lemma NewServer_refuses:
  assumes "compiled (sc_Authorizations cfg)" and "rw_Status w = None" and "\<not> allowed (sc_Authorizations cfg) r"
  shows "\<exists>w' code. NewServer cfg search notify version forwards r (s, w) = Ok (s, w') \<and>
    rw_Status w' = Some code \<and> code \<in> {301, 400, 401, 404}"
proof (cases "routed r")
  case True
  show ?thesis
    using securityFilter_denied [OF assms(1), of r "route search notify version forwards (req_Path r)" s w]
      http_Error_fresh [of "Header_Set authenticateHeaderName authenticateHeaderValue w"] assms(2,3)
    by (auto simp: NewServer_filtered [OF True] Header_Set_def)
next
  case False
  obtain w' code where "NewServer cfg search notify version forwards r (s, w) = Ok (s, w')"
    "rw_Status w' = Some code" "code \<in> {301, 400, 404}"
    using NewServer_unrouted [OF False assms(2), of cfg search notify version forwards s] by blast
  then show ?thesis by auto
qed

text \<open>
  C12: complete mediation. Whatever the four handlers do, a request the policy does not allow
  never reaches one of them: the state stays and the answer is a refusal or a redirection. A
  request that is allowed and whose path is clean is served by the handler of its path.
\<close>

theorem NewServer_mediates:
  assumes "compiled (sc_Authorizations cfg)" and "rw_Status w = None"
  shows "(\<not> allowed (sc_Authorizations cfg) r \<longrightarrow>
       (\<exists>w' code. NewServer cfg search notify version forwards r (s, w) = Ok (s, w') \<and>
          rw_Status w' = Some code \<and> code \<in> {301, 400, 401, 404})) \<and>
    (allowed (sc_Authorizations cfg) r \<and> routed r \<longrightarrow>
       NewServer cfg search notify version forwards r (s, w) =
         route search notify version forwards (req_Path r) r (s, w))"
  using NewServer_refuses [OF assms] securityFilter_allowed [OF assms(1)] by (auto simp: NewServer_filtered)

section \<open>From an event of the registry to the index\<close>

lemma event_loop_Submit:
  "event_loop Submit events s = fold Submit (List.map_filter event_job events) s"
  unfolding event_loop_def
  by (induction events arbitrary: s) (auto simp: map_filter_simps split: option.splits)

text \<open>
  No event is lost and none is invented. Handling a notification on a running system
  answers 200 and, whatever the schedule of the workers afterwards, once no worker can move the
  jobs handled are those of before and exactly one per deletion and per push of an image
  manifest; the other events of the envelope have no effect. An envelope that cannot be read is
  answered with 400 and changes nothing.
\<close>

theorem NotifyImageChange_complete:
  assumes "running s" and "rw_Status w = None"
    and "NotifyImageChange decode Submit r (s, w) = Ok (s', w')"
  shows "(\<forall>events. decode (req_Body r) = Ok events \<longrightarrow> rw_Status w' = Some 200 \<and>
       (\<forall>t. nreach h s' t \<and> (\<nexists>u. nstep h t u) \<longrightarrow>
          mset (ns_done t) = accounted s + mset (List.map_filter event_job events))) \<and>
    (\<forall>e. decode (req_Body r) = Err e \<longrightarrow> s' = s \<and> rw_Status w' = Some 400)"
proof (intro conjI allI impI)
  fix events assume ok: "decode (req_Body r) = Ok events"
  then show "rw_Status w' = Some 200"
    using assms(2,3) by (auto simp: NotifyImageChange_def Write_def WriteHeader_def Let_def)
  fix t assume t: "nreach h s' t \<and> (\<nexists>u. nstep h t u)"
  have s': "s' = fold Submit (List.map_filter event_job events) s"
    using assms(3) ok by (simp add: NotifyImageChange_def event_loop_Submit Let_def)
  with assms(1) have "running s'" by (simp add: running_Submits)
  with t have "mset (ns_done t) = accounted s'" using drained [of h s' t] by blast
  then show "mset (ns_done t) = accounted s + mset (List.map_filter event_job events)"
    by (simp add: s' accounted_Submits)
next
  fix e assume "decode (req_Body r) = Err e"
  then show "s' = s" "rw_Status w' = Some 400"
    using assms(2,3) by (auto simp: NotifyImageChange_def Write_def WriteHeader_def Let_def)
qed

section \<open>The properties at concrete inputs\<close>

definition sample_request :: Request where
  "sample_request = \<lparr>req_Method = ''POST'', req_Path = ''/dim/notify'', req_Auth = None, req_Body = ''event'',
     req_Form = [], req_FormErr = None\<rparr>"

definition sample_config :: ServerConfig where
  "sample_config = \<lparr>sc_Port = '':6000'', sc_Authorizations =
     [\<lparr>au_Path = ''/'', au_Method = [], au_Users = Some [], au_regexp = Some (\<lambda>_. True)\<rparr>]\<rparr>"

theorem NewServer_mediates_witness:
  "\<exists>w' code. NewServer sample_config (\<lambda>r sw. Panic) (\<lambda>r sw. Panic) (\<lambda>r sw. Panic) (\<lambda>r sw. Panic)
     sample_request ((), new_Response) = Ok ((), w') \<and> rw_Status w' = Some code \<and> code \<in> {301, 400, 401, 404}"
proof -
  have "compiled (sc_Authorizations sample_config)" "rw_Status new_Response = None"
    and "\<not> allowed (sc_Authorizations sample_config) sample_request"
    by (simp_all add: compiled_def sample_config_def new_Response_def allowed_def rule_applies_def
        Applies_def knows_def)
  then show ?thesis using NewServer_mediates [THEN conjunct1, THEN mp] by metis
qed

definition sample_events :: "Event list" where
  "sample_events =
     [\<lparr>ev_Action = ''pull'', ev_MediaType = [], ev_Repository = ''mysql'', ev_Tag = [], ev_Digest = ''d1''\<rparr>,
      \<lparr>ev_Action = EventActionDelete, ev_MediaType = [], ev_Repository = ''mysql'', ev_Tag = [], ev_Digest = ''d2''\<rparr>]"

theorem NotifyImageChange_complete_witness:
  "\<exists>s' w'. NotifyImageChange (\<lambda>_. Ok sample_events) Submit sample_request (new_nsys (0::nat), new_Response) = Ok (s', w') \<and>
     rw_Status w' = Some 200 \<and>
     (\<exists>t. nreach (\<lambda>x _. Suc x) s' t \<and>
        mset (ns_done t) = {#\<lparr>job_Action = DeleteAction, job_Repository = [], job_Tag = [], job_Digest = ''d2''\<rparr>#})"
proof -
  have w: "rw_Status new_Response = None" by (simp add: new_Response_def)
  obtain s' w' where n: "NotifyImageChange (\<lambda>_. Ok sample_events) Submit sample_request
      (new_nsys (0::nat), new_Response) = Ok (s', w')"
    by (simp add: NotifyImageChange_def Let_def)
  have "List.map_filter event_job sample_events =
      [\<lparr>job_Action = DeleteAction, job_Repository = [], job_Tag = [], job_Digest = ''d2''\<rparr>]"
    by (simp add: sample_events_def event_job_def EventActionDelete_def EventActionPush_def map_filter_simps)
  note events = this
  have "rw_Status w' = Some 200 \<and>
     (\<forall>t. nreach (\<lambda>x _. Suc x) s' t \<and> (\<nexists>u. nstep (\<lambda>x _. Suc x) t u) \<longrightarrow>
        mset (ns_done t) = {#\<lparr>job_Action = DeleteAction, job_Repository = [], job_Tag = [], job_Digest = ''d2''\<rparr>#})"
    using NotifyImageChange_complete [OF running_new w n, of "\<lambda>x _. Suc x",
      THEN conjunct1, THEN spec, THEN mp, OF refl]
    unfolding events accounted_new mset.simps add_0 .
  moreover obtain t where "nreach (\<lambda>x _. Suc x) s' t" "\<nexists>u. nstep (\<lambda>x _. Suc x) t u"
    using nrun.ends [of "\<lambda>x _. Suc x" s'] by blast
  ultimately show ?thesis using n by blast
qed

end
