(* ===== verification/Cli.thy ===== *)
theory Cli
  imports Prelude
begin

text \<open>
  Asking the user for credentials (\<open>cli/cli.go\<close>). An answer is the word the reader returned, empty
  when it returned none; what is written to the terminal is part of the result.
\<close>

record AuthConfig =
  auth_Username :: string
  auth_Password :: string

definition no_auth :: AuthConfig where
  "no_auth = \<lparr>auth_Username = [], auth_Password = []\<rparr>"

text \<open>\<open>ask\<close> writes the prompt and returns what is read.\<close>

definition ask :: "string \<Rightarrow> string \<Rightarrow> string \<times> string" where
  "ask prompt input = (prompt, input)"

definition askUsername :: "string \<Rightarrow> AuthConfig \<Rightarrow> string \<times> AuthConfig" where
  "askUsername answer a =
     (let prompt = (if auth_Username a \<noteq> [] then ''Username ('' @ auth_Username a @ '') :'' else ''Username :'');
          (out, input) = ask prompt answer
      in (out, if input \<noteq> [] then a\<lparr>auth_Username := input\<rparr> else a))"

definition askPassword :: "string \<Rightarrow> AuthConfig \<Rightarrow> string \<times> AuthConfig" where
  "askPassword answer a =
     (let (out, input) = ask ''Password :'' answer
      in (out, if input \<noteq> [] then a\<lparr>auth_Password := input\<rparr> else a))"

definition ReadCredentials :: "string \<times> string \<Rightarrow> AuthConfig \<Rightarrow> string \<times> AuthConfig" where
  "ReadCredentials answers a =
     (let (out, a') = askUsername (fst answers) a
      in if auth_Username a' = [] then (out, a')
         else (let (out', a'') = askPassword (snd answers) a' in (out @ out', a'')))"

text \<open>
  An empty answer keeps what is known and any other answer replaces it; the password is asked
  for, and can change, exactly when there is a user name in the end.
\<close>

theorem ReadCredentials_updates:
  "snd (ReadCredentials (u, p) a) =
     (let name = (if u \<noteq> [] then u else auth_Username a)
      in a\<lparr>auth_Username := name,
           auth_Password := (if name \<noteq> [] \<and> p \<noteq> [] then p else auth_Password a)\<rparr>) \<and>
   (HasSuffix (fst (ReadCredentials (u, p) a)) ''Password :'' \<longleftrightarrow> auth_Username (snd (ReadCredentials (u, p) a)) \<noteq> [])"
  by (cases a) (auto simp: ReadCredentials_def askUsername_def askPassword_def ask_def Let_def HasSuffix_def)

end
