(* ===== verification/RegistryClient.thy ===== *)
theory RegistryClient
  imports Handlers SearchIndex Cli
begin

text \<open>
  The registry client (\<open>lib/registry/registry.go\<close> and the operations on one repository of
  \<open>lib/registry/repository.go\<close>). The services of docker's distribution client, the parser of
  docker's image references, HTTP and the JSON text are parameters; every service call may fail.
\<close>

section \<open>Image references\<close>

text \<open>What the client reads of a parsed reference. \<open>nm_Tag\<close> is the tag of a tagged name and
  \<open>nm_RefTag\<close> the result of \<open>GetTagFromNamedRef\<close>.\<close>

record 'n names =
  nm_ParseNamed :: "string \<Rightarrow> 'n res"
  nm_Name :: "'n \<Rightarrow> string"
  nm_Hostname :: "'n \<Rightarrow> string"
  nm_Tag :: "'n \<Rightarrow> string option"
  nm_RefTag :: "'n \<Rightarrow> string"

text \<open>The host of the Docker Hub.\<close>

definition DefaultHostname :: string where "DefaultHostname = ''docker.io''"

definition ParseTag :: "'n names \<Rightarrow> 'n \<Rightarrow> string" where
  "ParseTag nm name = (case nm_Tag nm name of Some tag \<Rightarrow> tag | None \<Rightarrow> ''latest'')"

text \<open>The name after its first slash, the whole name when it has none.\<close>

fun after_slash :: "string \<Rightarrow> string option" where
  "after_slash [] = None"
| "after_slash (c # cs) = (if c = CHR ''/'' then Some cs else after_slash cs)"

definition remote_name :: "string \<Rightarrow> string" where
  "remote_name s = (case after_slash s of None \<Rightarrow> s | Some rest \<Rightarrow> rest)"

definition local_name :: "'n names \<Rightarrow> 'n \<Rightarrow> 'n option" where
  "local_name nm parsedName =
     (case nm_ParseNamed nm (remote_name (nm_Name nm parsedName)) of Ok n \<Rightarrow> Some n | _ \<Rightarrow> None)"

section \<open>One repository\<close>

text \<open>
  The services of a repository. \<open>sv_Manifests\<close> makes the manifest service, \<open>sv_GetManifest\<close>
  fetches a manifest and gives the outcome of reading its payload, \<open>sv_ConfigDigest\<close> and
  \<open>sv_FillImage\<close> read JSON texts, the latter into an image already holding a tag and a digest.
  \<open>sv_Delete\<close> acts on the registry's state \<open>'r\<close>.
\<close>

record ('m, 'r) services =
  sv_Named :: string
  sv_AllTags :: "'r \<Rightarrow> string list res"
  sv_GetTag :: "'r \<Rightarrow> string \<Rightarrow> string res"
  sv_Manifests :: "'m res"
  sv_GetManifest :: "'m \<Rightarrow> 'r \<Rightarrow> string \<Rightarrow> string res res"
  sv_ConfigDigest :: "string \<Rightarrow> string res"
  sv_GetBlob :: "'r \<Rightarrow> string \<Rightarrow> string res"
  sv_FillImage :: "string \<Rightarrow> RegistryImage \<Rightarrow> RegistryImage res"
  sv_Delete :: "'m \<Rightarrow> 'r \<Rightarrow> string \<Rightarrow> 'r \<times> unit res"

text \<open>A repository object keeps its manifest service once it has one.\<close>

record ('m, 'r) RepositoryImpl =
  rp_services :: "('m, 'r) services"
  rp_mfs :: "'m option"

definition manifestService ::
    "('m, 'r) RepositoryImpl \<Rightarrow> ('m, 'r) RepositoryImpl \<times> 'm res" where
  "manifestService rp =
     (case rp_mfs rp of
        Some m \<Rightarrow> (rp, Ok m)
      | None \<Rightarrow>
          (case sv_Manifests (rp_services rp) of
             Ok m \<Rightarrow> (rp\<lparr>rp_mfs := Some m\<rparr>, Ok m)
           | e \<Rightarrow> (rp, e)))"

definition AllTags :: "('m, 'r) RepositoryImpl \<Rightarrow> 'r \<Rightarrow> string list res" where
  "AllTags rp reg = sv_AllTags (rp_services rp) reg"

definition getTagDigest :: "('m, 'r) RepositoryImpl \<Rightarrow> 'r \<Rightarrow> string \<Rightarrow> string res" where
  "getTagDigest rp reg tag = sv_GetTag (rp_services rp) reg tag"

definition ImageFromManifest ::
    "('m, 'r) RepositoryImpl \<Rightarrow> 'r \<Rightarrow> string \<Rightarrow> string \<Rightarrow> ('m, 'r) RepositoryImpl \<times> RegistryImage res" where
  "ImageFromManifest rp reg tagDigest tag =
     (let (rp', ms) = manifestService rp; sv = rp_services rp
      in (rp',
          res_bind ms (\<lambda>m.
          res_bind (sv_GetManifest sv m reg tagDigest) (\<lambda>mf.
          res_bind mf (\<lambda>payload.
          res_bind (sv_ConfigDigest sv payload) (\<lambda>cfg.
          res_bind (sv_GetBlob sv reg cfg) (\<lambda>blob.
            sv_FillImage sv blob \<lparr>ri_Image = None, ri_Tag = tag, ri_Digest = tagDigest\<rparr>)))))))"

definition RepoImage ::
    "('m, 'r) RepositoryImpl \<Rightarrow> 'r \<Rightarrow> string \<Rightarrow> ('m, 'r) RepositoryImpl \<times> RegistryImage res" where
  "RepoImage rp reg tag =
     (case getTagDigest rp reg tag of
        Ok dg \<Rightarrow> ImageFromManifest rp reg dg tag
      | Err e \<Rightarrow> (rp, Err e)
      | Panic \<Rightarrow> (rp, Panic))"

definition RepoDeleteImage ::
    "('m, 'r) RepositoryImpl \<Rightarrow> 'r \<Rightarrow> string \<Rightarrow> ('m, 'r) RepositoryImpl \<times> 'r \<times> unit res" where
  "RepoDeleteImage rp reg tag =
     (case getTagDigest rp reg tag of
        Ok dg \<Rightarrow>
          (case manifestService rp of
             (rp', Ok m) \<Rightarrow> (rp', sv_Delete (rp_services rp) m reg dg)
           | (rp', Err e) \<Rightarrow> (rp', reg, Err e)
           | (rp', Panic) \<Rightarrow> (rp', reg, Panic))
      | Err e \<Rightarrow> (rp, reg, Err e)
      | Panic \<Rightarrow> (rp, reg, Panic))"

section \<open>Connecting\<close>

text \<open>
  How a probe of the registry ends: with success or the end of the catalogue, with an error of
  the connection, or with another error, which is taken for missing credentials.
\<close>

datatype probe = Joined | Unreachable string | Refused string

text \<open>
  The loop of \<open>tryNew\<close>. \<open>probe\<close> is the outcome of listing the repositories under the given
  credentials, \<open>reach\<close> that of creating the client; the answers of the user are a list, and the
  result is \<open>None\<close> while it waits for another answer. The client is described by the credentials
  its transport sends.
\<close>

fun tryNew_loop ::
    "(AuthConfig option \<Rightarrow> probe) \<Rightarrow> (AuthConfig option \<Rightarrow> unit res) \<Rightarrow> bool \<Rightarrow> AuthConfig option \<Rightarrow>
     (string \<times> string) list \<Rightarrow> AuthConfig option res option" where
  "tryNew_loop probe reach prompt auth inputs =
     (case probe auth of
        Joined \<Rightarrow> Some (Ok auth)
      | Unreachable e \<Rightarrow> Some (Err (''Failed to join the registry : '' @ e))
      | Refused e \<Rightarrow>
          if \<not> prompt then Some (Ok auth)
          else
            (case inputs of
               [] \<Rightarrow> None
             | i # is \<Rightarrow>
                 (let a = snd (ReadCredentials i (case auth of None \<Rightarrow> no_auth | Some a \<Rightarrow> a))
                  in (case reach (Some a) of
                        Ok _ \<Rightarrow> tryNew_loop probe reach prompt (Some a) is
                      | Err e \<Rightarrow> Some (Err e)
                      | Panic \<Rightarrow> Some Panic))))"

declare tryNew_loop.simps [simp del]

definition tryNew ::
    "(AuthConfig option \<Rightarrow> probe) \<Rightarrow> (AuthConfig option \<Rightarrow> unit res) \<Rightarrow> AuthConfig option \<Rightarrow> string \<Rightarrow> bool \<Rightarrow>
     (string \<times> string) list \<Rightarrow> AuthConfig option res option" where
  "tryNew probe reach registryAuth registryURL prompt inputs =
     (if registryURL = [] then Some (Err ''No registry URL given'')
      else (case reach registryAuth of
              Ok _ \<Rightarrow> tryNew_loop probe reach prompt registryAuth inputs
            | Err e \<Rightarrow> Some (Err e)
            | Panic \<Rightarrow> Some Panic))"

definition Client_New where "Client_New probe reach auth url = tryNew probe reach auth url True"

definition Client_SilentNew where "Client_SilentNew probe reach auth url = tryNew probe reach auth url False"

section \<open>Requests to a dim server\<close>

definition values_set :: "string \<Rightarrow> string \<Rightarrow> (string, string list) gomap \<Rightarrow> (string, string list) gomap" where
  "values_set k v m = mput k [v] m"

definition values_add :: "string \<Rightarrow> string \<Rightarrow> (string, string list) gomap \<Rightarrow> (string, string list) gomap" where
  "values_add k v m = mput k (form_values m k @ [v]) m"

definition search_fields :: "string list" where
  "search_fields = [''Name'', ''Tag'', ''FullName'', ''Labels'', ''Envs'', ''Volumes'', ''ExposedPorts'', ''Size'', ''Created'']"

definition search_form :: "string \<Rightarrow> string \<Rightarrow> int \<Rightarrow> int \<Rightarrow> (string, string list) gomap" where
  "search_form q a offset maxResults =
     (let f = [];
          f = (if a \<noteq> [] then values_set ''a'' a f else f);
          f = (if q \<noteq> [] then values_set ''q'' q f else f);
          f = fold (values_add ''f'') search_fields f;
          f = values_set ''offset'' (Itoa offset) f
      in values_set ''maxResults'' (Itoa maxResults) f)"

text \<open>\<open>post\<close> sends a form to a URL and \<open>get\<close> fetches one: the status and the body that come
  back, or the error of the transport.\<close>

definition Client_Search ::
    "(string \<Rightarrow> jval res) \<Rightarrow> (string \<Rightarrow> gotime res) \<Rightarrow>
     (string \<Rightarrow> (string, string list) gomap \<Rightarrow> (int \<times> string) res) \<Rightarrow> string \<Rightarrow>
     string \<Rightarrow> string \<Rightarrow> int \<Rightarrow> int \<Rightarrow> SearchResults res" where
  "Client_Search json_parse time_parse post registryURL query advanced offset maxResults =
     (let q = TrimSpace query; a = TrimSpace advanced;
          endpoint = TrimSuffix registryURL ''/'' @ ''/v1/search''
      in (case post endpoint (search_form q a offset maxResults) of
            Err e \<Rightarrow> Err (''Failed to send request : '' @ e)
          | Panic \<Rightarrow> Panic
          | Ok (status, body) \<Rightarrow>
              if status \<ge> 200 \<and> status < 400 then
                (case res_bind (json_parse body) (dec_SearchResults time_parse) of
                   Ok results \<Rightarrow> Ok results
                 | Err e \<Rightarrow> Err (''Failed to parse response : '' @ e)
                 | Panic \<Rightarrow> Panic)
              else Err (''Server returned an error : '' @ body)))"

text \<open>The error of \<open>ServerVersion\<close> holds the status line, here the function \<open>status_text\<close>.\<close>

definition ServerVersion ::
    "(string \<Rightarrow> jval res) \<Rightarrow> (int \<Rightarrow> string) \<Rightarrow> (string \<Rightarrow> (int \<times> string) res) \<Rightarrow> string \<Rightarrow> Info res" where
  "ServerVersion json_parse status_text get registryURL =
     (case get (TrimSuffix registryURL ''/'' @ ''/dim/version'') of
        Err e \<Rightarrow> Err (''Failed to send request : '' @ e)
      | Panic \<Rightarrow> Panic
      | Ok (status, body) \<Rightarrow>
          if status \<ge> 200 \<and> status < 400 then
            (case res_bind (json_parse body) dec_Info of
               Ok infos \<Rightarrow> Ok infos
             | Err e \<Rightarrow> Err (''Failed to parse response : '' @ e)
             | Panic \<Rightarrow> Panic)
          else Err (''Server returned an error : '' @ status_text status))"

section \<open>Images by name\<close>

text \<open>\<open>NewRepository\<close> of the client: the services of a name, which may be nil.\<close>

definition NewRepository ::
    "('n option \<Rightarrow> ('m, 'r) services res) \<Rightarrow> 'n option \<Rightarrow> ('m, 'r) RepositoryImpl res" where
  "NewRepository connect parsedName = res_map (\<lambda>sv. \<lparr>rp_services = sv, rp_mfs = None\<rparr>) (connect parsedName)"

definition Client_DeleteImage ::
    "'n names \<Rightarrow> ('n option \<Rightarrow> ('m, 'r) services res) \<Rightarrow> 'r \<Rightarrow> 'n \<Rightarrow> 'r \<times> unit res" where
  "Client_DeleteImage nm connect reg parsedName =
     (case NewRepository connect (local_name nm parsedName) of
        Ok rp \<Rightarrow>
          (let tag = nm_RefTag nm parsedName;
               tag = (if tag = [] then ''latest'' else tag)
           in snd (RepoDeleteImage rp reg tag))
      | Err e \<Rightarrow> (reg, Err e)
      | Panic \<Rightarrow> (reg, Panic))"

text \<open>
  What the template gets to see of an image of the registry. \<open>ImageID\<close> gives a private field of the
  image that reading JSON does not set: the empty text.
\<close>

definition shown_image :: "RegistryImage \<Rightarrow> V1Image \<Rightarrow> ImageInspect" where
  "shown_image im v1 =
     \<lparr>ii_ID = [], ii_RepoTags = [ri_Tag im], ii_Comment = [], ii_Author = [], ii_Created = [],
      ii_Config = v1_Config v1, ii_Size = 0\<rparr>"

text \<open>\<open>execute\<close> is the template. A description without any known member leaves the embedded image nil.\<close>

definition Client_PrintImageInfo ::
    "'n names \<Rightarrow> ('n option \<Rightarrow> ('m, 'r) services res) \<Rightarrow> 'r \<Rightarrow> 'n \<Rightarrow> (ImageInspect \<Rightarrow> string res) \<Rightarrow> string res" where
  "Client_PrintImageInfo nm connect reg parsedName execute =
     res_bind (NewRepository connect (local_name nm parsedName)) (\<lambda>rp.
     res_bind (snd (RepoImage rp reg (ParseTag nm parsedName))) (\<lambda>im.
       (case ri_Image im of
          None \<Rightarrow> Panic
        | Some v1 \<Rightarrow> execute (shown_image im v1))))"

lemma Client_PrintImageInfo_Ok:
  "Client_PrintImageInfo nm connect reg n execute = Ok text \<longleftrightarrow>
    (\<exists>rp im v1. NewRepository connect (local_name nm n) = Ok rp \<and>
      snd (RepoImage rp reg (ParseTag nm n)) = Ok im \<and> ri_Image im = Some v1 \<and>
      execute (shown_image im v1) = Ok text)"
  by (simp add: Client_PrintImageInfo_def res_bind_Ok_iff option.case_eq_if option.distinct) (metis option.collapse option.discI option.sel)

section \<open>The client and the server agree\<close>

text \<open>A form posted to the search handler, and the answer as it arrives.\<close>

definition search_request :: "(string \<times> string) option \<Rightarrow> (string, string list) gomap \<Rightarrow> Request" where
  "search_request auth f =
     \<lparr>req_Method = ''POST'', req_Path = ''/v1/search'', req_Auth = auth, req_Body = [], req_Form = f,
      req_FormErr = None\<rparr>"

definition respond :: "'s handler \<Rightarrow> 's \<Rightarrow> Request \<Rightarrow> (int \<times> string) res" where
  "respond h s r =
     (case h r (s, new_Response) of
        Ok (_, w) \<Rightarrow> Ok (case rw_Status w of None \<Rightarrow> 200 | Some c \<Rightarrow> c, rw_Body w)
      | _ \<Rightarrow> Err ''EOF'')"

lemma form_values_mput: "form_values (mput k vs m) l = (if l = k then vs else form_values m l)"
  by (simp add: form_values_def go_map_simps)

lemma fold_values_add:
  "form_values (fold (values_add k) vs m) l = (if l = k then form_values m k @ vs else form_values m l)"
  by (induction vs arbitrary: m) (auto simp: values_add_def form_values_mput)

lemma search_form_fields:
  "form_get (search_form q a n m) ''q'' = q" "form_get (search_form q a n m) ''a'' = a"
  "form_values (search_form q a n m) ''f'' = search_fields"
  "form_get (search_form q a n m) ''offset'' = Itoa n"
  "form_get (search_form q a n m) ''maxResults'' = Itoa m"
  by (simp_all add: search_form_def form_get_def values_set_def form_values_mput fold_values_add Let_def)
    (simp_all add: form_values_def)

lemma clamp_in_int: "in_int i \<Longrightarrow> clamp_int i = i"
  by (simp add: in_int_def clamp_int_def)

lemma int_of_uint64_small: "n < 2 ^ 63 \<Longrightarrow> int_of_uint64 n = int n"
  by (simp add: int_of_uint64_def signed_take_bit_int_eq_self)

lemma go_result_image: "go_result (imageToSearchResult i) \<longleftrightarrow>
    in_int (im_Size i) \<and> (\<forall>p \<in> set (im_ExposedPorts i). in_int p) \<and>
    wf_map (nil_or (im_Label i)) \<and> wf_map (nil_or (im_Env i))"
  by (simp add: go_result_def imageToSearchResult_def in_int_def min_int_def max_int_def)

lemma enc_SearchResults_Ok:
  assumes "\<forall>r \<in> set (srs_Results rs). \<exists>t. time_text (sr_Created r) = Ok t"
  shows "\<exists>v. enc_SearchResults time_text rs = Ok v"
proof -
  have "\<exists>vs. res_mapM (enc_SearchResult time_text) xs = Ok vs"
    if "\<forall>r \<in> set xs. \<exists>t. time_text (sr_Created r) = Ok t" for xs
    using that by (induction xs) (auto simp: enc_SearchResult_def)
  with assms show ?thesis by (fastforce simp: enc_SearchResults_def)
qed

lemma routed_search_request: "routed (search_request auth f)"
  by (simp add: routed_def search_request_def cleanPath_def HasPrefix_def HasSuffix_def)

lemma Search_answers:
  assumes "q \<noteq> [] \<or> a \<noteq> []" and "in_int offset" and "in_int maxResults"
    and "search s q a search_fields offset (if maxResults = 0 then 10 else maxResults) = Ok sr"
    and "enc_SearchResults time_text \<lparr>srs_Query = q, srs_NumResults = int_of_uint64 (ir_Total sr),
           srs_Results = buildSearchResults sr\<rparr> = Ok v" and "json_print v = Ok b"
  shows "Search time_text json_print search (search_request auth (search_form q a offset maxResults)) (s, new_Response)
    = Ok (s, Write b new_Response)"
  using assms
  by (auto simp: Search_def search_request_def search_form_fields Atoi_Itoa clamp_in_int Let_def)

text \<open>
  C14: client and server agree, end to end. When the server lets the request through, a search
  with a query that is not blank gives the client exactly the images the index found, in their
  order, with the total of the index: the form, the handler, the JSON payload and its decoding
  lose nothing, a number of results of 0 being read by the server as 10. The hypotheses on the
  JSON text and on times are that what is printed is read back.
\<close>

theorem Client_Search_end_to_end:
  assumes "post (TrimSuffix registryURL ''/'' @ ''/v1/search'') =
      (\<lambda>f. respond (NewServer cfg (Search time_text json_print search) notify version forwards) s (search_request auth f))"
    and "compiled (sc_Authorizations cfg)"
    and "\<forall>f. allowed (sc_Authorizations cfg) (search_request auth f)"
    and "TrimSpace query \<noteq> [] \<or> TrimSpace advanced \<noteq> []"
    and "in_int offset" and "in_int maxResults"
    and "search s (TrimSpace query) (TrimSpace advanced) search_fields offset (if maxResults = 0 then 10 else maxResults) = Ok sr"
    and "ir_Total sr < 2 ^ 63" and "\<forall>i \<in> set (ir_Images sr). go_result (imageToSearchResult i)"
    and "\<forall>v. enc_SearchResults time_text \<lparr>srs_Query = TrimSpace query,
            srs_NumResults = int_of_uint64 (ir_Total sr), srs_Results = buildSearchResults sr\<rparr> = Ok v \<longrightarrow>
          (\<exists>b. json_print v = Ok b \<and> json_parse b = Ok v)"
    and "\<forall>i \<in> set (ir_Images sr). \<exists>t. time_text (im_Created i) = Ok t \<and> time_parse t = Ok (im_Created i)"
  shows "Client_Search json_parse time_parse post registryURL query advanced offset maxResults =
    Ok \<lparr>srs_Query = TrimSpace query, srs_NumResults = int (ir_Total sr),
        srs_Results = map (received_result \<circ> imageToSearchResult) (ir_Images sr)\<rparr>"
proof -
  let ?q = "TrimSpace query" and ?a = "TrimSpace advanced"
  let ?rs = "\<lparr>srs_Query = ?q, srs_NumResults = int_of_uint64 (ir_Total sr), srs_Results = buildSearchResults sr\<rparr>"
  have times: "\<forall>r \<in> set (srs_Results ?rs). \<exists>t. time_text (sr_Created r) = Ok t \<and> time_parse t = Ok (sr_Created r)"
    using assms(11) by (simp add: buildSearchResults_def imageToSearchResult_def)
  then obtain v where v: "enc_SearchResults time_text ?rs = Ok v"
    using enc_SearchResults_Ok [of ?rs time_text] by fast
  obtain b where b: "json_print v = Ok b" "json_parse b = Ok v" using assms(10) v by blast
  have "dec_SearchResults time_parse v = Ok (?rs\<lparr>srs_Results := map received_result (srs_Results ?rs)\<rparr>)"
  proof (rule dec_enc_SearchResults [OF v])
    show "\<forall>r \<in> set (srs_Results ?rs). go_result r" using assms(9) by (simp add: buildSearchResults_def)
    show "in_int (srs_NumResults ?rs)"
      using assms(8) by (simp add: int_of_uint64_small in_int_def min_int_def max_int_def)
  qed (use times in fastforce)
  moreover have "respond (NewServer cfg (Search time_text json_print search) notify version forwards) s
      (search_request auth (search_form ?q ?a offset maxResults)) = Ok (200, b)"
  proof -
    let ?r = "search_request auth (search_form ?q ?a offset maxResults)"
    have "NewServer cfg (Search time_text json_print search) notify version forwards ?r (s, new_Response)
        = Search time_text json_print search ?r (s, new_Response)"
      using securityFilter_allowed [OF assms(2) assms(3) [THEN spec]]
      by (simp add: NewServer_filtered [OF routed_search_request])
        (simp add: route_def search_request_def)
    then show ?thesis
      using Search_answers [of ?q ?a offset maxResults search s sr time_text v json_print b auth,
          OF assms(4-7) v b(1)]
      by (simp add: respond_def Write_def WriteHeader_def new_Response_def Let_def)
  qed
  ultimately show ?thesis
    using assms(8) b(2)
    by (simp add: Client_Search_def assms(1) Let_def buildSearchResults_def int_of_uint64_small)
qed

definition sample_found :: IndexResults where
  "sample_found = \<lparr>ir_Total = 1, ir_Images = [zero_IndexImage\<lparr>im_Name := ''mysql'', im_Tag := ''5.7''\<rparr>]\<rparr>"

definition sample_tree :: jval where
  "sample_tree = (case enc_SearchResults (\<lambda>_. Ok ''0001'')
      \<lparr>srs_Query = ''mysql'', srs_NumResults = 1, srs_Results = buildSearchResults sample_found\<rparr> of
      Ok v \<Rightarrow> v | _ \<Rightarrow> JNull)"

definition sample_post :: "string \<Rightarrow> (string, string list) gomap \<Rightarrow> (int \<times> string) res" where
  "sample_post url f = respond (NewServer \<lparr>sc_Port = [], sc_Authorizations = []\<rparr>
     (Search (\<lambda>_. Ok ''0001'') (\<lambda>_. Ok ''tree'') (\<lambda>_ _ _ _ _ _. Ok sample_found))
     (\<lambda>r sw. Panic) (\<lambda>r sw. Panic) (\<lambda>r sw. Panic)) () (search_request None f)"

theorem Client_Search_end_to_end_witness:
  "Client_Search (\<lambda>_. Ok sample_tree) (\<lambda>_. Ok 0) sample_post ''https://hub/'' ''mysql'' [] 0 0 =
    Ok \<lparr>srs_Query = ''mysql'', srs_NumResults = 1,
        srs_Results = map (received_result \<circ> imageToSearchResult) (ir_Images sample_found)\<rparr>"
proof -
  have q: "TrimSpace ''mysql'' = ''mysql''" "TrimSpace [] = []"
    by (simp_all add: TrimSpace_visible visible_def)
  have one: "int_of_uint64 (Suc 0) = 1" by (simp add: int_of_uint64_def)
  have total: "ir_Total sample_found = 1" by (simp add: sample_found_def)
  have "Client_Search (\<lambda>_. Ok sample_tree) (\<lambda>_. Ok 0) sample_post ''https://hub/'' ''mysql'' [] 0 0 =
    Ok \<lparr>srs_Query = TrimSpace ''mysql'', srs_NumResults = int (ir_Total sample_found),
        srs_Results = map (received_result \<circ> imageToSearchResult) (ir_Images sample_found)\<rparr>"
  proof (rule Client_Search_end_to_end)
    show "sample_post (TrimSuffix ''https://hub/'' ''/'' @ ''/v1/search'') =
        (\<lambda>f. respond (NewServer \<lparr>sc_Port = [], sc_Authorizations = []\<rparr>
          (Search (\<lambda>_. Ok ''0001'') (\<lambda>_. Ok ''tree'') (\<lambda>_ _ _ _ _ _. Ok sample_found))
          (\<lambda>r sw. Panic) (\<lambda>r sw. Panic) (\<lambda>r sw. Panic)) () (search_request None f))"
      by (simp add: fun_eq_iff sample_post_def)
    show "\<forall>v. enc_SearchResults (\<lambda>_. Ok ''0001'') \<lparr>srs_Query = TrimSpace ''mysql'',
            srs_NumResults = int_of_uint64 (ir_Total sample_found), srs_Results = buildSearchResults sample_found\<rparr> = Ok v \<longrightarrow>
          (\<exists>b. Ok ''tree'' = Ok b \<and> Ok sample_tree = Ok v)"
      by (simp add: q total one sample_tree_def)
  qed (simp_all add: q compiled_def allowed_def in_int_def min_int_def max_int_def total
      sample_found_def go_result_image zero_IndexImage_def)
  with q total show ?thesis by simp
qed

section \<open>Connecting with the right credentials\<close>

lemma tryNew_loop_joined:
  "tryNew_loop probe reach True auth inputs = Some (Ok a) \<Longrightarrow> probe a = Joined"
proof (induction inputs arbitrary: auth)
  case Nil
  then show ?case by (simp add: tryNew_loop.simps [of probe reach True auth] split: probe.splits)
next
  case (Cons i inputs)
  from Cons.prems show ?case
    by (auto simp: tryNew_loop.simps [of probe reach True auth] Let_def split: probe.splits res.splits
        dest: Cons.IH)
qed

definition asked :: "AuthConfig \<Rightarrow> (string \<times> string) list \<Rightarrow> nat \<Rightarrow> AuthConfig option" where
  "asked a inputs k = Some (fold (\<lambda>i a. snd (ReadCredentials i a)) (take k inputs) a)"

lemma tryNew_loop_accepts:
  assumes "\<forall>x. reach x = Ok ()"
  shows "k \<le> length inputs \<Longrightarrow> \<forall>j < k. \<exists>e. probe (asked a inputs j) = Refused e \<Longrightarrow>
    probe (asked a inputs k) = Joined \<Longrightarrow>
    tryNew_loop probe reach True (Some a) inputs = Some (Ok (asked a inputs k))"
proof (induction k arbitrary: a inputs)
  case 0
  then show ?case by (simp add: asked_def tryNew_loop.simps [of probe reach True "Some a"])
next
  case (Suc k)
  then obtain i rest where inputs: "inputs = i # rest" by (cases inputs) auto
  have reach: "reach = (\<lambda>_. Ok ())" using assms by auto
  have shift: "asked a (i # rest) (Suc j) = asked (snd (ReadCredentials i a)) rest j" for j
    by (simp add: asked_def)
  have "\<forall>j < k. \<exists>e. probe (asked (snd (ReadCredentials i a)) rest j) = Refused e"
    using Suc.prems(2) by (simp add: inputs flip: shift)
  moreover obtain e where "probe (Some a) = Refused e"
    using Suc.prems(2) by (force simp: asked_def dest: spec [of _ 0])
  ultimately show ?case
    using Suc.IH [of rest "snd (ReadCredentials i a)"] Suc.prems(1,3)
    by (subst tryNew_loop.simps) (simp add: shift inputs reach)
qed

text \<open>
  A client that prompts is only handed out with credentials the registry accepted, however
  often the user was asked; and when every answer before is refused and the \<open>k\<close>-th is accepted,
  it is handed out with what the user had entered by then. A silent client never waits for the
  user (it may hold refused credentials).
\<close>

theorem tryNew_credentials:
  "(Client_New probe reach auth url inputs = Some (Ok c) \<longrightarrow> probe c = Joined) \<and>
   (url \<noteq> [] \<and> (\<forall>x. reach x = Ok ()) \<and> k \<le> length inputs \<and>
      (\<forall>j < k. \<exists>e. probe (asked a inputs j) = Refused e) \<and> probe (asked a inputs k) = Joined \<longrightarrow>
      Client_New probe reach (Some a) url inputs = Some (Ok (asked a inputs k))) \<and>
   Client_SilentNew probe reach auth url inputs \<noteq> None"
proof (intro conjI impI)
  assume "Client_New probe reach auth url inputs = Some (Ok c)"
  then show "probe c = Joined"
    using tryNew_loop_joined [of probe reach auth inputs c]
    by (auto simp: Client_New_def tryNew_def split: if_splits res.splits)
next
  assume "url \<noteq> [] \<and> (\<forall>x. reach x = Ok ()) \<and> k \<le> length inputs \<and>
      (\<forall>j < k. \<exists>e. probe (asked a inputs j) = Refused e) \<and> probe (asked a inputs k) = Joined"
  then show "Client_New probe reach (Some a) url inputs = Some (Ok (asked a inputs k))"
    using tryNew_loop_accepts [of reach k inputs probe a] by (simp add: Client_New_def tryNew_def)
next
  show "Client_SilentNew probe reach auth url inputs \<noteq> None"
    by (auto simp: Client_SilentNew_def tryNew_def tryNew_loop.simps split: res.splits probe.splits)
qed

definition sample_probe :: "AuthConfig option \<Rightarrow> probe" where
  "sample_probe a = (if a = Some \<lparr>auth_Username = ''bob'', auth_Password = ''pw''\<rparr> then Joined else Refused ''401'')"

theorem tryNew_credentials_witness:
  "Client_New sample_probe (\<lambda>_. Ok ()) (Some \<lparr>auth_Username = ''bob'', auth_Password = []\<rparr>) ''https://hub''
     [([], ''x''), ([], ''pw'')] = Some (Ok (Some \<lparr>auth_Username = ''bob'', auth_Password = ''pw''\<rparr>))"
proof -
  let ?a = "\<lparr>auth_Username = ''bob'', auth_Password = []\<rparr>" and ?is = "[([], ''x''), ([], ''pw'')]"
  have asked: "asked ?a ?is 0 = Some ?a" "asked ?a ?is 1 = Some \<lparr>auth_Username = ''bob'', auth_Password = ''x''\<rparr>"
    "asked ?a ?is 2 = Some \<lparr>auth_Username = ''bob'', auth_Password = ''pw''\<rparr>"
    by (simp_all add: asked_def ReadCredentials_def askUsername_def askPassword_def ask_def)
  have "\<forall>j < 2. \<exists>e. sample_probe (asked ?a ?is j) = Refused e"
    using asked by (auto simp: less_2_cases_iff sample_probe_def)
  then show ?thesis
    using tryNew_credentials [of sample_probe "\<lambda>_. Ok ()" None "''https://hub''" ?is None 2 ?a] asked
    by (simp add: sample_probe_def)
qed

end
