(* ===== verification/Catalog.thy ===== *)
theory Catalog
  imports RegistryClient
begin

text \<open>
  \<open>WalkRepositories\<close> (\<open>lib/registry/registry.go\<close>): the goroutine that lists the repositories of
  the registry page by page and sends them on a channel in the order it meets them; the list of
  what it sends is its result, \<open>None\<close> when it never ends.
\<close>

text \<open>How a call of \<open>Repositories\<close> ends: a page, the last page, or a failure.\<close>

datatype listing = More | LastPage | Failed

text \<open>The repository object of a name, if the name is well formed and the client can make it.\<close>

definition open_repository ::
    "'n names \<Rightarrow> ('n option \<Rightarrow> ('m, 'r) services res) \<Rightarrow> string \<Rightarrow> ('m, 'r) RepositoryImpl option" where
  "open_repository nm connect name =
     (case nm_ParseNamed nm name of
        Ok n \<Rightarrow> (case NewRepository connect (Some n) of Ok rp \<Rightarrow> Some rp | _ \<Rightarrow> None)
      | _ \<Rightarrow> None)"

text \<open>
  The loop. The calls are numbered by \<open>k\<close>, so that a call may fail and the next one succeed; \<open>lst\<close>
  is the last name met. A failed call is made again.
\<close>

partial_function (option) WalkRepositories ::
    "(nat \<Rightarrow> string \<Rightarrow> string list \<times> listing) \<Rightarrow> (string \<Rightarrow> 'p option) \<Rightarrow> nat \<Rightarrow> string \<Rightarrow> 'p list \<Rightarrow>
     'p list option" where
  "WalkRepositories page open_repo k lst sent =
     (case page k lst of (registries, outcome) \<Rightarrow>
        if outcome = Failed then WalkRepositories page open_repo (Suc k) lst sent
        else
          (let sent' = sent @ List.map_filter open_repo registries;
               lst' = (if registries = [] then lst else last registries)
           in if outcome = LastPage then Some sent'
              else WalkRepositories page open_repo (Suc k) lst' sent'))"

section \<open>Against a registry with a sorted catalogue\<close>

text \<open>The documented listing: at most 20 of the names after the last one, the last page being
  marked; some calls may fail.\<close>

definition catalog_page :: "string list \<Rightarrow> (nat \<Rightarrow> bool) \<Rightarrow> nat \<Rightarrow> string \<Rightarrow> string list \<times> listing" where
  "catalog_page names fails k lst =
     (if fails k then ([], Failed)
      else (let rest = filter (\<lambda>n. lst < n) names
            in (take 20 rest, if length rest \<le> 20 then LastPage else More)))"

lemma filter_after_take:
  fixes xs :: "'a::linorder list"
  assumes "sorted xs" "distinct xs" "0 < n" "n \<le> length xs"
  shows "filter (\<lambda>x. last (take n xs) < x) xs = drop n xs"
proof -
  have "last (take n xs) = xs ! (n - 1)"
    using assms(3,4) by (cases n) (auto simp: take_Suc_conv_app_nth)
  moreover have "\<forall>x \<in> set (take n xs). \<not> xs ! (n - 1) < x"
  proof
    fix x assume "x \<in> set (take n xs)"
    then obtain i where "i < n" "x = xs ! i" by (auto simp: in_set_conv_nth)
    then show "\<not> xs ! (n - 1) < x" using assms by (auto simp: not_less intro!: sorted_nth_mono)
  qed
  moreover have "\<forall>x \<in> set (drop n xs). xs ! (n - 1) < x"
  proof
    fix x assume "x \<in> set (drop n xs)"
    then obtain i where i: "i < length xs - n" "x = xs ! (n + i)" by (auto simp: in_set_conv_nth)
    then have "xs ! (n - 1) \<le> x" using assms by (auto intro!: sorted_nth_mono)
    moreover have "xs ! (n - 1) \<noteq> x" using i assms by (auto simp: nth_eq_iff_index_eq)
    ultimately show "xs ! (n - 1) < x" by simp
  qed
  ultimately have "filter (\<lambda>x. last (take n xs) < x) (take n xs @ drop n xs) = drop n xs"
    by (simp only: filter_append filter_False filter_True append_Nil)
  then show ?thesis by simp
qed

lemma map_filter_append: "List.map_filter f (xs @ ys) = List.map_filter f xs @ List.map_filter f ys"
  by (induction xs) (auto simp: map_filter_simps split: option.splits)

lemma walk_catalog:
  assumes "sorted names" "distinct names" "\<forall>k \<ge> K. \<not> fails k"
  shows "WalkRepositories (catalog_page names fails) open_repo k lst sent =
    Some (sent @ List.map_filter open_repo (filter (\<lambda>n. lst < n) names))"
proof (induction "length (filter (\<lambda>n. lst < n) names) + (K - k)" arbitrary: k lst sent rule: less_induct)
  case less
  let ?rest = "filter (\<lambda>n. lst < n) names"
  consider (failed) "fails k" | (last) "\<not> fails k" "length ?rest \<le> 20" | (more) "\<not> fails k" "20 < length ?rest"
    by linarith
  then show ?case
  proof cases
    case failed
    with assms(3) have "k < K" by (meson not_less)
    with failed less [of lst "Suc k"] show ?thesis
      by (subst WalkRepositories.simps) (simp add: catalog_page_def)
  next
    case last
    then show ?thesis by (subst WalkRepositories.simps) (simp add: catalog_page_def Let_def)
  next
    case more
    let ?l = "last (take 20 ?rest)"
    have "take 20 ?rest \<noteq> []" using more by auto
    then have "?l \<in> set ?rest" by (meson in_set_takeD last_in_set)
    then have l: "lst < ?l" by simp
    have "filter (\<lambda>n. ?l < n) names = filter (\<lambda>n. ?l < n) ?rest"
      using l by (auto simp: intro!: filter_cong)
    also have "\<dots> = drop 20 ?rest"
      using assms(1,2) more by (intro filter_after_take) (auto intro: sorted_wrt_filter)
    finally have after: "filter (\<lambda>n. ?l < n) names = drop 20 ?rest" .
    have "WalkRepositories (catalog_page names fails) open_repo k lst sent =
      WalkRepositories (catalog_page names fails) open_repo (Suc k) ?l (sent @ List.map_filter open_repo (take 20 ?rest))"
      using more by (subst WalkRepositories.simps) (auto simp: catalog_page_def Let_def)
    also have "\<dots> = Some (sent @ List.map_filter open_repo (take 20 ?rest) @ List.map_filter open_repo (drop 20 ?rest))"
      using less [of ?l "Suc k"] more by (simp add: after)
    finally show ?thesis by (simp flip: map_filter_append)
  qed
qed

lemma Nil_less: "a \<noteq> [] \<Longrightarrow> [] < (a :: string)"
  by (cases a) auto

lemma filter_nonempty: "[] \<notin> set names \<Longrightarrow> filter (\<lambda>n. [] < n) names = names" for names :: "string list"
  by (induction names) (auto simp: Nil_less)

text \<open>
  C23: against a registry whose catalogue is sorted and that fails only finitely often, the walk
  ends, and it sends every repository that can be opened exactly once, in the order of the
  catalogue, whatever the number of pages and wherever the failures are.
\<close>

theorem WalkRepositories_complete:
  assumes "sorted names" and "distinct names" and "[] \<notin> set names" and "\<forall>k \<ge> K. \<not> fails k"
  shows "WalkRepositories (catalog_page names fails) (open_repository nm connect) 0 [] [] =
    Some (List.map_filter (open_repository nm connect) names)"
  by (simp add: walk_catalog [OF assms(1,2,4)] filter_nonempty [OF assms(3)])

definition sample_names :: "string names" where
  "sample_names = \<lparr>nm_ParseNamed = (\<lambda>s. if s = ''B'' then Err ''bad'' else Ok s), nm_Name = (\<lambda>n. n),
     nm_Hostname = (\<lambda>n. ''hub''), nm_Tag = (\<lambda>n. None), nm_RefTag = (\<lambda>n. [])\<rparr>"

definition sample_services :: "string \<Rightarrow> (unit, unit) services" where
  "sample_services name =
     \<lparr>sv_Named = name, sv_AllTags = (\<lambda>_. Ok []), sv_GetTag = (\<lambda>_ _. Err ''unknown''), sv_Manifests = Ok (),
      sv_GetManifest = (\<lambda>_ _ _. Err ''unknown''), sv_ConfigDigest = (\<lambda>_. Err ''bad''),
      sv_GetBlob = (\<lambda>_ _. Err ''unknown''), sv_FillImage = (\<lambda>_. Ok), sv_Delete = (\<lambda>_ r _. (r, Ok ()))\<rparr>"

theorem WalkRepositories_complete_witness:
  "WalkRepositories (catalog_page [''A'', ''B'', ''C''] (\<lambda>k. k < 2))
     (open_repository sample_names (\<lambda>n. Ok (sample_services (case n of Some s \<Rightarrow> s | None \<Rightarrow> [])))) 0 [] [] =
   Some [\<lparr>rp_services = sample_services ''A'', rp_mfs = None\<rparr>, \<lparr>rp_services = sample_services ''C'', rp_mfs = None\<rparr>]"
proof -
  have "sorted [''A'', ''B'', ''C'']" "distinct [''A'', ''B'', ''C'']" "[] \<notin> set [''A'', ''B'', ''C'']"
    and "\<forall>k \<ge> (2::nat). \<not> k < 2"
    by (simp_all add: less_eq_char_def)
  from WalkRepositories_complete [OF this, of sample_names "\<lambda>n. Ok (sample_services (case n of Some s \<Rightarrow> s | None \<Rightarrow> []))"]
  show ?thesis
    by (simp add: map_filter_simps open_repository_def sample_names_def NewRepository_def)
qed

lemma walk_answers:
  assumes "WalkRepositories page open_repo k lst sent = Some r"
  shows "\<exists>j. snd (page j lst) \<noteq> Failed"
proof (rule WalkRepositories.raw_induct [OF _ assms, of "\<lambda>page open_repo k lst sent r. \<exists>j. snd (page j lst) \<noteq> Failed"])
  fix W :: "(nat \<Rightarrow> string \<Rightarrow> string list \<times> listing) \<Rightarrow> (string \<Rightarrow> 'a option) \<Rightarrow> nat \<Rightarrow> string \<Rightarrow> 'a list \<Rightarrow> 'a list option"
    and page open_repo k lst sent r
  assume IH: "\<And>page open_repo k lst sent r. W page open_repo k lst sent = Some r \<Longrightarrow> \<exists>j. snd (page j lst) \<noteq> Failed"
    and r: "(case page k lst of (registries, outcome) \<Rightarrow>
        if outcome = Failed then W page open_repo (Suc k) lst sent
        else
          (let sent' = sent @ List.map_filter open_repo registries;
               lst' = (if registries = [] then lst else last registries)
           in if outcome = LastPage then Some sent' else W page open_repo (Suc k) lst' sent')) = Some r"
  show "\<exists>j. snd (page j lst) \<noteq> Failed"
  proof (cases "snd (page k lst) = Failed")
    case True
    then have "W page open_repo (Suc k) lst sent = Some r"
      using r by (simp split: prod.splits)
    then show ?thesis by (rule IH)
  qed blast
qed

text \<open>
  A registry that fails for ever keeps the goroutine busy for ever: the same listing is asked
  for again and again, the walk has no result, and the channel of repositories is never closed.
\<close>

theorem WalkRepositories_endless:
  assumes "\<forall>j. snd (page j lst) = Failed"
  shows "WalkRepositories page open_repo k lst sent = None"
  using assms walk_answers [of page open_repo k lst sent]
  by (cases "WalkRepositories page open_repo k lst sent") auto

theorem WalkRepositories_endless_witness:
  "WalkRepositories (\<lambda>_ _. ([], Failed)) (\<lambda>n. Some n) 0 [] [] = None"
  by (rule WalkRepositories_endless) simp

end
