(* ===== verification/Printers.thy ===== *)
theory Printers
  imports Prelude
begin

text \<open>
  The printers of the command line (\<open>cli/tabprinter.go\<close>, \<open>cli/template_printer.go\<close>). A printer
  keeps the rows it was given and how many it has printed; what it writes is part of the result
  of an operation. The key a user presses before a row is printed is not modelled, and what a call wrote
  before one of its rows failed is not kept: the call gives the error alone.
\<close>

section \<open>The contract\<close>

locale row_printer =
  fixes append :: "'r \<Rightarrow> 'p \<Rightarrow> 'p"
    and print_all :: "bool \<Rightarrow> 'p \<Rightarrow> ('p \<times> string) res"
    and printed :: "'p \<Rightarrow> 'r list"
    and pending :: "'p \<Rightarrow> 'r list"
    and wf :: "'p \<Rightarrow> bool"
  assumes append_rows: "wf p \<Longrightarrow> wf (append r p) \<and> printed (append r p) = printed p \<and> pending (append r p) = pending p @ [r]"
    and print_all_rows: "wf p \<Longrightarrow> print_all wait p = Ok (p', out) \<Longrightarrow>
      wf p' \<and> printed p' = printed p @ pending p \<and> pending p' = []"
begin

lemma append_all:
  "wf p \<Longrightarrow> wf (fold append rs p) \<and> printed (fold append rs p) = printed p \<and>
    pending (fold append rs p) = pending p @ rs"
  by (induction rs arbitrary: p) (auto simp: append_rows)

text \<open>A page of rows handed over and printed comes after what was printed before.\<close>

lemma print_page:
  "wf p \<Longrightarrow> pending p = [] \<Longrightarrow> print_all wait (fold append rs p) = Ok (p', out) \<Longrightarrow>
   wf p' \<and> printed p' = printed p @ rs \<and> pending p' = []"
  using append_all [of p rs] print_all_rows [of "fold append rs p" wait p' out] by auto

end

section \<open>Columns\<close>

text \<open>Cutting a text to fewer than three characters makes an index negative.\<close>

definition format :: "string \<Rightarrow> int \<Rightarrow> string res" where
  "format s len =
     (if int (length s) = len then Ok s
      else if int (length s) < len then Ok (s @ replicate (nat (len - int (length s))) (CHR '' ''))
      else if len < 3 then Panic
      else Ok (take (nat len - 3) s @ ''...''))"

record TabPrinter =
  tp_widths :: "int list option"
  tp_rows :: "string list list"
  tp_position :: nat
  tp_Separator :: char
  tp_Width :: int
  tp_Wait :: bool
  tp_Template :: string

definition rowTemplate :: string where
  "rowTemplate = ''{{range $i, $r := .}}'' @ [char_of (10::nat)]
     @ ''{{- if gt $i 0}}{{sep}}{{end}}{{format $r $i}}'' @ [char_of (10::nat)] @ ''{{- end}}''"

type_synonym TabPrinterOption = "TabPrinter \<Rightarrow> TabPrinter"

definition NewTabPrinter :: "TabPrinterOption list \<Rightarrow> TabPrinter" where
  "NewTabPrinter options = fold (\<lambda>opt tp. opt tp) options
     \<lparr>tp_widths = None, tp_rows = [], tp_position = 0, tp_Separator = char_of (9::nat), tp_Width = 80,
      tp_Wait = False, tp_Template = rowTemplate\<rparr>"

definition WithSeparator :: "char \<Rightarrow> TabPrinterOption" where
  "WithSeparator sep tp = tp\<lparr>tp_Separator := sep\<rparr>"

definition WithWidth :: "int \<Rightarrow> TabPrinterOption" where
  "WithWidth w tp = tp\<lparr>tp_Width := w\<rparr>"

definition WithTemplate :: "string \<Rightarrow> TabPrinterOption" where
  "WithTemplate t tp = tp\<lparr>tp_Template := t\<rparr>"

definition Tab_Append :: "string list \<Rightarrow> TabPrinter \<Rightarrow> TabPrinter" where
  "Tab_Append row tp = tp\<lparr>tp_rows := tp_rows tp @ [row]\<rparr>"

definition Tab_BulkAppend :: "string list list \<Rightarrow> TabPrinter \<Rightarrow> TabPrinter" where
  "Tab_BulkAppend rows tp = tp\<lparr>tp_rows := tp_rows tp @ rows\<rparr>"

section \<open>Computing the widths\<close>

text \<open>
  The average length of the non-blank texts of each column, column by column: the two arrays of
  the code are a list of pairs of a width and a number of entries. Writing beyond the columns of
  the first row is out of range.
\<close>

fun width_row :: "nat \<Rightarrow> string list \<Rightarrow> (int \<times> int) list \<Rightarrow> (int \<times> int) list res" where
  "width_row i [] ws = Ok ws"
| "width_row i (s # row) ws =
     (let len = int (length (TrimSpace s))
      in if len > 0 then
           (if i < length ws then
              (let (w, e) = ws ! i
               in width_row (Suc i) row (ws[i := ((w * e + len) div (e + 1), e + 1)]))
            else Panic)
         else width_row (Suc i) row ws)"

fun width_rows :: "string list list \<Rightarrow> (int \<times> int) list \<Rightarrow> (int \<times> int) list res" where
  "width_rows [] ws = Ok ws"
| "width_rows (row # rows) ws = res_bind (width_row 0 row ws) (width_rows rows)"

text \<open>Division truncates towards zero.\<close>

definition quot :: "int \<Rightarrow> int \<Rightarrow> int" where
  "quot a b = (if a < 0 then - ((- a) div b) else a div b)"

definition computeWidths :: "TabPrinter \<Rightarrow> TabPrinter res" where
  "computeWidths tp =
     (case tp_widths tp of
        Some _ \<Rightarrow> Ok tp
      | None \<Rightarrow>
        (case tp_rows tp of
           [] \<Rightarrow> Panic
         | row # _ \<Rightarrow>
             res_bind (width_rows (tp_rows tp) (replicate (length row) (0, 0))) (\<lambda>ws.
               (let widths = map fst ws;
                    fullwidth = sum_list widths;
                    width = tp_Width tp - int (length row) + 1
                in if fullwidth = 0 \<and> widths \<noteq> [] then Panic
                   else Ok (tp\<lparr>tp_widths := Some (map (\<lambda>w. quot (w * width) fullwidth) widths)\<rparr>)))))"

section \<open>Printing\<close>

text \<open>A byte converted to a string is the UTF-8 text of the character with that number.\<close>

definition byte_text :: "char \<Rightarrow> string" where
  "byte_text c =
     (let k = of_char c :: nat
      in if k < 128 then [c] else [char_of (192 + k div 64), char_of (128 + k mod 64)])"

definition format_column :: "TabPrinter \<Rightarrow> string \<Rightarrow> nat \<Rightarrow> string res" where
  "format_column tp s i =
     (case tp_widths tp of
        None \<Rightarrow> Panic
      | Some widths \<Rightarrow> if i < length widths then format s (widths ! i) else Panic)"

text \<open>The row template: the columns, the separator between them.\<close>

fun row_from :: "TabPrinter \<Rightarrow> nat \<Rightarrow> string list \<Rightarrow> string res" where
  "row_from tp i [] = Ok []"
| "row_from tp i (r # rs) =
     res_bind (format_column tp r i) (\<lambda>s.
     res_bind (row_from tp (Suc i) rs) (\<lambda>rest.
       Ok ((if i > 0 then byte_text (tp_Separator tp) else []) @ s @ rest)))"

definition print_row :: "TabPrinter \<Rightarrow> string list \<Rightarrow> string res" where
  "print_row tp row = row_from tp 0 row"

text \<open>The loop over the rows that are left; a line feed follows every row but the last when the
  printer does not wait.\<close>

fun print_rows :: "('a \<Rightarrow> string res) \<Rightarrow> bool \<Rightarrow> nat \<Rightarrow> nat \<Rightarrow> 'a list \<Rightarrow> (nat \<times> string) res" where
  "print_rows prn wait n pos [] = Ok (pos, [])"
| "print_rows prn wait n pos (row # rows) =
     (let pos' = Suc pos
      in res_bind (prn row) (\<lambda>out.
         res_bind (print_rows prn wait n pos' rows) (\<lambda>(p, rest).
           Ok (p, out @ (if \<not> wait \<and> pos' \<noteq> n then [char_of (10::nat)] else []) @ rest))))"

definition Tab_PrintAll :: "bool \<Rightarrow> TabPrinter \<Rightarrow> (TabPrinter \<times> string) res" where
  "Tab_PrintAll wait tp =
     res_bind (computeWidths tp) (\<lambda>t.
     res_bind (print_rows (print_row t) wait (length (tp_rows t)) (tp_position t) (drop (tp_position t) (tp_rows t)))
       (\<lambda>(pos, out). Ok (t\<lparr>tp_position := pos\<rparr>, out)))"

section \<open>The template printer\<close>

record 'a TemplatePrinter =
  tm_position :: nat
  tm_rows :: "'a list"
  tm_Wait :: bool
  tm_Template :: string

definition NewTemplatePrinter :: "string \<Rightarrow> 'a TemplatePrinter" where
  "NewTemplatePrinter tpl = \<lparr>tm_position = 0, tm_rows = [], tm_Wait = False, tm_Template = tpl\<rparr>"

definition Tpl_Append :: "'a \<Rightarrow> 'a TemplatePrinter \<Rightarrow> 'a TemplatePrinter" where
  "Tpl_Append row tm = tm\<lparr>tm_rows := tm_rows tm @ [row]\<rparr>"

definition Tpl_BulkAppend :: "'a list \<Rightarrow> 'a TemplatePrinter \<Rightarrow> 'a TemplatePrinter" where
  "Tpl_BulkAppend rows tm = tm\<lparr>tm_rows := tm_rows tm @ rows\<rparr>"

text \<open>\<open>parse\<close> is the template parser: the text of a row, or an error.\<close>

definition Tpl_PrintAll ::
    "(string \<Rightarrow> ('a \<Rightarrow> string res) res) \<Rightarrow> bool \<Rightarrow> 'a TemplatePrinter \<Rightarrow> ('a TemplatePrinter \<times> string) res" where
  "Tpl_PrintAll parse wait tm =
     res_bind (parse (tm_Template tm)) (\<lambda>tpl.
     res_bind (print_rows tpl wait (length (tm_rows tm)) (tm_position tm) (drop (tm_position tm) (tm_rows tm)))
       (\<lambda>(pos, out). Ok (tm\<lparr>tm_position := pos\<rparr>, out)))"

section \<open>Both printers keep the contract\<close>

lemma print_rows_position: "print_rows prn wait n pos rows = Ok (p, out) \<Longrightarrow> p = pos + length rows"
  by (induction rows arbitrary: pos out) (fastforce simp: res_simps Let_def)+

lemma computeWidths_keeps:
  "computeWidths tp = Ok t \<Longrightarrow> tp_rows t = tp_rows tp \<and> tp_position t = tp_position tp"
  by (auto simp: computeWidths_def res_simps Let_def split: option.splits list.splits if_splits)

definition tab_wf :: "TabPrinter \<Rightarrow> bool" where
  "tab_wf tp \<longleftrightarrow> tp_position tp \<le> length (tp_rows tp)"

definition tpl_wf :: "'a TemplatePrinter \<Rightarrow> bool" where
  "tpl_wf tm \<longleftrightarrow> tm_position tm \<le> length (tm_rows tm)"

interpretation tab: row_printer Tab_Append Tab_PrintAll
  "\<lambda>tp. take (tp_position tp) (tp_rows tp)" "\<lambda>tp. drop (tp_position tp) (tp_rows tp)" tab_wf
  by unfold_locales
    (auto simp: Tab_Append_def Tab_PrintAll_def tab_wf_def res_simps
      dest!: computeWidths_keeps print_rows_position)

interpretation tpl: row_printer Tpl_Append "Tpl_PrintAll parse"
  "\<lambda>tm. take (tm_position tm) (tm_rows tm)" "\<lambda>tm. drop (tm_position tm) (tm_rows tm)" tpl_wf
  by unfold_locales
    (auto simp: Tpl_Append_def Tpl_PrintAll_def tpl_wf_def res_simps dest!: print_rows_position)

section \<open>The width of a table\<close>

text \<open>
  A formatted column has exactly the width asked for, and a text that fits is kept whole and
  padded. Only a longer text with less than three characters of room makes it panic.
\<close>

theorem format_spec:
  "(format s len = Panic \<longleftrightarrow> len < int (length s) \<and> len < 3) \<and>
   (\<forall>r. format s len = Ok r \<longrightarrow> int (length r) = len \<and> (int (length s) \<le> len \<longrightarrow> take (length s) r = s))"
  by (auto simp: format_def)

theorem format_spec_witness: "format ''abcdef'' 5 = Ok ''ab...'' \<and> int (length ''ab...'') = 5"
proof -
  have "format ''abcdef'' 5 = Ok ''ab...''" by (simp add: format_def)
  with format_spec [of "''abcdef''" 5] show ?thesis by blast
qed

definition averages :: "(int \<times> int) list \<Rightarrow> bool" where
  "averages ws \<longleftrightarrow> (\<forall>(w, e) \<in> set ws. 0 \<le> w \<and> 0 \<le> e)"

lemma width_row_averages:
  "width_row i row ws = Ok ws' \<Longrightarrow> averages ws \<Longrightarrow> averages ws' \<and> length ws' = length ws"
proof (induction i row ws rule: width_row.induct)
  case (2 i s row ws)
  show ?case
  proof (cases "int (length (TrimSpace s)) > 0 \<and> i < length ws")
    case True
    obtain w e where we: "ws ! i = (w, e)" by fastforce
    then have "0 \<le> w" "0 \<le> e" using 2(4) True by (auto simp: averages_def dest!: nth_mem)
    then have "0 \<le> (w * e + int (length (TrimSpace s))) div (e + 1)"
      by (simp add: div_int_pos_iff)
    with \<open>0 \<le> e\<close> have "averages (ws[i := ((w * e + int (length (TrimSpace s))) div (e + 1), e + 1)])"
      using 2(4) by (auto simp: averages_def dest!: subsetD [OF set_update_subset_insert])
    with 2 True we show ?thesis by (simp add: Let_def)
  qed (use 2 in \<open>auto simp: Let_def split: if_splits\<close>)
qed simp

lemma width_rows_averages:
  "width_rows rows ws = Ok ws' \<Longrightarrow> averages ws \<Longrightarrow> averages ws' \<and> length ws' = length ws"
proof (induction rows arbitrary: ws)
  case (Cons row rows)
  then show ?case using width_row_averages [of 0 row ws] by (fastforce simp: res_simps)
qed simp

lemma sum_shares:
  assumes "\<forall>w \<in> set ws. 0 \<le> (w::int)" "0 \<le> W" "0 < F"
  shows "F * sum_list (map (\<lambda>w. quot (w * W) F) ws) \<le> sum_list ws * W"
  using assms(1)
proof (induction ws)
  case (Cons w ws)
  have "0 \<le> w * W" using Cons.prems assms(2) by simp
  moreover have "F * (w * W div F) \<le> w * W"
    using minus_mod_eq_mult_div [of "w * W" F] pos_mod_sign [OF assms(3), of "w * W"] by linarith
  ultimately have "F * quot (w * W) F \<le> w * W" by (simp add: quot_def)
  with Cons show ?case by (simp add: algebra_simps)
qed simp

lemma computeWidths_sum:
  assumes "computeWidths tp = Ok t" "tp_widths tp = None" "tp_rows tp = row # rows"
    and "int (length row) \<le> tp_Width tp + 1"
  shows "\<exists>widths. tp_widths t = Some widths \<and> length widths = length row \<and> (\<forall>w \<in> set widths. 0 \<le> w) \<and>
    (row \<noteq> [] \<longrightarrow> sum_list widths + int (length row) - 1 \<le> tp_Width tp) \<and> tp_Separator t = tp_Separator tp"
proof -
  let ?W = "tp_Width tp - int (length row) + 1"
  obtain ws where ws: "width_rows (tp_rows tp) (replicate (length row) (0, 0)) = Ok ws"
    and full: "\<not> (sum_list (map fst ws) = 0 \<and> map fst ws \<noteq> [])"
    and t: "t = tp\<lparr>tp_widths := Some (map (\<lambda>w. quot (w * ?W) (sum_list (map fst ws))) (map fst ws))\<rparr>"
    using assms by (auto simp: computeWidths_def res_simps Let_def split: if_splits)
  have avg: "averages ws" "length ws = length row"
    using width_rows_averages [OF ws] by (auto simp: averages_def)
  then have pos: "\<forall>w \<in> set (map fst ws). 0 \<le> w" by (auto simp: averages_def)
  let ?F = "sum_list (map fst ws)"
  have "0 \<le> ?F" using pos by (intro sum_list_nonneg) auto
  have nonneg: "0 \<le> quot (w * ?W) ?F" if "w \<in> set (map fst ws)" for w
    using that pos assms(4) \<open>0 \<le> ?F\<close> by (auto simp: quot_def mult_less_0_iff div_int_pos_iff)
  have "sum_list (map (\<lambda>w. quot (w * ?W) ?F) (map fst ws)) \<le> ?W" if "row \<noteq> []"
  proof -
    have "0 < ?F" using full avg(2) that \<open>0 \<le> ?F\<close> by (cases ws) auto
    moreover have "?F * sum_list (map (\<lambda>w. quot (w * ?W) ?F) (map fst ws)) \<le> ?F * ?W"
      using sum_shares [OF pos, of ?W ?F] assms(4) \<open>0 < ?F\<close> by simp
    ultimately show ?thesis by (simp only: mult_le_cancel_left_pos)
  qed
  with nonneg avg(2) show ?thesis by (auto simp: t)
qed

lemma format_length: "format s len = Ok r \<Longrightarrow> int (length r) = len"
  by (auto simp: format_def split: if_splits)

lemma row_from_length:
  assumes "tp_widths tp = Some widths" "length (byte_text (tp_Separator tp)) = 1"
  shows "row_from tp i row = Ok out \<Longrightarrow>
    i + length row \<le> length widths \<and>
    int (length out) = sum_list (take (length row) (drop i widths)) + int (length row) - (if i = 0 \<and> row \<noteq> [] then 1 else 0)
    \<or> row = []"
proof (induction row arbitrary: i out)
  case (Cons r rs)
  then obtain s rest where s: "format_column tp r i = Ok s" and rest: "row_from tp (Suc i) rs = Ok rest"
    and out: "out = (if i > 0 then byte_text (tp_Separator tp) else []) @ s @ rest"
    by (auto simp: res_simps)
  have i: "i < length widths" "int (length s) = widths ! i"
    using s assms(1) by (auto simp: format_column_def dest: format_length split: if_splits)
  have "take (length (r # rs)) (drop i widths) = widths ! i # take (length rs) (drop (Suc i) widths)"
    using i(1) by (simp add: Cons_nth_drop_Suc [symmetric])
  moreover have "rs = [] \<Longrightarrow> rest = []" using rest by simp
  ultimately show ?case
    using Cons.IH [OF rest] i out assms(2) by (cases "rs = []") auto
qed simp

text \<open>
  C32: a table fits its width. Once the widths have been computed for a printer whose columns and
  separators have room, a printed row is never wider than the width the user asked for.
\<close>

theorem TabPrinter_fits:
  assumes "computeWidths tp = Ok t" and "tp_widths tp = None" and "tp_rows tp = first # rest"
    and "int (length first) \<le> tp_Width tp + 1"
    and "of_char (tp_Separator tp) < (128::nat)" and "print_row t row = Ok out" and "row \<noteq> []"
  shows "int (length out) \<le> tp_Width tp"
proof -
  obtain widths where w: "tp_widths t = Some widths" "length widths = length first" "\<forall>w \<in> set widths. 0 \<le> w"
    "first \<noteq> [] \<longrightarrow> sum_list widths + int (length first) - 1 \<le> tp_Width tp" "tp_Separator t = tp_Separator tp"
    using computeWidths_sum [OF assms(1-4)] by blast
  have "length (byte_text (tp_Separator t)) = 1" using assms(5) by (simp add: byte_text_def w(5))
  from row_from_length [OF w(1) this, of 0 row out] assms(6,7)
  have len: "length row \<le> length first" "int (length out) = sum_list (take (length row) widths) + int (length row) - 1"
    by (auto simp: print_row_def w(2))
  have "sum_list widths = sum_list (take (length row) widths) + sum_list (drop (length row) widths)"
    by (metis append_take_drop_id sum_list_append)
  moreover have "0 \<le> sum_list (drop (length row) widths)"
    using w(3) by (intro sum_list_nonneg) (auto dest: in_set_dropD)
  moreover have "first \<noteq> []" using len(1) assms(7) by auto
  ultimately show ?thesis using len w(4) by simp
qed

definition sample_tab :: TabPrinter where
  "sample_tab = Tab_Append [''mysql'', ''5.7''] (Tab_Append [''Name'', ''Tag''] (NewTabPrinter [WithWidth 20]))"

lemma sample_widths:
  "computeWidths sample_tab = Ok (sample_tab\<lparr>tp_widths := Some [10, 8]\<rparr>)"
  "tp_widths sample_tab = None" "tp_rows sample_tab = [[''Name'', ''Tag''], [''mysql'', ''5.7'']]"
  "tp_Width sample_tab = 20" "tp_Separator sample_tab = char_of (9::nat)"
  by (simp_all add: sample_tab_def computeWidths_def Tab_Append_def NewTabPrinter_def WithWidth_def
      TrimSpace_visible visible_def quot_def numeral_2_eq_2 eval_nat_numeral)

theorem TabPrinter_fits_witness:
  "\<exists>out. print_row (sample_tab\<lparr>tp_widths := Some [10, 8]\<rparr>) [''mysql'', ''5.7''] = Ok out \<and> int (length out) \<le> 20"
proof -
  obtain out where out: "print_row (sample_tab\<lparr>tp_widths := Some [10, 8]\<rparr>) [''mysql'', ''5.7''] = Ok out"
    by (simp add: print_row_def format_column_def format_def)
  have "of_char (tp_Separator sample_tab) < (128::nat)" by (simp add: sample_widths)
  from TabPrinter_fits [OF sample_widths(1,2,3) _ this out] out show ?thesis by (simp add: sample_widths)
qed

section \<open>What a page prints\<close>

text \<open>The texts of the rows: on lines of their own, or one after the other when the printer waits
  for the user, whose key ends the line.\<close>

definition page_text :: "bool \<Rightarrow> string list \<Rightarrow> string" where
  "page_text wait ts = (if wait then concat ts else Join ts [char_of (10::nat)])"

lemma print_rows_text:
  "print_rows prn wait n pos rows = Ok (p, out) \<Longrightarrow> n = pos + length rows \<Longrightarrow>
   \<exists>ts. list_all2 (\<lambda>r t. prn r = Ok t) rows ts \<and> out = page_text wait ts"
proof (induction rows arbitrary: pos out)
  case (Cons row rows)
  then obtain t rest where t: "prn row = Ok t" "print_rows prn wait n (Suc pos) rows = Ok (p, rest)"
    and out: "out = t @ (if \<not> wait \<and> Suc pos \<noteq> n then [char_of (10::nat)] else []) @ rest"
    by (auto simp: res_simps Let_def)
  obtain ts where ts: "list_all2 (\<lambda>r t. prn r = Ok t) rows ts" "rest = page_text wait ts"
    using Cons.IH [OF t(2)] Cons.prems(2) by auto
  have "Suc pos \<noteq> n \<longleftrightarrow> ts \<noteq> []" using Cons.prems(2) list_all2_lengthD [OF ts(1)] by auto
  then have "out = page_text wait (t # ts)" using out ts(2) by (cases ts) (auto simp: page_text_def)
  with t(1) ts(1) show ?case by (intro exI [of _ "t # ts"]) simp
qed (simp add: page_text_def)

text \<open>
  Each page of a search is printed once. Rows appended to a printer that has printed all it
  had are what the next call prints, each with its own text and in their order, and nothing is
  left to print; this holds for the table, under the widths computed first, and the same contract
  is proved for the template printer.
\<close>

theorem Tab_PrintAll_page:
  assumes "tab_wf p" and "drop (tp_position p) (tp_rows p) = []"
    and "Tab_PrintAll wait (fold Tab_Append rows p) = Ok (p', out)"
  shows "tab_wf p' \<and> take (tp_position p') (tp_rows p') = take (tp_position p) (tp_rows p) @ rows \<and>
    drop (tp_position p') (tp_rows p') = [] \<and>
    (\<exists>t ts. computeWidths (fold Tab_Append rows p) = Ok t \<and> list_all2 (\<lambda>r s. print_row t r = Ok s) rows ts \<and>
       out = page_text wait ts)"
proof -
  let ?p = "fold Tab_Append rows p"
  have all: "tab_wf ?p" "drop (tp_position ?p) (tp_rows ?p) = rows"
    using tab.append_all [OF assms(1), of rows] assms(2) by auto
  obtain t pos where t: "computeWidths ?p = Ok t"
    "print_rows (print_row t) wait (length (tp_rows t)) (tp_position t) (drop (tp_position t) (tp_rows t)) = Ok (pos, out)"
    using assms(3) by (auto simp: Tab_PrintAll_def res_simps)
  have keeps: "tp_rows t = tp_rows ?p" "tp_position t = tp_position ?p"
    using computeWidths_keeps [OF t(1)] by auto
  have "length (tp_rows ?p) = tp_position ?p + length rows"
    using all by (metis le_add_diff_inverse length_drop tab_wf_def)
  then obtain ts where "list_all2 (\<lambda>r s. print_row t r = Ok s) rows ts" "out = page_text wait ts"
    using print_rows_text [OF t(2)] all keeps by auto
  with t(1) tab.print_page [OF assms] show ?thesis by blast
qed

theorem Tab_PrintAll_page_witness:
  "\<exists>p' out. Tab_PrintAll False (fold Tab_Append [[''Name'', ''Tag''], [''mysql'', ''5.7'']] (NewTabPrinter [WithWidth 20])) = Ok (p', out) \<and>
     take (tp_position p') (tp_rows p') = [[''Name'', ''Tag''], [''mysql'', ''5.7'']]"
proof -
  let ?p = "NewTabPrinter [WithWidth 20]" and ?rows = "[[''Name'', ''Tag''], [''mysql'', ''5.7'']]"
  have wf: "tab_wf ?p" "drop (tp_position ?p) (tp_rows ?p) = []" "take (tp_position ?p) (tp_rows ?p) = []"
    by (simp_all add: tab_wf_def NewTabPrinter_def WithWidth_def)
  have sample: "fold Tab_Append ?rows ?p = sample_tab" by (simp add: sample_tab_def)
  have "tp_position sample_tab = 0" by (simp add: sample_tab_def Tab_Append_def NewTabPrinter_def WithWidth_def)
  then obtain p' out where out: "Tab_PrintAll False (fold Tab_Append ?rows ?p) = Ok (p', out)"
    unfolding sample
    by (simp add: Tab_PrintAll_def sample_widths print_row_def format_column_def format_def Let_def)
  from Tab_PrintAll_page [OF wf(1,2) out] wf(3) out show ?thesis by auto
qed

end
