(* ===== verification/SearchCmd.thy ===== *)
theory SearchCmd
  imports Printers RegistryClient Durations
begin

text \<open>
  The search command (\<open>cmd/search.go\<close>): it fetches the results page by page, hands each page to
  a printer and lets it print. \<open>search\<close> is the client's search for the query, given an offset.
  The loop over the pages asks the server how many results there are at every turn and may run
  for ever: it is a partial function whose result is then \<open>None\<close>.
\<close>

section \<open>Rows\<close>

definition intToStringSlice :: "int list \<Rightarrow> string list" where
  "intToStringSlice iSlice = map Itoa iSlice"

text \<open>The row \<open>printAppend\<close> makes of a result for a table, at the time \<open>now\<close>.\<close>

definition result_row :: "gotime \<Rightarrow> SearchResult \<Rightarrow> string list" where
  "result_row now r =
     [sr_Name r, sr_Tag r, ParseDuration (clamp_int (now - sr_Created r)), FlatMap (sr_Label r),
      Join (sr_Volumes r) '','', Join (intToStringSlice (sr_ExposedPorts r)) '','']"

definition table_header :: "string list" where
  "table_header = [''Name'', ''Tag'', ''Created'', ''Labels'', ''Volumes'', ''Ports'']"

definition guessTemplate :: "bool \<Rightarrow> string \<Rightarrow> string" where
  "guessTemplate quiet tpl = (if quiet then ''{{.FullName}}'' else tpl)"

section \<open>The loop over the pages\<close>

text \<open>The result holds the printer, what was written, and the error the command returns.\<close>

partial_function (option) search_loop ::
    "(int \<Rightarrow> SearchResults res) \<Rightarrow> (SearchResult \<Rightarrow> 'r) \<Rightarrow> ('r \<Rightarrow> 'p \<Rightarrow> 'p) \<Rightarrow>
     (bool \<Rightarrow> 'p \<Rightarrow> ('p \<times> string) res) \<Rightarrow> bool \<Rightarrow> int \<Rightarrow> int \<Rightarrow> 'p \<Rightarrow> string \<Rightarrow>
     ('p \<times> string \<times> unit res) option" where
  "search_loop search row add print_all unlimited num fetched p out =
     (if num > fetched then
        (let out = (if unlimited then out @ newline else out)
         in case search fetched of
              Err e \<Rightarrow> Some (p, out, Err (''Failed to search images : '' @ e))
            | Panic \<Rightarrow> Some (p, out, Panic)
            | Ok results \<Rightarrow>
                (let p = fold add (map row (srs_Results results)) p
                 in case print_all (\<not> unlimited) p of
                      Err e \<Rightarrow> Some (p, out, Err e)
                    | Panic \<Rightarrow> Some (p, out, Panic)
                    | Ok (p, text) \<Rightarrow>
                        search_loop search row add print_all unlimited (srs_NumResults results)
                          (fetched + int (length (srs_Results results))) p (out @ text)))
      else Some (p, out, Ok ()))"

text \<open>The command after it has connected: the first page, the printer, the other pages. The last
  component of the result is what goes to the error stream.\<close>

definition show_results ::
    "(int \<Rightarrow> SearchResults res) \<Rightarrow> (SearchResult \<Rightarrow> 'r) \<Rightarrow> ('r \<Rightarrow> 'p \<Rightarrow> 'p) \<Rightarrow>
     (bool \<Rightarrow> 'p \<Rightarrow> ('p \<times> string) res) \<Rightarrow> bool \<Rightarrow> SearchResults \<Rightarrow> 'p \<Rightarrow>
     ('p \<times> string \<times> unit res) option" where
  "show_results search row add print_all unlimited results p =
     (let p = fold add (map row (srs_Results results)) p
      in case print_all False p of
           Err e \<Rightarrow> Some (p, [], Err e)
         | Panic \<Rightarrow> Some (p, [], Panic)
         | Ok (p, text) \<Rightarrow>
             (case search_loop search row add print_all unlimited (srs_NumResults results)
                     (int (length (srs_Results results))) p text of
                None \<Rightarrow> None
              | Some (p, out, Ok _) \<Rightarrow> Some (p, out @ newline, Ok ())
              | r \<Rightarrow> r))"

record search_flags =
  fl_advanced :: bool
  fl_unlimited :: bool
  fl_width :: int
  fl_quiet :: bool
  fl_template :: string

text \<open>\<open>connect\<close> is the outcome of connecting to the registry: the search of its client, given the
  two queries and an offset. The result: standard output, error stream, returned error.\<close>

definition runSearch ::
    "(string \<Rightarrow> string \<Rightarrow> int \<Rightarrow> SearchResults res) res \<Rightarrow> (string \<Rightarrow> (SearchResult \<Rightarrow> string res) res) \<Rightarrow>
     gotime \<Rightarrow> search_flags \<Rightarrow> string list \<Rightarrow> (string \<times> string \<times> unit res) option" where
  "runSearch connect parse now fl args =
     (case args of
        [] \<Rightarrow> Some ([], [], Err ''query is missing'')
      | query # _ \<Rightarrow>
        (case connect of
           Err e \<Rightarrow> Some ([], [], Err (''Failed to connect to registry : '' @ e))
         | Panic \<Rightarrow> Some ([], [], Panic)
         | Ok client \<Rightarrow>
           (let (q, a) = (if fl_advanced fl then ([], query) else (query, []));
                search = client q a
            in case search 0 of
                 Err e \<Rightarrow> Some ([], [], Err (''Failed to search images : '' @ e))
               | Panic \<Rightarrow> Some ([], [], Panic)
               | Ok results \<Rightarrow>
                 if srs_NumResults results > 0 then
                   (let err = Itoa (srs_NumResults results) @ '' results found :'' @ newline;
                        template = guessTemplate (fl_quiet fl) (fl_template fl)
                    in map_option (\<lambda>(out, e). (out, err, e))
                      (if template = [] then
                         map_option snd (show_results search (result_row now) Tab_Append Tab_PrintAll (fl_unlimited fl)
                           results (Tab_Append table_header (NewTabPrinter [WithWidth (fl_width fl)])))
                       else
                         map_option snd (show_results search (\<lambda>r. r) Tpl_Append (Tpl_PrintAll parse) (fl_unlimited fl)
                           results (NewTemplatePrinter template))))
                 else Some ([], ''No result found'' @ newline, Ok ()))))"

section \<open>Every result is printed once\<close>

text \<open>A server that has the results \<open>rs\<close> and answers pages of at most \<open>n\<close>.\<close>

definition serves :: "(int \<Rightarrow> SearchResults res) \<Rightarrow> nat \<Rightarrow> SearchResult list \<Rightarrow> bool" where
  "serves search n rs \<longleftrightarrow> 0 < n \<and> (\<forall>k \<le> length rs. \<exists>r. search (int k) = Ok r \<and>
     srs_NumResults r = int (length rs) \<and> srs_Results r = take n (drop k rs))"

context row_printer
begin

lemma search_loop_pages:
  assumes "serves search n rs"
  shows "k \<le> length rs \<Longrightarrow> wf p \<Longrightarrow> pending p = [] \<Longrightarrow>
    \<exists>p' out' e. search_loop search row append print_all unlimited (int (length rs)) (int k) p out = Some (p', out', e) \<and>
      (e = Ok () \<longrightarrow> wf p' \<and> pending p' = [] \<and> printed p' = printed p @ map row (drop k rs))"
proof (induction "length rs - k" arbitrary: k p out rule: less_induct)
  case less
  show ?case
  proof (cases "k < length rs")
    case False
    with less.prems show ?thesis
      by (subst search_loop.simps) (simp del: fold.simps)
  next
    case True
    obtain r where r: "search (int k) = Ok r" "srs_NumResults r = int (length rs)"
      "srs_Results r = take n (drop k rs)" and n: "0 < n"
      using assms less.prems(1) by (auto simp: serves_def)
    let ?p = "fold append (map row (srs_Results r)) p"
    let ?k = "k + length (take n (drop k rs))"
    have k: "int ?k = int k + int (length (srs_Results r))" "?k \<le> length rs" "length rs - ?k < length rs - k"
      using True n by (auto simp: r)
    show ?thesis
    proof (cases "print_all (\<not> unlimited) ?p")
      case (Ok po)
      obtain p' txt1 where po: "po = (p', txt1)" by fastforce
      from print_page [OF less.prems(2,3) Ok [unfolded po]]
      have p': "wf p'" "pending p' = []" "printed p' = printed p @ map row (take n (drop k rs))"
        by (simp_all add: r)
      obtain p2 out2 e where IH: "search_loop search row append print_all unlimited (int (length rs)) (int ?k) p'
          ((if unlimited then out @ newline else out) @ txt1) = Some (p2, out2, e)"
        "e = Ok () \<longrightarrow> wf p2 \<and> pending p2 = [] \<and> printed p2 = printed p' @ map row (drop ?k rs)"
        using less.hyps [OF k(3,2) p'(1,2)] by blast
      have "search_loop search row append print_all unlimited (int (length rs)) (int k) p out = Some (p2, out2, e)"
        using True r Ok IH(1) by (subst search_loop.simps) (simp add: po Let_def flip: k(1) map_map)
      moreover have "map row (take n (drop k rs)) @ map row (drop ?k rs) = map row (drop k rs)"
        by (simp flip: map_append) (metis add.commute append_take_drop_id drop_drop length_drop min.commute
            append_eq_conv_conj length_take)
      ultimately show ?thesis using IH(2) p'(3) by auto
    qed (use True r in \<open>subst search_loop.simps, simp add: Let_def\<close>)+
  qed
qed

lemma show_results_pages:
  assumes "serves search n rs" and "search 0 = Ok results" and "wf p" and "printed p = []"
  shows "\<exists>p' out e. show_results search row append print_all unlimited results p = Some (p', out, e) \<and>
    (e = Ok () \<longrightarrow> pending p' = [] \<and> printed p' = pending p @ map row rs)"
proof -
  obtain r where "search (int 0) = Ok r" "srs_NumResults r = int (length rs)" "srs_Results r = take n (drop 0 rs)"
    using assms(1) unfolding serves_def by blast
  with assms(2) have r: "srs_NumResults results = int (length rs)" "srs_Results results = take n rs" by auto
  let ?p = "fold append (map row (srs_Results results)) p"
  have all: "wf ?p" "pending ?p = pending p @ map row (take n rs)" "printed ?p = []"
    using append_all [OF assms(3)] assms(4) by (auto simp: r)
  show ?thesis
  proof (cases "print_all False ?p")
    case (Ok po)
    obtain p' txt1 where po: "po = (p', txt1)" by fastforce
    from print_all_rows [OF all(1) Ok [unfolded po]]
    have p': "wf p'" "pending p' = []" "printed p' = pending p @ map row (take n rs)" by (simp_all add: all)
    obtain p2 out2 e where loop: "search_loop search row append print_all unlimited (int (length rs))
        (int (length (take n rs))) p' txt1 = Some (p2, out2, e)"
      "e = Ok () \<longrightarrow> wf p2 \<and> pending p2 = [] \<and> printed p2 = printed p' @ map row (drop (length (take n rs)) rs)"
      using search_loop_pages [OF assms(1) _ p'(1,2), of "length (take n rs)"] by (metis length_take min.cobounded1)
    have "map row (take n rs) @ map row (drop (length (take n rs)) rs) = map row rs"
      by (metis append_eq_conv_conj append_take_drop_id map_append)
    with Ok loop p'(3) show ?thesis
      by (cases e) (auto simp: show_results_def po r Let_def simp del: length_take)
  qed (simp_all add: show_results_def Let_def)
qed

end

definition search_of :: "search_flags \<Rightarrow> (string \<Rightarrow> string \<Rightarrow> int \<Rightarrow> SearchResults res) \<Rightarrow> string \<Rightarrow> int \<Rightarrow> SearchResults res" where
  "search_of fl client query = (if fl_advanced fl then client [] query else client query [])"

lemma tab_new: "tab_wf (Tab_Append table_header (NewTabPrinter [WithWidth w]))"
  "tp_position (Tab_Append table_header (NewTabPrinter [WithWidth w])) = 0"
  "tp_rows (Tab_Append table_header (NewTabPrinter [WithWidth w])) = [table_header]"
  by (simp_all add: tab_wf_def Tab_Append_def NewTabPrinter_def WithWidth_def)

lemma tpl_new: "tpl_wf (NewTemplatePrinter t)" "tm_position (NewTemplatePrinter t) = 0" "tm_rows (NewTemplatePrinter t) = []"
  by (simp_all add: tpl_wf_def NewTemplatePrinter_def)

lemma tab_pages:
  assumes "serves search n rs" and "search 0 = Ok results"
  shows "\<exists>p' out e. show_results search (result_row now) Tab_Append Tab_PrintAll unlimited results
      (Tab_Append table_header (NewTabPrinter [WithWidth w])) = Some (p', out, e) \<and>
    (e = Ok () \<longrightarrow> take (tp_position p') (tp_rows p') = table_header # map (result_row now) rs)"
  using tab.show_results_pages [OF assms tab_new(1), where row = "result_row now" and unlimited = unlimited and w1 = w]
  by (fastforce simp: tab_new)

lemma tpl_pages:
  assumes "serves search n rs" and "search 0 = Ok results"
  shows "\<exists>p' out e. show_results search (\<lambda>r. r) Tpl_Append (Tpl_PrintAll parse) unlimited results
      (NewTemplatePrinter t) = Some (p', out, e) \<and>
    (e = Ok () \<longrightarrow> take (tm_position p') (tm_rows p') = rs)"
  using tpl.show_results_pages [OF assms tpl_new(1), where row = "\<lambda>r. r" and unlimited = unlimited and parse = parse and t1 = t]
  by (fastforce simp: tpl_new)


text \<open>
  The search command always ends on such a server, whatever the flags, and it reports an
  empty search on the error stream only.
\<close>

theorem runSearch_ends:
  assumes "serves (search_of fl client query) n rs"
  shows "\<exists>out err e. runSearch (Ok client) parse now fl (query # args) = Some (out, err, e) \<and>
    (rs = [] \<longrightarrow> out = [] \<and> err = ''No result found'' @ newline \<and> e = Ok ())"
proof -
  let ?search = "search_of fl client query"
  obtain r where "?search (int 0) = Ok r" and num: "srs_NumResults r = int (length rs)"
    using assms unfolding serves_def by blast
  then have r: "?search 0 = Ok r" by simp
  have flags: "(let (q, a) = (if fl_advanced fl then ([], query) else (query, [])) in f (client q a)) = f ?search" for f
    by (simp add: search_of_def)
  obtain p1 o1 e1 where tab: "show_results ?search (result_row now) Tab_Append Tab_PrintAll (fl_unlimited fl) r
      (Tab_Append table_header (NewTabPrinter [WithWidth (fl_width fl)])) = Some (p1, o1, e1)"
    using tab_pages [OF assms r] by blast
  obtain p2 o2 e2 where tpl: "show_results ?search (\<lambda>r. r) Tpl_Append (Tpl_PrintAll parse) (fl_unlimited fl) r
      (NewTemplatePrinter (guessTemplate (fl_quiet fl) (fl_template fl))) = Some (p2, o2, e2)"
    using tpl_pages [OF assms r] by blast
  show ?thesis
    by (cases "fl_advanced fl"; cases "rs = []"; cases "guessTemplate (fl_quiet fl) (fl_template fl) = []")
      (use r num tab tpl in \<open>simp_all add: runSearch_def search_of_def Let_def\<close>)
qed

definition sample_results :: "int \<Rightarrow> SearchResults res" where
  "sample_results off = Ok \<lparr>srs_Query = ''mysql'', srs_NumResults = 3,
     srs_Results = take 2 (drop (nat off) (replicate 3 zero_SearchResult))\<rparr>"

lemma sample_serves: "serves sample_results 2 (replicate 3 zero_SearchResult)"
  by (simp add: serves_def sample_results_def)


definition sample_flags :: search_flags where
  "sample_flags = \<lparr>fl_advanced = False, fl_unlimited = True, fl_width = 150, fl_quiet = True, fl_template = []\<rparr>"

theorem runSearch_ends_witness:
  "\<exists>out err e. runSearch (Ok (\<lambda>q a. sample_results)) (\<lambda>_. Ok (\<lambda>r. Ok (sr_FullName r))) 0 sample_flags [''mysql'']
     = Some (out, err, e)"
proof -
  have "serves (search_of sample_flags (\<lambda>q a. sample_results) ''mysql'') 2 (replicate 3 zero_SearchResult)"
    using sample_serves by (simp add: search_of_def)
  from runSearch_ends [OF this, of "\<lambda>_. Ok (\<lambda>r. Ok (sr_FullName r))" 0 "[]"] show ?thesis by blast
qed

section \<open>Pages that stay empty\<close>

lemma search_loop_stuck:
  fixes row :: "SearchResult \<Rightarrow> 'a" and add :: "'a \<Rightarrow> 'b \<Rightarrow> 'b"
    and print_all :: "bool \<Rightarrow> 'b \<Rightarrow> ('b \<times> string) res"
  assumes "search_loop search row add print_all unlimited num fetched p out = Some r"
    and "\<forall>k. \<exists>q. search k = Ok \<lparr>srs_Query = q, srs_NumResults = n, srs_Results = []\<rparr>"
    and "\<forall>p. \<exists>p' txt. print_all (\<not> unlimited) p = Ok (p', txt)"
    and "fetched < n" "fetched < num"
  shows False
proof -
  let ?P = "\<lambda>search (row :: SearchResult \<Rightarrow> 'a) (add :: 'a \<Rightarrow> 'b \<Rightarrow> 'b) print_all unlimited num fetched (p :: 'b) (out :: string)
      (r :: 'b \<times> string \<times> unit res).
    (\<forall>k. \<exists>q. search k = Ok \<lparr>srs_Query = q, srs_NumResults = n, srs_Results = []\<rparr>) \<longrightarrow>
    (\<forall>p. \<exists>p' (txt :: string). print_all (\<not> unlimited) p = Ok (p', txt)) \<longrightarrow> fetched < n \<longrightarrow> fetched < num \<longrightarrow> False"
  have "?P search row add print_all unlimited num fetched p out r"
  proof (rule search_loop.raw_induct [OF _ assms(1), of ?P], intro impI)
    fix L :: "(int \<Rightarrow> SearchResults res) \<Rightarrow> (SearchResult \<Rightarrow> 'a) \<Rightarrow> ('a \<Rightarrow> 'b \<Rightarrow> 'b) \<Rightarrow>
        (bool \<Rightarrow> 'b \<Rightarrow> ('b \<times> string) res) \<Rightarrow> bool \<Rightarrow> int \<Rightarrow> int \<Rightarrow> 'b \<Rightarrow> string \<Rightarrow> ('b \<times> string \<times> unit res) option"
      and search row add print_all unlimited num fetched p out r
    assume IH: "\<And>search row add print_all unlimited num fetched p out r.
        L search row add print_all unlimited num fetched p out = Some r \<Longrightarrow>
        ?P search row add print_all unlimited num fetched p out r"
      and r: "(if fetched < num then
          (let out = (if unlimited then out @ newline else out)
           in case search fetched of
                Err e \<Rightarrow> Some (p, out, Err (''Failed to search images : '' @ e))
              | Panic \<Rightarrow> Some (p, out, Panic)
              | Ok results \<Rightarrow>
                  (let p = fold add (map row (srs_Results results)) p
                   in case print_all (\<not> unlimited) p of
                        Err e \<Rightarrow> Some (p, out, Err e)
                      | Panic \<Rightarrow> Some (p, out, Panic)
                      | Ok (p, text) \<Rightarrow>
                          L search row add print_all unlimited (srs_NumResults results)
                            (fetched + int (length (srs_Results results))) p (out @ text)))
        else Some (p, out, Ok ())) = Some r"
      and pages: "\<forall>k. \<exists>q. search k = Ok \<lparr>srs_Query = q, srs_NumResults = n, srs_Results = []\<rparr>"
      and prints: "\<forall>p. \<exists>p' txt. print_all (\<not> unlimited) p = Ok (p', txt)"
      and small: "fetched < n" "fetched < num"
    obtain q where "search fetched = Ok \<lparr>srs_Query = q, srs_NumResults = n, srs_Results = []\<rparr>" using pages by blast
    moreover obtain p' pt where "print_all (\<not> unlimited) p = Ok (p', pt)" using prints by blast
    ultimately obtain o' where "L search row add print_all unlimited n fetched p' o' = Some r"
      using r small by (auto simp: Let_def)
    from IH [OF this] pages prints small show False by blast
  qed
  with assms show False by blast
qed

text \<open>
  The command relies on the server to make progress. When the server keeps announcing more
  results than it has sent but answers with empty pages, the loop never ends, whatever is printed.
\<close>

theorem search_loop_endless:
  assumes "\<forall>k. \<exists>q. search k = Ok \<lparr>srs_Query = q, srs_NumResults = n, srs_Results = []\<rparr>"
    and "\<forall>p. \<exists>p' txt. print_all (\<not> unlimited) p = Ok (p', txt)"
    and "fetched < n"
  shows "search_loop search row add print_all unlimited n fetched p out = None"
proof (rule ccontr)
  assume "search_loop search row add print_all unlimited n fetched p out \<noteq> None"
  then obtain r where r: "search_loop search row add print_all unlimited n fetched p out = Some r" by blast
  show False by (rule search_loop_stuck [OF r assms(1,2,3,3)])
qed

theorem search_loop_endless_witness:
  "search_loop (\<lambda>_. Ok \<lparr>srs_Query = ''mysql'', srs_NumResults = 3, srs_Results = []\<rparr>) sr_Name (\<lambda>r p. p @ [r])
     (\<lambda>_ p. Ok (p, concat p)) True 3 1 [] [] = None"
  by (rule search_loop_endless) simp_all

end
