(* ===== verification/Dim.thy ===== *)
theory Dim
  imports Image
begin

text \<open>
  The operations on local images (\<open>lib/dim.go\<close>). The docker daemon is reached through the
  interface \<open>Docker\<close> of \<open>wrapper/dockerClient\<close>, a record of functions on the daemon's state \<open>'d\<close>.
\<close>

section \<open>The docker interface\<close>

text \<open>Pulling and pushing may wait for the user's credentials for ever.\<close>

record 'd Docker =
  dk_ImageBuild :: "string \<Rightarrow> strmap \<Rightarrow> string \<Rightarrow> 'd \<Rightarrow> 'd \<times> unit res"
  dk_Pull :: "string \<Rightarrow> 'd \<Rightarrow> ('d \<times> unit res) option"
  dk_Inspect :: "string \<Rightarrow> 'd \<Rightarrow> 'd \<times> ImageInspect res"
  dk_Remove :: "string \<Rightarrow> 'd \<Rightarrow> 'd \<times> unit res"
  dk_Push :: "string \<Rightarrow> 'd \<Rightarrow> ('d \<times> unit res) option"

section \<open>Labels\<close>

definition GetImageInfo :: "'d Docker \<Rightarrow> string \<Rightarrow> 'd \<Rightarrow> 'd \<times> (string \<times> string list) res" where
  "GetImageInfo dk img d = st_bind (dk_Inspect dk img d) (\<lambda>i d. (d, Ok (ii_ID i, ii_RepoTags i)))"

definition GetImageLabels :: "'d Docker \<Rightarrow> string \<Rightarrow> 'd \<Rightarrow> 'd \<times> strmap option res" where
  "GetImageLabels dk img d =
     st_bind (dk_Inspect dk img d) (\<lambda>i d.
       (d, case ii_Config i of None \<Rightarrow> Panic | Some cfg \<Rightarrow> Ok (cc_Labels cfg)))"

fun label_loop :: "string list \<Rightarrow> strmap \<Rightarrow> strmap res" where
  "label_loop [] m = Ok m"
| "label_loop (l # ls) m =
     (let kv = Split l (CHR ''='')
      in if length kv \<noteq> 2 \<or> kv ! 1 = [] then Err (''Failed to parse given label '' @ l)
         else label_loop ls (mput (kv ! 0) (kv ! 1) m))"

definition AddLabel :: "'d Docker \<Rightarrow> string \<Rightarrow> string list \<Rightarrow> string \<Rightarrow> 'd \<Rightarrow> 'd \<times> unit res" where
  "AddLabel dk parent labels tag d =
     (if length labels = 0 then (d, Err ''No label provided'')
      else
        st_bind (d, label_loop labels []) (\<lambda>buildLabels d.
        st_bind (GetImageLabels dk parent d) (\<lambda>actualLabels d.
          if MapMatchesAll actualLabels (Some buildLabels)
          then (d, Err (''Image '' @ parent @ '' already contains the label(s) you want to set''))
          else dk_ImageBuild dk parent buildLabels tag d)))"

fun unlabel_loop :: "strmap option \<Rightarrow> string list \<Rightarrow> strmap \<Rightarrow> strmap res" where
  "unlabel_loop actual [] m = Ok m"
| "unlabel_loop actual (l # ls) m =
     (if CHR ''='' \<in> set l then Err (''Failed to parse given label '' @ l)
      else unlabel_loop actual ls (if mindex (nil_or actual) l \<noteq> [] then mput l [] m else m))"

definition RemoveLabel :: "'d Docker \<Rightarrow> string \<Rightarrow> string list \<Rightarrow> string \<Rightarrow> 'd \<Rightarrow> 'd \<times> unit res" where
  "RemoveLabel dk parent labels tag d =
     (if length labels = 0 then (d, Err ''No label provided'')
      else
        st_bind (GetImageLabels dk parent d) (\<lambda>actualLabels d.
        st_bind (d, unlabel_loop actualLabels labels []) (\<lambda>buildLabels d.
          if length buildLabels = 0
          then (d, Err (''Image '' @ parent @ '' has none of the given label(s) you want to clear''))
          else dk_ImageBuild dk parent buildLabels tag d)))"

section \<open>Showing an image\<close>

text \<open>\<open>execute\<close> is the template on what the daemon tells: the text it writes.\<close>

definition Dim_PrintImageInfo :: "'d Docker \<Rightarrow> string \<Rightarrow> (ImageInspect \<Rightarrow> string res) \<Rightarrow> 'd \<Rightarrow> 'd \<times> string res" where
  "Dim_PrintImageInfo dk img execute d = st_bind (dk_Inspect dk img d) (\<lambda>infos d. (d, execute infos))"

section \<open>A local image as a document\<close>

text \<open>Without a tag, or with one that holds no colon, an index is out of range.\<close>

definition inspected_image :: "(string \<Rightarrow> gotime) \<Rightarrow> ImageInspect \<Rightarrow> IndexImage res" where
  "inspected_image parse_time di =
     (case ii_RepoTags di of
        [] \<Rightarrow> Panic
      | fullName # _ \<Rightarrow>
          (let parts = Split fullName (CHR '':'')
           in if length parts < 2 then Panic
              else
                (case ii_Config di of
                   None \<Rightarrow> Panic
                 | Some cfg \<Rightarrow>
                     (let envs = env_loop (cc_Env cfg) []
                      in Ok (zero_IndexImage
                           \<lparr>im_ID := ii_ID di, im_Name := parts ! 0, im_Tag := parts ! 1,
                            im_Comment := ii_Comment di, im_Author := ii_Author di, im_FullName := fullName,
                            im_Created := parse_time (ii_Created di),
                            im_Label := cc_Labels cfg, im_Labels := Keys (cc_Labels cfg),
                            im_Volumes := cc_Volumes cfg, im_Env := Some envs, im_Envs := Keys (Some envs),
                            im_ExposedPorts := map Port_Int (cc_ExposedPorts cfg),
                            im_Size := ii_Size di\<rparr>)))))"

definition AsIndexImage :: "(string \<Rightarrow> gotime) \<Rightarrow> 'd Docker \<Rightarrow> string \<Rightarrow> 'd \<Rightarrow> 'd \<times> IndexImage res" where
  "AsIndexImage parse_time dk img d =
     st_bind (dk_Inspect dk img d) (\<lambda>di d. (d, inspected_image parse_time di))"

section \<open>The contract of the daemon's client\<close>

text \<open>Asking about an image changes nothing of what the client is about (\<open>view\<close>): every operation
  that only asks leaves it alone, and so does a label command that finds nothing to build.\<close>

locale docker =
  fixes dk :: "'d Docker" and view :: "'d \<Rightarrow> 'v"
  assumes inspect_view: "view (fst (dk_Inspect dk img d)) = view d"
begin

lemma GetImageInfo_view: "view (fst (GetImageInfo dk img d)) = view d"
  by (simp add: GetImageInfo_def st_bind_fst inspect_view)

lemma GetImageLabels_view: "view (fst (GetImageLabels dk img d)) = view d"
  by (simp add: GetImageLabels_def st_bind_fst inspect_view)

lemma AsIndexImage_view: "view (fst (AsIndexImage parse_time dk img d)) = view d"
  by (simp add: AsIndexImage_def st_bind_fst inspect_view)

lemma PrintImageInfo_view: "view (fst (Dim_PrintImageInfo dk img execute d)) = view d"
  by (simp add: Dim_PrintImageInfo_def st_bind_fst inspect_view)

end

section \<open>Adding labels\<close>

definition label_pair :: "string \<Rightarrow> (string \<times> string) option" where
  "label_pair l =
     (let kv = Split l (CHR ''='') in if length kv = 2 \<and> kv ! 1 \<noteq> [] then Some (kv ! 0, kv ! 1) else None)"

lemma label_loop_Cons:
  "label_loop (l # ls) m =
     (case label_pair l of None \<Rightarrow> Err (''Failed to parse given label '' @ l) | Some (k, v) \<Rightarrow> label_loop ls (mput k v m))"
  by (simp add: label_pair_def Let_def)

lemma label_loop_eq:
  "label_loop ls m =
     (case List.find (\<lambda>l. label_pair l = None) ls of
        Some l \<Rightarrow> Err (''Failed to parse given label '' @ l)
      | None \<Rightarrow> Ok (fold (\<lambda>(k, v). mput k v) (List.map_filter label_pair ls) m))"
proof (induction ls arbitrary: m)
  case (Cons l ls)
  then show ?case
    by (cases "label_pair l") (auto simp: label_loop_Cons simp del: label_loop.simps split: option.splits)
qed simp

lemma label_pair_iff:
  "label_pair l = Some (k, v) \<longleftrightarrow> l = k @ CHR ''='' # v \<and> CHR ''='' \<notin> set k \<and> CHR ''='' \<notin> set v \<and> v \<noteq> []"
proof
  assume l: "label_pair l = Some (k, v)"
  obtain kv where kv: "kv = Split l (CHR ''='')" by blast
  with l have p: "length kv = 2" "kv ! 0 = k" "kv ! 1 = v" "v \<noteq> []"
    by (auto simp: label_pair_def Let_def split: if_splits)
  then have s: "kv = [k, v]" by (auto simp: length_Suc_conv numeral_2_eq_2)
  then have "l = Join [k, v] [CHR ''='']" using kv by (metis Join_Split)
  moreover have "CHR ''='' \<notin> set k \<and> CHR ''='' \<notin> set v"
    using s kv Split_parts [of _ l "CHR ''=''"] by (metis list.set_intros)
  ultimately show "l = k @ CHR ''='' # v \<and> CHR ''='' \<notin> set k \<and> CHR ''='' \<notin> set v \<and> v \<noteq> []"
    using p(4) by simp
next
  assume "l = k @ CHR ''='' # v \<and> CHR ''='' \<notin> set k \<and> CHR ''='' \<notin> set v \<and> v \<noteq> []"
  then show "label_pair l = Some (k, v)" by (simp add: label_pair_def Split_sep)
qed

definition wanted_labels :: "string list \<Rightarrow> strmap" where
  "wanted_labels ls = fold (\<lambda>(k, v). mput k v) (List.map_filter label_pair ls) []"

lemma wanted_labels_values: "(k, v) \<in> set (wanted_labels ls) \<Longrightarrow> v \<noteq> []"
proof -
  assume "(k, v) \<in> set (wanted_labels ls)"
  then have "map_of (rev (List.map_filter label_pair ls)) k = Some v"
    by (simp add: wanted_labels_def gm.entries_build)
  then have "(k, v) \<in> set (List.map_filter label_pair ls)" by (auto dest: map_of_SomeD)
  then obtain l where "label_pair l = Some (k, v)" by (auto simp: map_filter_def)
  then show ?thesis by (simp add: label_pair_iff)
qed

lemma wf_wanted [simp]: "wf_map (wanted_labels ls)"
  by (simp add: wanted_labels_def gm.wf_fold_put)

text \<open>
  Adding labels. Labels are accepted exactly when each is a key, one equals sign and a
  non-empty value; a wrong one, or none at all, leaves the daemon alone. Otherwise the daemon is
  asked for one build, from the parent, with the last value given for every key, unless the image
  already has all these labels, and then nothing is built.
\<close>

theorem AddLabel_builds:
  assumes "dk_Inspect dk parent d = (d', Ok ii)" and "ii_Config ii = Some cfg" and "cc_Labels cfg = Some actual"
  shows "(\<forall>l. List.find (\<lambda>l. \<nexists>k v. l = k @ CHR ''='' # v \<and> CHR ''='' \<notin> set k \<and> CHR ''='' \<notin> set v \<and> v \<noteq> []) labels = Some l \<longrightarrow>
       AddLabel dk parent labels tag d = (d, Err (''Failed to parse given label '' @ l))) \<and>
    (labels \<noteq> [] \<and> (\<forall>l \<in> set labels. \<exists>k v. l = k @ CHR ''='' # v \<and> CHR ''='' \<notin> set k \<and> CHR ''='' \<notin> set v \<and> v \<noteq> []) \<longrightarrow>
       AddLabel dk parent labels tag d =
         (if map_of (wanted_labels labels) \<subseteq>\<^sub>m map_of actual
          then (d', Err (''Image '' @ parent @ '' already contains the label(s) you want to set''))
          else dk_ImageBuild dk parent (wanted_labels labels) tag d'))"
proof -
  have none: "label_pair l = None \<longleftrightarrow>
      (\<nexists>k v. l = k @ CHR ''='' # v \<and> CHR ''='' \<notin> set k \<and> CHR ''='' \<notin> set v \<and> v \<noteq> [])" for l
    unfolding label_pair_iff [symmetric] by (cases "label_pair l") auto
  have labels: "GetImageLabels dk parent d = (d', Ok (Some actual))"
    using assms by (simp add: GetImageLabels_def)
  have all: "MapMatchesAll (Some actual) (Some (wanted_labels labels)) \<longleftrightarrow>
      map_of (wanted_labels labels) \<subseteq>\<^sub>m map_of actual"
    by (rule MapMatchesAll_iff) (auto dest: wanted_labels_values)
  show ?thesis
  proof (intro conjI allI impI)
    fix l assume "List.find (\<lambda>l. \<nexists>k v. l = k @ CHR ''='' # v \<and> CHR ''='' \<notin> set k \<and> CHR ''='' \<notin> set v \<and> v \<noteq> []) labels = Some l"
    then have "List.find (\<lambda>l. label_pair l = None) labels = Some l" by (simp only: none)
    then show "AddLabel dk parent labels tag d = (d, Err (''Failed to parse given label '' @ l))"
      by (auto simp: AddLabel_def label_loop_eq)
  next
    assume ok: "labels \<noteq> [] \<and> (\<forall>l \<in> set labels. \<exists>k v. l = k @ CHR ''='' # v \<and> CHR ''='' \<notin> set k \<and> CHR ''='' \<notin> set v \<and> v \<noteq> [])"
    then have "List.find (\<lambda>l. label_pair l = None) labels = None" by (simp only: find_None_iff none) blast
    with ok labels all show "AddLabel dk parent labels tag d =
         (if map_of (wanted_labels labels) \<subseteq>\<^sub>m map_of actual
          then (d', Err (''Image '' @ parent @ '' already contains the label(s) you want to set''))
          else dk_ImageBuild dk parent (wanted_labels labels) tag d')"
      by (simp add: AddLabel_def label_loop_eq wanted_labels_def)
  qed
qed

definition sample_inspect :: "string \<Rightarrow> ImageInspect" where
  "sample_inspect tag = \<lparr>ii_ID = ''d1'', ii_RepoTags = [tag], ii_Comment = [], ii_Author = [], ii_Created = [],
     ii_Config = Some \<lparr>cc_Labels = Some [(''os'', ''debian'')], cc_Volumes = [], cc_Env = [''A=1''], cc_ExposedPorts = []\<rparr>,
     ii_Size = 1\<rparr>"

text \<open>A daemon that records the builds it is asked for.\<close>

definition sample_docker :: "string \<Rightarrow> (string \<times> strmap \<times> string) list Docker" where
  "sample_docker tag = \<lparr>dk_ImageBuild = (\<lambda>p ls t d. (d @ [(p, ls, t)], Ok ())), dk_Pull = (\<lambda>i d. Some (d, Ok ())),
     dk_Inspect = (\<lambda>i d. (d, Ok (sample_inspect tag))), dk_Remove = (\<lambda>i d. (d, Ok ())), dk_Push = (\<lambda>i d. Some (d, Ok ()))\<rparr>"

theorem AddLabel_builds_witness:
  "AddLabel (sample_docker ''mysql:5.7'') ''mysql'' [''os=alpine''] ''mysql:new'' [] =
     ([(''mysql'', [(''os'', ''alpine'')], ''mysql:new'')], Ok ())"
proof -
  have i: "dk_Inspect (sample_docker ''mysql:5.7'') ''mysql'' [] = ([], Ok (sample_inspect ''mysql:5.7''))"
    by (simp add: sample_docker_def)
  obtain cfg where cfg: "ii_Config (sample_inspect ''mysql:5.7'') = Some cfg" "cc_Labels cfg = Some [(''os'', ''debian'')]"
    by (simp add: sample_inspect_def)
  have pair: "label_pair ''os=alpine'' = Some (''os'', ''alpine'')" by (simp add: label_pair_iff)
  then have w: "wanted_labels [''os=alpine''] = [(''os'', ''alpine'')]"
    by (simp add: wanted_labels_def mput_def)
  have "\<exists>k v. ''os=alpine'' = k @ CHR ''='' # v \<and> CHR ''='' \<notin> set k \<and> CHR ''='' \<notin> set v \<and> v \<noteq> []"
    using pair unfolding label_pair_iff by blast
  moreover have "\<not> map_of [(''os'', ''alpine'')] \<subseteq>\<^sub>m map_of [(''os'', ''debian'')]"
    by (simp add: map_le_def)
  ultimately show ?thesis
    using AddLabel_builds [OF i cfg, of "[''os=alpine'']" "''mysql:new''"] unfolding w
    by (simp add: sample_docker_def)
qed

section \<open>Removing labels\<close>

lemma unlabel_loop_Ok:
  "\<forall>l \<in> set ls. CHR ''='' \<notin> set l \<Longrightarrow> \<exists>m'. unlabel_loop actual ls m = Ok m' \<and>
     (\<forall>k. map_of m' k = (if k \<in> set ls \<and> mindex (nil_or actual) k \<noteq> [] then Some [] else map_of m k))"
proof (induction ls arbitrary: m)
  case (Cons l ls)
  let ?m = "if mindex (nil_or actual) l \<noteq> [] then mput l [] m else m"
  obtain m' where "unlabel_loop actual ls ?m = Ok m'"
    "\<forall>k. map_of m' k = (if k \<in> set ls \<and> mindex (nil_or actual) k \<noteq> [] then Some [] else map_of ?m k)"
    using Cons by fastforce
  then show ?case using Cons.prems by (intro exI [of _ m']) (auto simp: go_map_simps)
qed auto

text \<open>
  Clearing labels. When no name holds an equals sign, one build is asked for that sets to the
  empty text exactly the named labels the image has with a value, and nothing is built when there
  is none. The image keeps every label that was not named.
\<close>

theorem RemoveLabel_clears:
  assumes "dk_Inspect dk parent d = (d', Ok ii)" and "ii_Config ii = Some cfg"
    and "labels \<noteq> []" and "\<forall>l \<in> set labels. CHR ''='' \<notin> set l"
  shows "\<exists>m. (\<forall>k. map_of m k = (if k \<in> set labels \<and> mindex (nil_or (cc_Labels cfg)) k \<noteq> [] then Some [] else None)) \<and>
    RemoveLabel dk parent labels tag d =
      (if \<forall>k \<in> set labels. mindex (nil_or (cc_Labels cfg)) k = []
       then (d', Err (''Image '' @ parent @ '' has none of the given label(s) you want to clear''))
       else dk_ImageBuild dk parent m tag d')"
proof -
  obtain m where m: "unlabel_loop (cc_Labels cfg) labels [] = Ok m"
    "\<forall>k. map_of m k = (if k \<in> set labels \<and> mindex (nil_or (cc_Labels cfg)) k \<noteq> [] then Some [] else None)"
    using unlabel_loop_Ok [OF assms(4), of "cc_Labels cfg" "[]"] by auto
  have "m = [] \<longleftrightarrow> (\<forall>k. map_of m k = None)"
    by (cases m) auto
  then have "m = [] \<longleftrightarrow> (\<forall>k \<in> set labels. mindex (nil_or (cc_Labels cfg)) k = [])"
    by (simp add: m(2)) blast
  with m assms show ?thesis
    by (intro exI [of _ m]) (simp add: RemoveLabel_def GetImageLabels_def)
qed

theorem RemoveLabel_clears_witness:
  "\<exists>m. RemoveLabel (sample_docker ''mysql:5.7'') ''mysql'' [''os''] ''mysql:new'' [] = ([(''mysql'', m, ''mysql:new'')], Ok ()) \<and>
     map_of m ''os'' = Some []"
proof -
  have i: "dk_Inspect (sample_docker ''mysql:5.7'') ''mysql'' [] = ([], Ok (sample_inspect ''mysql:5.7''))"
    by (simp add: sample_docker_def)
  obtain cfg where cfg: "ii_Config (sample_inspect ''mysql:5.7'') = Some cfg" "cc_Labels cfg = Some [(''os'', ''debian'')]"
    by (simp add: sample_inspect_def)
  have os: "mindex (nil_or (cc_Labels cfg)) ''os'' = ''debian''" by (simp add: cfg(2) mindex_def)
  obtain m where m: "\<forall>k. map_of m k = (if k \<in> set [''os''] \<and> mindex (nil_or (cc_Labels cfg)) k \<noteq> [] then Some [] else None)"
    "RemoveLabel (sample_docker ''mysql:5.7'') ''mysql'' [''os''] ''mysql:new'' [] =
      (if \<forall>k \<in> set [''os'']. mindex (nil_or (cc_Labels cfg)) k = []
       then ([], Err (''Image '' @ ''mysql'' @ '' has none of the given label(s) you want to clear''))
       else dk_ImageBuild (sample_docker ''mysql:5.7'') ''mysql'' m ''mysql:new'' [])"
    using RemoveLabel_clears [OF i cfg(1), of "[''os'']" "''mysql:new''"] by auto
  then show ?thesis using os by (intro exI [of _ m]) (simp add: sample_docker_def)
qed

section \<open>Local and remote documents\<close>



text \<open>A name with a port in its registry is cut at the wrong colon: the port and the path become
  the tag. An image without any tag makes the command panic.\<close>

lemma inspected_image_port:
  "\<exists>im. inspected_image (\<lambda>_. 0) (sample_inspect ''hub:5000/mysql:5.7'') = Ok im \<and>
     im_Name im = ''hub'' \<and> im_Tag im = ''5000/mysql''"
  by (simp add: inspected_image_def sample_inspect_def Let_def)

lemma inspected_image_untagged: "inspected_image parse_time (i\<lparr>ii_RepoTags := []\<rparr>) = Panic"
  by (simp add: inspected_image_def)

end
