(* ===== verification/Base64.thy ===== *)
theory Base64
  imports Prelude
begin

text \<open>
  The URL alphabet of \<open>encoding/base64\<close>, which the docker client uses for the credentials it sends
  (\<open>encodeAuthToBase64\<close> of \<open>wrapper/dockerClient/dockerClient.go\<close>). Three bytes become four
  characters; a last group of one or two bytes is padded with equals signs.
\<close>

definition url_alphabet :: string where
  "url_alphabet = ''ABCDEFGHIJKLMNOPQRSTUVWXYZabcdefghijklmnopqrstuvwxyz0123456789-_''"

definition url_char :: "nat \<Rightarrow> char" where
  "url_char k = url_alphabet ! k"

fun encode_groups :: "nat list \<Rightarrow> string" where
  "encode_groups [] = []"
| "encode_groups [a] = [url_char (a div 4), url_char (a mod 4 * 16), CHR ''='', CHR ''='']"
| "encode_groups [a, b] =
     [url_char (a div 4), url_char (a mod 4 * 16 + b div 16), url_char (b mod 16 * 4), CHR ''='']"
| "encode_groups (a # b # c # r) =
     [url_char (a div 4), url_char (a mod 4 * 16 + b div 16), url_char (b mod 16 * 4 + c div 64), url_char (c mod 64)]
     @ encode_groups r"

definition URL_EncodeToString :: "string \<Rightarrow> string" where
  "URL_EncodeToString s = encode_groups (map of_char s)"

text \<open>Reading it back. A character outside the alphabet, a group cut short and padding in the
  middle are errors.\<close>

definition url_value :: "char \<Rightarrow> nat option" where
  "url_value c = (case filter (\<lambda>k. url_char k = c) [0..<64] of [] \<Rightarrow> None | k # _ \<Rightarrow> Some k)"

definition values_of :: "string \<Rightarrow> nat list option" where
  "values_of cs = those (map url_value cs)"

fun decode_groups :: "string \<Rightarrow> nat list option" where
  "decode_groups [] = Some []"
| "decode_groups [p, q, r, s] =
     (if r = CHR ''='' \<and> s = CHR ''='' then
        (case values_of [p, q] of Some [i, j] \<Rightarrow> Some [i * 4 + j div 16] | _ \<Rightarrow> None)
      else if s = CHR ''='' then
        (case values_of [p, q, r] of
           Some [i, j, k] \<Rightarrow> Some [i * 4 + j div 16, j mod 16 * 16 + k div 4]
         | _ \<Rightarrow> None)
      else
        (case values_of [p, q, r, s] of
           Some [i, j, k, l] \<Rightarrow> Some [i * 4 + j div 16, j mod 16 * 16 + k div 4, k mod 4 * 64 + l]
         | _ \<Rightarrow> None))"
| "decode_groups (p # q # r # s # t) =
     (case values_of [p, q, r, s] of
        Some [i, j, k, l] \<Rightarrow>
          map_option (\<lambda>bs. [i * 4 + j div 16, j mod 16 * 16 + k div 4, k mod 4 * 64 + l] @ bs) (decode_groups t)
      | _ \<Rightarrow> None)"
| "decode_groups _ = None"

definition URL_DecodeString :: "string \<Rightarrow> string option" where
  "URL_DecodeString s = map_option (map char_of) (decode_groups s)"

section \<open>Decoding what was encoded\<close>

lemma url_value_table:
  "list_all (\<lambda>k. url_value (url_char k) = Some k \<and> url_char k \<noteq> CHR ''='') [0..<64]"
  unfolding url_value_def url_char_def url_alphabet_def by code_simp

lemma url_value_char [simp]: "k < 64 \<Longrightarrow> url_value (url_char k) = Some k"
  and url_char_not_pad [simp]: "k < 64 \<Longrightarrow> url_char k \<noteq> CHR ''=''"
  using url_value_table by (auto simp: list_all_iff)

text \<open>The six-bit pieces of three bytes.\<close>

lemma high_bits: "a < 256 \<Longrightarrow> a div 4 < (64 :: nat)" "b < 256 \<Longrightarrow> b div 16 < (16 :: nat)" "c < 256 \<Longrightarrow> c div 64 < (4 :: nat)"
  by (simp_all add: less_mult_imp_div_less)

lemma joined_bits: "i < 4 \<Longrightarrow> j < 16 \<Longrightarrow> i * 16 + j < (64 :: nat)" "i < 16 \<Longrightarrow> j < 4 \<Longrightarrow> i * 4 + j < (64 :: nat)"
  by simp_all

lemma low_bits [simp]: "a mod 4 * 16 < (64 :: nat)" "b mod 16 * 4 < (64 :: nat)"
  using joined_bits(1) [of "a mod 4" 0] joined_bits(2) [of "b mod 16" 0] by simp_all

lemma values_of_chars: "\<forall>k \<in> set ks. k < 64 \<Longrightarrow> values_of (map url_char ks) = Some ks"
  unfolding values_of_def by (induction ks) simp_all

lemma decode_group:
  assumes "values_of [p, q, r, s] = Some [i, j, k, l]" and "r \<noteq> CHR ''=''" and "s \<noteq> CHR ''=''"
  shows "decode_groups (p # q # r # s # t) =
     map_option (\<lambda>bs. [i * 4 + j div 16, j mod 16 * 16 + k div 4, k mod 4 * 64 + l] @ bs) (decode_groups t)"
  by (cases t) (simp_all only: decode_groups.simps assms if_False simp_thms option.case list.case option.map append_Nil2)

lemma decode_encode: "\<forall>b \<in> set bs. b < 256 \<Longrightarrow> decode_groups (encode_groups bs) = Some bs"
proof (induction bs rule: encode_groups.induct)
  case (2 a)
  then show ?case using values_of_chars [of "[a div 4, a mod 4 * 16]"] high_bits(1) [of a] by simp
next
  case (3 a b)
  then have "a div 4 < 64" "b div 16 < 16" by (simp_all add: high_bits)
  moreover from this have "a mod 4 * 16 + b div 16 < 64" by (intro joined_bits) simp_all
  ultimately show ?case using values_of_chars [of "[a div 4, a mod 4 * 16 + b div 16, b mod 16 * 4]"] by simp
next
  case (4 a b c r)
  then have "a div 4 < 64" "b div 16 < 16" "c div 64 < 4" by (simp_all add: high_bits)
  moreover from this have "a mod 4 * 16 + b div 16 < 64" "b mod 16 * 4 + c div 64 < 64" by (intro joined_bits; simp)+
  moreover have "decode_groups (encode_groups r) = Some r" using 4 by simp
  ultimately show ?case
    using values_of_chars [of "[a div 4, a mod 4 * 16 + b div 16, b mod 16 * 4 + c div 64, c mod 64]"]
    by (simp add: decode_group)
qed simp

lemma URL_roundtrip: "URL_DecodeString (URL_EncodeToString s) = Some s"
proof -
  have "\<forall>b \<in> set (map of_char s). b < (256::nat)"
    using range_nat_of_char by auto
  then show ?thesis
    by (simp add: URL_DecodeString_def URL_EncodeToString_def decode_encode comp_def)
qed

end
