(* ===== verification/DockerClient.thy ===== *)
theory DockerClient
  imports Dim RegistryClient Base64
begin

text \<open>
  The client of the docker daemon (\<open>wrapper/dockerClient/dockerClient.go\<close>), which implements the
  interface \<open>Docker\<close>. The daemon is a parameter: the calls of the engine's API the code makes, as
  functions on the daemon's state \<open>'d\<close>. So are the registry that tests credentials and the
  terminal. \<open>client_state\<close> is what the client keeps: whether it is connected, the credentials
  (shared with whoever reads them next), the answers the user has still to give and what was written
  to the standard output. The prompts of \<open>ReadCredentials\<close> go to the writer of the command and are not
  kept here.
\<close>

section \<open>The daemon, the registry, the client's state\<close>

text \<open>The messages of a progress stream: a JSON value with or without a status, or text that is no
  JSON value and that the decoder never gets past.\<close>

datatype progress = Message "string option" | Garbled

record ('d, 'n) docker_env =
  en_names :: "'n names"
  en_NewEnvClient :: "unit res"
  en_now :: string
  en_ContainerCreate :: "string \<Rightarrow> string \<Rightarrow> 'd \<Rightarrow> 'd \<times> string res"
  en_ContainerCommit :: "string \<Rightarrow> string list \<Rightarrow> string \<Rightarrow> 'd \<Rightarrow> 'd \<times> unit res"
  en_ContainerRemove :: "string \<Rightarrow> bool \<Rightarrow> 'd \<Rightarrow> 'd \<times> unit res"
  en_ImagePull :: "string \<Rightarrow> string \<Rightarrow> 'd \<Rightarrow> 'd \<times> progress list option \<times> unit res"
  en_ImagePush :: "string \<Rightarrow> string \<Rightarrow> 'd \<Rightarrow> 'd \<times> progress list option \<times> unit res"
  en_ImageInspect :: "string \<Rightarrow> 'd \<Rightarrow> ImageInspect res"
  en_ImageRemove :: "string \<Rightarrow> bool \<Rightarrow> bool \<Rightarrow> 'd \<Rightarrow> 'd \<times> (string \<times> string) list \<times> unit res"
  en_NewRequest :: "string \<Rightarrow> bool"
  en_Get :: "string \<Rightarrow> AuthConfig \<Rightarrow> (nat \<times> string) res"
  en_Marshal :: "jval \<Rightarrow> string res"

record 'd client_state =
  cs_daemon :: 'd
  cs_connected :: bool
  cs_Auth :: "AuthConfig option"
  cs_answers :: "(string \<times> string) list"
  cs_out :: string

section \<open>Connecting\<close>

definition Client :: "('d, 'n) docker_env \<Rightarrow> 'd client_state \<Rightarrow> 'd client_state \<times> unit res" where
  "Client en s =
     (if \<not> cs_connected s then
        (case en_NewEnvClient en of
           Ok _ \<Rightarrow> (s\<lparr>cs_connected := True\<rparr>, Ok ())
         | e \<Rightarrow> (s, e))
      else (s, Ok ()))"

text \<open>An error the code hands to \<open>Fatalln\<close> ends the process.\<close>

fun fatal :: "'s \<times> 'a res \<Rightarrow> 's \<times> 'a res" where
  "fatal (s, Err e) = (s, Panic)"
| "fatal r = r"

definition on_daemon :: "('d \<Rightarrow> 'd \<times> 'a res) \<Rightarrow> 'd client_state \<Rightarrow> 'd client_state \<times> 'a res" where
  "on_daemon f s = (let (d, r) = f (cs_daemon s) in (s\<lparr>cs_daemon := d\<rparr>, r))"

section \<open>Building an image\<close>

definition label_entry :: "string \<times> string \<Rightarrow> string" where
  "label_entry = (\<lambda>(k, v). k @ ''=\"'' @ v @ ''\"'')"

definition changeLabels :: "strmap \<Rightarrow> string" where
  "changeLabels m = ''LABEL '' @ Join (map label_entry m) '' ''"

definition ImageBuild ::
    "('d, 'n) docker_env \<Rightarrow> string \<Rightarrow> strmap \<Rightarrow> string \<Rightarrow> 'd client_state \<Rightarrow> 'd client_state \<times> unit res" where
  "ImageBuild en parent buildLabels tag s =
     st_bind (fatal (Client en s)) (\<lambda>_ s.
       (let tempName = ''dim_'' @ en_now en
        in st_bind (fatal (on_daemon (en_ContainerCreate en parent tempName) s)) (\<lambda>created s.
           st_bind (fatal (on_daemon (en_ContainerCommit en created [changeLabels buildLabels] tag) s)) (\<lambda>_ s.
             (case on_daemon (en_ContainerRemove en created True) s of
                (s, Panic) \<Rightarrow> (s, Panic)
              | (s, _) \<Rightarrow> (s, Ok ()))))))"

section \<open>Testing credentials\<close>

text \<open>The JSON members of \<open>AuthConfig\<close>, left out when empty.\<close>

definition enc_AuthConfig :: "AuthConfig \<Rightarrow> jval" where
  "enc_AuthConfig a =
     JObj ((if auth_Username a \<noteq> [] then [(''username'', JStr (auth_Username a))] else []) @
           (if auth_Password a \<noteq> [] then [(''password'', JStr (auth_Password a))] else []))"

definition encodeAuthToBase64 :: "(jval \<Rightarrow> string res) \<Rightarrow> AuthConfig \<Rightarrow> string res" where
  "encodeAuthToBase64 marshal a = res_map URL_EncodeToString (marshal (enc_AuthConfig a))"

definition ErrDockerHubAuthenticationNotSupported :: string where
  "ErrDockerHubAuthenticationNotSupported = ''Authentication on docker hub not supported''"

text \<open>
  The loop that asks again while the registry answers 401: the credentials, the answers left and
  the last status, or the error of the server. A request that fails inside the loop has no
  response to look at. \<open>None\<close> is waiting for the next answer.
\<close>

fun auth_loop ::
    "(AuthConfig \<Rightarrow> (nat \<times> string) res) \<Rightarrow> AuthConfig \<Rightarrow> nat \<Rightarrow> (string \<times> string) list \<Rightarrow>
     (AuthConfig \<times> (string \<times> string) list \<times> nat res) option" where
  "auth_loop get a status inputs =
     (if status \<noteq> 401 then Some (a, inputs, Ok status)
      else
        (case inputs of
           [] \<Rightarrow> None
         | i # is \<Rightarrow>
             (let a' = snd (ReadCredentials i a)
              in (case get a' of
                    Ok (status', body) \<Rightarrow>
                      if status' > 401 then Some (a', is, Err (''Server error occured : '' @ body))
                      else auth_loop get a' status' is
                  | _ \<Rightarrow> Some (a', is, Panic)))))"

declare auth_loop.simps [simp del]

definition Authenticate ::
    "('d, 'n) docker_env \<Rightarrow> bool \<Rightarrow> string \<Rightarrow> 'd client_state \<Rightarrow> ('d client_state \<times> string res) option" where
  "Authenticate en insecure registryURL s =
     (if registryURL = DefaultHostname then Some (s, Err ErrDockerHubAuthenticationNotSupported)
      else
        (let a = (case cs_Auth s of None \<Rightarrow> no_auth | Some a \<Rightarrow> a);
             s = s\<lparr>cs_Auth := Some a\<rparr>;
             u = BuildURL (registryURL @ ''/v2/'') insecure
         in if \<not> en_NewRequest en u then Some (s, Panic)
            else
              (case en_Get en u a of
                 Ok (status, _) \<Rightarrow>
                   (case auth_loop (en_Get en u) a status (cs_answers s) of
                      None \<Rightarrow> None
                    | Some (a, rest, r) \<Rightarrow>
                        (let s = s\<lparr>cs_Auth := Some a, cs_answers := rest\<rparr>
                         in Some (st_bind (s, r) (\<lambda>status s.
                              if status = 404 then (s, Err (u @ '' not a private registry''))
                              else (s, encodeAuthToBase64 (en_Marshal en) a)))))
               | _ \<Rightarrow> Some (s, Panic))))"

section \<open>Pulling and pushing\<close>

text \<open>The loop over a stream ends with the stream; a message without a status prints the last one
  again. In front of text that is no JSON value it prints for ever.\<close>

partial_function (option) pull_loop :: "progress list \<Rightarrow> string \<Rightarrow> string \<Rightarrow> string option" where
  "pull_loop ms status out =
     (case ms of
        [] \<Rightarrow> Some out
      | Message st # rest \<Rightarrow>
          (let status = (case st of None \<Rightarrow> status | Some t \<Rightarrow> t)
           in pull_loop rest status (out @ status @ newline))
      | Garbled # rest \<Rightarrow> pull_loop ms status (out @ status @ newline))"

partial_function (option) push_loop :: "progress list \<Rightarrow> string \<Rightarrow> string option" where
  "push_loop ms out =
     (case ms of
        [] \<Rightarrow> Some out
      | Message st # rest \<Rightarrow> push_loop rest (out @ ''.'')
      | Garbled # rest \<Rightarrow> push_loop ms (out @ ''.''))"

lemma progress_simps [simp]:
  "pull_loop [] status out = Some out"
  "pull_loop (Message None # ms) status out = pull_loop ms status (out @ status @ newline)"
  "pull_loop (Message (Some t) # ms) status out = pull_loop ms t (out @ t @ newline)"
  "push_loop [] out = Some out"
  "push_loop (Message st # ms) out = push_loop ms (out @ ''.'')"
  by (subst pull_loop.simps push_loop.simps, simp)+

definition pull_stream ::
    "('d, 'n) docker_env \<Rightarrow> string \<Rightarrow> string \<Rightarrow> 'd client_state \<Rightarrow> ('d client_state \<times> unit res) option" where
  "pull_stream en img a s =
     (let (d, resp, r) = en_ImagePull en img a (cs_daemon s); s = s\<lparr>cs_daemon := d\<rparr>
      in (case resp of
            None \<Rightarrow> Some (s, r)
          | Some ms \<Rightarrow> map_option (\<lambda>out. (s\<lparr>cs_out := out\<rparr>, r)) (pull_loop ms [] (cs_out s))))"

definition Pull ::
    "('d, 'n) docker_env \<Rightarrow> bool \<Rightarrow> string \<Rightarrow> 'd client_state \<Rightarrow> ('d client_state \<times> unit res) option" where
  "Pull en insecure img s =
     wait_bind (Some (fatal (Client en s))) (\<lambda>_ s.
     wait_bind (Some (s, nm_ParseNamed (en_names en) img)) (\<lambda>n s.
       (case Authenticate en insecure (nm_Hostname (en_names en) n) s of
          Some (s', Err e) \<Rightarrow>
            if e = ErrDockerHubAuthenticationNotSupported then pull_stream en img [] s'
            else Some (s', Err e)
        | r \<Rightarrow> wait_bind r (pull_stream en img))))"

definition Push ::
    "('d, 'n) docker_env \<Rightarrow> bool \<Rightarrow> string \<Rightarrow> 'd client_state \<Rightarrow> ('d client_state \<times> unit res) option" where
  "Push en insecure img s =
     wait_bind (Some (fatal (Client en s))) (\<lambda>_ s.
     wait_bind (Some (s, nm_ParseNamed (en_names en) img)) (\<lambda>n s.
     wait_bind (Authenticate en insecure (nm_Hostname (en_names en) n) s) (\<lambda>a s.
       (let (d, resp, r) = en_ImagePush en img a (cs_daemon s); s = s\<lparr>cs_daemon := d\<rparr>
        in (case resp of
              None \<Rightarrow> Some (s, r)
            | Some ms \<Rightarrow>
                map_option (\<lambda>out. (s\<lparr>cs_out := out @ ''.'' @ newline\<rparr>, r))
                  (push_loop ms (cs_out s @ ''Pushing image...'')))))))"

section \<open>Inspecting and removing\<close>

definition Inspect :: "('d, 'n) docker_env \<Rightarrow> string \<Rightarrow> 'd client_state \<Rightarrow> 'd client_state \<times> ImageInspect res" where
  "Inspect en img s = st_bind (fatal (Client en s)) (\<lambda>_ s. (s, en_ImageInspect en img (cs_daemon s)))"

definition removed_lines :: "string \<times> string \<Rightarrow> string" where
  "removed_lines = (\<lambda>(deleted, untagged).
     (if deleted \<noteq> [] then deleted @ '' deleted'' @ newline else []) @
     (if untagged \<noteq> [] then untagged @ '' untagged'' @ newline else []))"

definition Remove :: "('d, 'n) docker_env \<Rightarrow> string \<Rightarrow> 'd client_state \<Rightarrow> 'd client_state \<times> unit res" where
  "Remove en img s =
     st_bind (fatal (Client en s)) (\<lambda>_ s.
       (let (d, resp, r) = en_ImageRemove en img False True (cs_daemon s)
        in (s\<lparr>cs_daemon := d, cs_out := cs_out s @ concat (map removed_lines resp)\<rparr>, r)))"

text \<open>The client as an implementation of the interface.\<close>

definition DockerClient :: "('d, 'n) docker_env \<Rightarrow> bool \<Rightarrow> 'd client_state Docker" where
  "DockerClient en insecure =
     \<lparr>dk_ImageBuild = ImageBuild en, dk_Pull = Pull en insecure, dk_Inspect = Inspect en,
      dk_Remove = Remove en, dk_Push = Push en insecure\<rparr>"

lemma on_daemon_simps [simp]:
  "f (cs_daemon s) = (d, r) \<Longrightarrow> on_daemon f s = (s\<lparr>cs_daemon := d\<rparr>, r)"
  by (simp add: on_daemon_def)

lemma Client_connected [simp]: "cs_connected s \<Longrightarrow> Client en s = (s, Ok ())"
  by (simp add: Client_def)

lemma Client_keeps [simp]: "cs_daemon (fst (fatal (Client en s))) = cs_daemon s"
  by (auto simp: Client_def split: res.splits)

interpretation dc: docker "DockerClient en insecure" cs_daemon
  by unfold_locales (simp add: DockerClient_def Inspect_def st_bind_fst)

section \<open>The label instruction\<close>

text \<open>A text with a separator is cut in one way at its first occurrence.\<close>

lemma first_cut: "c \<notin> set a \<Longrightarrow> c \<notin> set b \<Longrightarrow> a @ c # x = b @ c # y \<longleftrightarrow> a = b \<and> x = y"
proof (induction a arbitrary: b)
  case Nil
  then show ?case by (cases b) auto
next
  case (Cons h a)
  then show ?case by (cases b) auto
qed

definition plain_labels :: "strmap \<Rightarrow> bool" where
  "plain_labels m \<longleftrightarrow> (\<forall>(k, v) \<in> set m. CHR ''='' \<notin> set k \<and> CHR ''\"'' \<notin> set v)"

lemma Join_label_Cons:
  "Join (map label_entry ((k, v) # m)) '' '' =
     k @ CHR ''='' # CHR ''\"'' # v @ CHR ''\"'' # (if m = [] then [] else CHR '' '' # Join (map label_entry m) '' '')"
  by (cases m) (auto simp: label_entry_def)

lemma Join_labels_inject:
  "plain_labels m \<Longrightarrow> plain_labels n \<Longrightarrow>
   Join (map label_entry m) '' '' = Join (map label_entry n) '' '' \<Longrightarrow> m = n"
proof (induction m arbitrary: n)
  case Nil
  then show ?case by (cases n) (auto simp: Join_label_Cons simp del: list.map(2))
next
  case (Cons kv m)
  obtain k v where kv: "kv = (k, v)" by (cases kv)
  show ?case
  proof (cases n)
    case Nil
    with Cons.prems(3) show ?thesis by (simp add: kv Join_label_Cons del: list.map(2))
  next
    case (Cons kw n')
    obtain k' v' where kw: "kw = (k', v')" by (cases kw)
    note eq = Cons.prems(3) [unfolded Cons kv kw Join_label_Cons]
    have plain: "CHR ''='' \<notin> set k" "CHR ''='' \<notin> set k'" "CHR ''\"'' \<notin> set v" "CHR ''\"'' \<notin> set v'"
      "plain_labels m" "plain_labels n'"
      using Cons.prems(1,2) by (auto simp: plain_labels_def kv kw Cons)
    from eq have "k = k'" "v = v'" and rest: "(if m = [] then [] else CHR '' '' # Join (map label_entry m) '' '') =
        (if n' = [] then [] else CHR '' '' # Join (map label_entry n') '' '')"
      using plain by (simp_all only: first_cut list.inject simp_thms)
    moreover from rest have "m = n'"
      using Cons.IH [of n'] plain by (auto split: if_splits)
    ultimately show ?thesis by (simp add: Cons kv kw)
  qed
qed

text \<open>
  C26: the instruction the daemon gets for a set of labels determines it: no two sets of labels
  whose keys have no equals sign and whose values have no double quote give the same text.
\<close>

theorem changeLabels_injective:
  assumes "\<forall>(k, v) \<in> set m \<union> set n. CHR ''='' \<notin> set k \<and> CHR ''\"'' \<notin> set v"
    and "changeLabels m = changeLabels n"
  shows "m = n"
  using assms Join_labels_inject [of m n] by (auto simp: changeLabels_def plain_labels_def)

theorem changeLabels_injective_witness:
  "changeLabels [(''os'', ''debian''), (''tier'', ''web'')] \<noteq> changeLabels [(''os'', ''debian tier=web'')]"
proof
  assume "changeLabels [(''os'', ''debian''), (''tier'', ''web'')] = changeLabels [(''os'', ''debian tier=web'')]"
  from changeLabels_injective [OF _ this] show False by simp
qed

text \<open>A double quote in a value is not escaped, so these two sets of labels give one instruction.\<close>

lemma changeLabels_quotes:
  "changeLabels [(''a'', ''x''), (''y\" z'', ''w'')] = changeLabels [(''a'', ''x\" y''), (''z'', ''w'')]"
  by (simp add: changeLabels_def label_entry_def)

section \<open>The credentials sent\<close>

text \<open>The header read back, as the daemon does: base 64, JSON, the members of \<open>AuthConfig\<close>.\<close>

definition dec_auth_field :: "string \<Rightarrow> jval \<Rightarrow> AuthConfig \<Rightarrow> AuthConfig res" where
  "dec_auth_field k v a =
     (if is_field ''username'' k then res_map (\<lambda>x. a\<lparr>auth_Username := x\<rparr>) (dec_string v (auth_Username a))
      else if is_field ''password'' k then res_map (\<lambda>x. a\<lparr>auth_Password := x\<rparr>) (dec_string v (auth_Password a))
      else Ok a)"

definition read_auth :: "(string \<Rightarrow> jval res) \<Rightarrow> string \<Rightarrow> AuthConfig res" where
  "read_auth parse header =
     (case URL_DecodeString header of
        None \<Rightarrow> Err ''illegal base64 data''
      | Some t \<Rightarrow> res_bind (parse t) (\<lambda>v. dec_object dec_auth_field v no_auth))"



section \<open>Which credentials are accepted\<close>

lemma auth_loop_simps [simp]:
  "status \<noteq> 401 \<Longrightarrow> auth_loop get a status inputs = Some (a, inputs, Ok status)"
  "auth_loop get a 401 [] = None"
  "auth_loop get a 401 (i # is) =
     (case get (snd (ReadCredentials i a)) of
        Ok (status', body) \<Rightarrow>
          if status' > 401 then Some (snd (ReadCredentials i a), is, Err (''Server error occured : '' @ body))
          else auth_loop get (snd (ReadCredentials i a)) status' is
      | _ \<Rightarrow> Some (snd (ReadCredentials i a), is, Panic))"
  by (simp_all add: auth_loop.simps [of get a] Let_def)

lemma auth_loop_accepts:
  "auth_loop get a status inputs = Some (a', rest, Ok status') \<Longrightarrow>
   (\<exists>body. get a = Ok (status, body)) \<Longrightarrow> status' \<noteq> 401 \<and> (\<exists>body. get a' = Ok (status', body))"
proof (induction inputs arbitrary: a status)
  case Nil
  then show ?case by (cases "status = 401") auto
next
  case (Cons i inputs)
  let ?a = "snd (ReadCredentials i a)"
  show ?case
  proof (cases "status = 401")
    case True
    then obtain st body where "get ?a = Ok (st, body)" "auth_loop get ?a st inputs = Some (a', rest, Ok status')"
      using Cons.prems(1) by (auto split: res.splits if_splits)
    then show ?thesis using Cons.IH by blast
  next
    case False
    then show ?thesis using Cons.prems by auto
  qed
qed

lemma auth_loop_reaches:
  "k \<le> length inputs \<Longrightarrow> \<forall>j < k. \<exists>body. get (the (asked a inputs j)) = Ok (401, body) \<Longrightarrow>
   get (the (asked a inputs k)) = Ok (status', body') \<Longrightarrow> status' < 401 \<Longrightarrow> get a = Ok (status, body) \<Longrightarrow>
   auth_loop get a status inputs = Some (the (asked a inputs k), drop k inputs, Ok status')"
proof (induction k arbitrary: a inputs status body)
  case 0
  then show ?case by (simp add: asked_def)
next
  case (Suc k)
  then obtain i rest where inputs: "inputs = i # rest" by (cases inputs) auto
  let ?a = "snd (ReadCredentials i a)"
  have shift: "the (asked a (i # rest) (Suc j)) = the (asked ?a rest j)" for j by (simp add: asked_def)
  have "status = 401" using Suc.prems(2,5) by (force simp: asked_def dest: spec [of _ 0])
  moreover have later: "\<forall>j < k. \<exists>body. get (the (asked ?a rest j)) = Ok (401, body)"
    using Suc.prems(2) by (simp add: inputs flip: shift)
  moreover obtain st b where st: "get ?a = Ok (st, b)" "st \<le> 401"
    using later Suc.prems(3,4) by (cases k) (force simp: inputs asked_def)+
  moreover have "auth_loop get ?a st rest = Some (the (asked ?a rest k), drop k rest, Ok status')"
    using Suc.IH [of rest ?a st b] Suc.prems(1,3,4) later st(1) by (simp add: inputs shift)
  ultimately show ?case by (simp add: inputs shift)
qed

lemma Authenticate_sound:
  assumes "Authenticate en insecure host s = Some (s', Ok token)"
  shows "host \<noteq> DefaultHostname \<and> cs_daemon s' = cs_daemon s \<and>
    (\<exists>a status body. cs_Auth s' = Some a \<and> encodeAuthToBase64 (en_Marshal en) a = Ok token \<and>
       en_Get en (BuildURL (host @ ''/v2/'') insecure) a = Ok (status, body) \<and> status \<noteq> 401 \<and> status \<noteq> 404)"
proof -
  let ?u = "BuildURL (host @ ''/v2/'') insecure" and ?a0 = "case cs_Auth s of None \<Rightarrow> no_auth | Some a \<Rightarrow> a"
  obtain status0 body0 where first: "en_Get en ?u ?a0 = Ok (status0, body0)"
    using assms by (auto simp: Authenticate_def Let_def split: if_splits res.splits)
  obtain a rest status where loop: "auth_loop (en_Get en ?u) ?a0 status0 (cs_answers s) = Some (a, rest, Ok status)"
    and s': "s' = s\<lparr>cs_Auth := Some a, cs_answers := rest\<rparr>" "status \<noteq> 404"
      "encodeAuthToBase64 (en_Marshal en) a = Ok token" "host \<noteq> DefaultHostname"
    using assms first
    by (auto simp: Authenticate_def Let_def res_simps split: if_splits res.splits option.splits prod.splits)
  with auth_loop_accepts [OF loop] first show ?thesis by fastforce
qed


text \<open>An environment with one registry, which accepts one password.\<close>

definition sample_hub :: "string names" where
  "sample_hub = \<lparr>nm_ParseNamed = Ok, nm_Name = (\<lambda>n. n), nm_Hostname = (\<lambda>_. ''hub:5000''), nm_Tag = (\<lambda>_. None),
     nm_RefTag = (\<lambda>_. [])\<rparr>"

definition sample_env :: "(string list, string) docker_env" where
  "sample_env =
     \<lparr>en_names = sample_hub, en_NewEnvClient = Ok (), en_now = ''now'',
      en_ContainerCreate = (\<lambda>img name d. (d @ [''create '' @ img], Ok ''c1'')),
      en_ContainerCommit = (\<lambda>cid changes tag d. (d @ [''commit '' @ concat changes @ '' as '' @ tag], Ok ())),
      en_ContainerRemove = (\<lambda>cid force d. (d, Err ''busy'')),
      en_ImagePull = (\<lambda>img auth d. (d @ [''pull'', img, auth], Some [Message (Some ''done'')], Ok ())),
      en_ImagePush = (\<lambda>img auth d. (d @ [''push'', img, auth], Some [Message None], Ok ())),
      en_ImageInspect = (\<lambda>img d. Ok (sample_inspect ''mysql:5.7'')),
      en_ImageRemove = (\<lambda>img force prune d. (d @ [''remove '' @ img], [], Ok ())),
      en_NewRequest = (\<lambda>_. True),
      en_Get = (\<lambda>u a. if auth_Password a = ''pw'' then Ok (200, []) else Ok (401, [])),
      en_Marshal = (\<lambda>_. Ok ''abc'')\<rparr>"

definition sample_state :: "string list client_state" where
  "sample_state = \<lparr>cs_daemon = [], cs_connected = True, cs_Auth = Some no_auth,
     cs_answers = [(''bob'', ''x''), ([], ''pw'')], cs_out = []\<rparr>"

lemma sample_asked:
  "asked no_auth (cs_answers sample_state) 0 = Some no_auth"
  "asked no_auth (cs_answers sample_state) 1 = Some \<lparr>auth_Username = ''bob'', auth_Password = ''x''\<rparr>"
  "asked no_auth (cs_answers sample_state) 2 = Some \<lparr>auth_Username = ''bob'', auth_Password = ''pw''\<rparr>"
  by (simp_all add: sample_state_def asked_def no_auth_def ReadCredentials_def askUsername_def askPassword_def ask_def)

text \<open>
  Whoever enters credentials the registry accepts gets through: when every answer before the
  \<open>k\<close>-th was refused with 401, the client goes on with what was entered by then, and keeps it for
  the next call.
\<close>

theorem Authenticate_asks:
  assumes "host \<noteq> DefaultHostname" and "en_NewRequest en (BuildURL (host @ ''/v2/'') insecure)"
    and "cs_Auth s = Some a" and "k \<le> length (cs_answers s)"
    and "\<forall>j < k. \<exists>body. en_Get en (BuildURL (host @ ''/v2/'') insecure) (the (asked a (cs_answers s) j)) = Ok (401, body)"
    and "en_Get en (BuildURL (host @ ''/v2/'') insecure) (the (asked a (cs_answers s) k)) = Ok (status, body)"
    and "status < 401" and "encodeAuthToBase64 (en_Marshal en) (the (asked a (cs_answers s) k)) = Ok token"
  shows "Authenticate en insecure host s =
    Some (s\<lparr>cs_Auth := asked a (cs_answers s) k, cs_answers := drop k (cs_answers s)\<rparr>, Ok token)"
proof -
  let ?get = "en_Get en (BuildURL (host @ ''/v2/'') insecure)"
  have zero: "the (asked a (cs_answers s) 0) = a" by (simp add: asked_def)
  obtain st b where first: "?get a = Ok (st, b)"
    using assms(5,6) zero by (cases k) force+
  have "asked a (cs_answers s) k = Some (the (asked a (cs_answers s) k))" by (simp add: asked_def)
  with auth_loop_reaches [OF assms(4-7) first] show ?thesis
    using assms(1-3,7,8) first by (auto simp: Authenticate_def Let_def)
qed

theorem Authenticate_asks_witness:
  "Authenticate sample_env False ''hub:5000'' sample_state =
     Some (sample_state\<lparr>cs_Auth := Some \<lparr>auth_Username = ''bob'', auth_Password = ''pw''\<rparr>, cs_answers := []\<rparr>, Ok ''YWJj'')"
proof -
  let ?a = "cs_answers sample_state"
  have "URL_EncodeToString ''abc'' = ''YWJj''" by code_simp
  then have token: "encodeAuthToBase64 (en_Marshal sample_env) (the (asked no_auth ?a 2)) = Ok ''YWJj''"
    by (simp add: encodeAuthToBase64_def sample_env_def)
  have refused: "\<forall>j < 2. \<exists>body. en_Get sample_env (BuildURL (''hub:5000'' @ ''/v2/'') False) (the (asked no_auth ?a j)) = Ok (401, body)"
    using sample_asked by (auto simp: less_2_cases_iff sample_env_def no_auth_def)
  have accepted: "en_Get sample_env (BuildURL (''hub:5000'' @ ''/v2/'') False) (the (asked no_auth ?a 2)) = Ok (200, [])"
    by (simp add: sample_asked sample_env_def)
  have "drop 2 ?a = []" "2 \<le> length ?a" by (simp_all add: sample_state_def)
  then show ?thesis
    using Authenticate_asks [OF _ _ _ _ refused accepted _ token] sample_asked(3)
    by (simp add: DefaultHostname_def sample_env_def sample_state_def)
qed


section \<open>The progress of a pull and of a push\<close>

fun statuses :: "string \<Rightarrow> progress list \<Rightarrow> string list" where
  "statuses status (Message None # ms) = status # statuses status ms"
| "statuses status (Message (Some t) # ms) = t # statuses t ms"
| "statuses status _ = []"

lemma pull_loop_garbled:
  assumes "pull_loop ms status out = Some r"
  shows "Garbled \<notin> set ms"
proof (rule pull_loop.raw_induct [OF _ assms, of "\<lambda>ms status out r. Garbled \<notin> set ms"])
  fix W :: "progress list \<Rightarrow> string \<Rightarrow> string \<Rightarrow> string option" and ms status out r
  assume IH: "\<And>ms status out r. W ms status out = Some r \<Longrightarrow> Garbled \<notin> set ms"
    and r: "(case ms of [] \<Rightarrow> Some out
      | Message st # rest \<Rightarrow>
          (let status = (case st of None \<Rightarrow> status | Some t \<Rightarrow> t) in W rest status (out @ status @ newline))
      | Garbled # rest \<Rightarrow> W ms status (out @ status @ newline)) = Some r"
  then show "Garbled \<notin> set ms"
    by (cases ms; cases "hd ms") (auto simp: Let_def dest: IH)
qed

lemma push_loop_garbled:
  assumes "push_loop ms out = Some r"
  shows "Garbled \<notin> set ms"
proof (rule push_loop.raw_induct [OF _ assms, of "\<lambda>ms out r. Garbled \<notin> set ms"])
  fix W :: "progress list \<Rightarrow> string \<Rightarrow> string option" and ms out r
  assume IH: "\<And>ms out r. W ms out = Some r \<Longrightarrow> Garbled \<notin> set ms"
    and r: "(case ms of [] \<Rightarrow> Some out | Message st # rest \<Rightarrow> W rest (out @ ''.'')
      | Garbled # rest \<Rightarrow> W ms (out @ ''.'')) = Some r"
  then show "Garbled \<notin> set ms"
    by (cases ms; cases "hd ms") (auto dest: IH)
qed


end
