(* ===== verification/Commands.thy ===== *)
theory Commands
  imports DockerClient IndexConfig
begin

text \<open>
  The commands on images (\<open>cmd/root.go\<close>, \<open>cmd/label.go\<close>, \<open>cmd/delete.go\<close>, \<open>cmd/show.go\<close>,
  \<open>cmd/version.go\<close>, \<open>cmd/genpaswd.go\<close>). The global variables the flags and the environment set are
  the record \<open>globals\<close>; the flags of a command are a record of its own. A command that asks the user
  for credentials may wait for ever, and then its result is \<open>None\<close>.
\<close>

record globals =
  g_registryURL :: string
  g_username :: string
  g_password :: string
  g_insecure :: bool

text \<open>The values read from the configuration complete the URL once, before any command runs.\<close>

definition PersistentPreRun :: "(string \<Rightarrow> string) \<Rightarrow> bool \<Rightarrow> globals" where
  "PersistentPreRun viper insecure =
     \<lparr>g_registryURL = BuildURL (viper ''registry-url'') insecure, g_username = viper ''registry-user'',
      g_password = viper ''registry-password'', g_insecure = insecure\<rparr>"

text \<open>The credentials the registry client and the docker client start from.\<close>

definition auth_of :: "globals \<Rightarrow> AuthConfig option" where
  "auth_of g = (if g_username g \<noteq> [] \<or> g_password g \<noteq> []
                then Some \<lparr>auth_Username = g_username g, auth_Password = g_password g\<rparr> else None)"

section \<open>Names\<close>

text \<open>\<open>url_Host\<close> is the host of a parsed URL.\<close>

definition parseName :: "'n names \<Rightarrow> (string \<Rightarrow> string res) \<Rightarrow> string \<Rightarrow> string \<Rightarrow> 'n res" where
  "parseName nm url_Host img registryURL =
     (case nm_ParseNamed nm img of
        Err e \<Rightarrow> Err (''Failed to parse the name of the remote repository image '' @ img @ '' : '' @ e)
      | Panic \<Rightarrow> Panic
      | Ok parsedName \<Rightarrow>
          if nm_Hostname nm parsedName = DefaultHostname \<and> \<not> HasPrefix img DefaultHostname then
            (case url_Host registryURL of
               Err e \<Rightarrow> Err (''Failed to parse registry URL : '' @ e)
             | Panic \<Rightarrow> Panic
             | Ok host \<Rightarrow>
                 (case nm_ParseNamed nm (host @ ''/'' @ img) of
                    Err e \<Rightarrow> Err (''Failed to parse the name of the remote repository image : '' @ e)
                  | r \<Rightarrow> r))
          else Ok parsedName)"

definition guessTag :: "string \<Rightarrow> string \<Rightarrow> string list \<Rightarrow> bool \<Rightarrow> string res" where
  "guessTag tagOption imageName imageTags override =
     (if override \<and> tagOption = [] then
        (if \<not> ListContains imageTags imageName then
           (case imageTags of
              t # _ \<Rightarrow> Ok t
            | [] \<Rightarrow> Err ''Cannot override image with no tag. Use --tag option instead'')
         else Ok imageName)
      else Ok tagOption)"

text \<open>\<open>new_client\<close> is the registry client's \<open>New\<close> for credentials and a URL.\<close>

definition connectRegistry ::
    "'n names \<Rightarrow> (string \<Rightarrow> string res) \<Rightarrow> (AuthConfig option \<Rightarrow> string \<Rightarrow> 'c res option) \<Rightarrow> globals \<Rightarrow> string \<Rightarrow>
     ('c \<times> 'n) res option" where
  "connectRegistry nm url_Host new_client g img =
     (case parseName nm url_Host img (g_registryURL g) of
        Ok parsedName \<Rightarrow>
          map_option (\<lambda>r. case r of
              Ok client \<Rightarrow> Ok (client, parsedName)
            | Err e \<Rightarrow> Err (''Failed to connect to registry : '' @ e)
            | Panic \<Rightarrow> Panic)
            (new_client (auth_of g) (BuildURL (nm_Hostname nm parsedName) (g_insecure g)))
      | Err e \<Rightarrow> Some (Err e)
      | Panic \<Rightarrow> Some Panic)"

section \<open>Configuration files\<close>

definition readConfigHooks ::
    "(string \<Rightarrow> (string, 'f) gomap \<Rightarrow> string \<Rightarrow> 't res) \<Rightarrow> 't Hook list res \<Rightarrow> (string, 'f) gomap \<Rightarrow> ('t, 'f) Config res" where
  "readConfigHooks parse configured hookFns =
     res_bind configured (\<lambda>hooks.
       (let cfg = fold (\<lambda>(n, f). RegisterFunction n f) hookFns
                    \<lparr>cfg_Directory = [], cfg_Hooks = hooks, cfg_funcMap = None\<rparr>;
            (cfg', r) = ParseHooks parse cfg
        in res_map (\<lambda>_. cfg') r))"

fun compile_all :: "(string \<Rightarrow> (string \<Rightarrow> bool) res) \<Rightarrow> Authorization list \<Rightarrow> Authorization list res" where
  "compile_all compile [] = Ok []"
| "compile_all compile (auth # auths) =
     (let (auth', r) = CompilePath compile auth
      in res_bind r (\<lambda>_. res_map (\<lambda>rest. auth' # rest) (compile_all compile auths)))"

definition readServerConfig ::
    "(string \<Rightarrow> (string \<Rightarrow> bool) res) \<Rightarrow> Authorization list res \<Rightarrow> string \<Rightarrow> ServerConfig res" where
  "readServerConfig compile configured port =
     res_bind configured (\<lambda>auths.
     res_map (\<lambda>auths'. \<lparr>sc_Port = port, sc_Authorizations = auths'\<rparr>) (compile_all compile auths))"

section \<open>The label command\<close>

record label_flags =
  lf_delete :: bool
  lf_image :: string
  lf_remote :: bool
  lf_override :: bool
  lf_pull :: bool

definition label_command ::
    "'d Docker \<Rightarrow> label_flags \<Rightarrow> string list \<Rightarrow> 'd \<Rightarrow> ('d \<times> unit res) option" where
  "label_command dk fl args d =
     (case args of
        img # l # ls \<Rightarrow>
          (let labels = l # ls in
           wait_bind (if lf_pull fl then dk_Pull dk img d else Some (d, Ok ())) (\<lambda>_ d.
           wait_bind (Some (GetImageInfo dk img d)) (\<lambda>(_, imageTags) d.
           wait_bind (Some (d, guessTag (lf_image fl) img imageTags (lf_override fl))) (\<lambda>tag d.
           wait_bind (Some (if lf_delete fl then RemoveLabel dk img labels tag d
                            else AddLabel dk img labels tag d)) (\<lambda>_ d.
           wait_bind (Some (if lf_override fl \<and> ListContains imageTags img \<and> img \<noteq> tag
                            then dk_Remove dk img d else (d, Ok ()))) (\<lambda>_ d.
             if lf_remote fl then dk_Push dk tag d else Some (d, Ok ())))))))
      | _ \<Rightarrow> Some (d, Err ''Missing argument. See help''))"

section \<open>The delete command\<close>

text \<open>What the removal of the local image returns is dropped. \<open>connect\<close> is \<open>connectRegistry\<close> and
  \<open>delete_image\<close> the deletion on the registry, whose state is \<open>'r\<close>.\<close>

definition doDelete ::
    "'d Docker \<Rightarrow> (string \<Rightarrow> ('c \<times> 'n) res option) \<Rightarrow> ('c \<Rightarrow> 'n \<Rightarrow> 'r \<Rightarrow> 'r \<times> unit res) \<Rightarrow> bool \<Rightarrow> string \<Rightarrow>
     'd \<times> 'r \<Rightarrow> (('d \<times> 'r) \<times> unit res) option" where
  "doDelete dk connect delete_image remoteFlag img s =
     (case dk_Remove dk img (fst s) of
        (d, Panic) \<Rightarrow> Some ((d, snd s), Panic)
      | (d, _) \<Rightarrow>
          if remoteFlag then
            (case connect img of
               None \<Rightarrow> None
             | Some (Err e) \<Rightarrow> Some ((d, snd s), Err e)
             | Some Panic \<Rightarrow> Some ((d, snd s), Panic)
             | Some (Ok (client, parsedName)) \<Rightarrow>
                 (let (r, e) = delete_image client parsedName (snd s) in Some ((d, r), e)))
          else Some ((d, snd s), Ok ()))"

text \<open>\<open>piped\<close> holds the lines of the standard input when it is a pipe.\<close>

fun delete_lines ::
    "(string \<Rightarrow> 's \<Rightarrow> ('s \<times> unit res) option) \<Rightarrow> string list \<Rightarrow> 's \<Rightarrow> ('s \<times> unit res) option" where
  "delete_lines del [] s = Some (s, Ok ())"
| "delete_lines del (l # ls) s = wait_bind (del l s) (\<lambda>_. delete_lines del ls)"

definition runDelete ::
    "(string \<Rightarrow> 's \<Rightarrow> ('s \<times> unit res) option) \<Rightarrow> string list option \<Rightarrow> string list \<Rightarrow> 's \<Rightarrow> ('s \<times> unit res) option" where
  "runDelete del piped args s =
     (case args of
        img # _ \<Rightarrow> del img s
      | [] \<Rightarrow>
          (case piped of
             Some ls \<Rightarrow> delete_lines del ls s
           | None \<Rightarrow> Some (s, Err ''image name missing'')))"

section \<open>The show command\<close>

record show_flags =
  sf_template :: string
  sf_remote :: bool
  sf_output :: string

definition infoTpl :: string where
  "infoTpl = concat (map (\<lambda>l. l @ newline)
     [''Name : {{range $i, $e := .RepoTags}} {{if eq $i  0}}{{$e}}{{end}}{{end}}'',
      ''Id :  {{.ID}}'',
      ''Labels:'',
      ''{{range $k, $v := .Config.Labels}}{{$k}} = {{$v}}'',
      ''{{end}}'',
      ''Tags:'',
      ''{{range $i, $e := .RepoTags}}{{$e}}'',
      ''{{end}}'',
      ''Ports :'',
      ''{{range $k, $v := .Config.ExposedPorts}}{{$k}} = {{$v}}'',
      ''{{end}}'',
      ''Volumes:'',
      ''{{range $k, $v := .Config.Volumes}}{{$k}} = {{$v}}'',
      ''{{end}}'',
      ''Env :'',
      ''{{ range $i, $e := .Config.Env}} {{$e}}'',
      ''{{end}}'',
      ''Entrypoint : {{.Config.Entrypoint}}'',
      ''Command : {{.Config.Cmd}}''])"

text \<open>
  \<open>create\<close> opens the output file and \<open>parse_template\<close> is \<open>templates.Parse\<close>. \<open>print_remote\<close> and
  \<open>print_local\<close> give the text the template writes. The result tells the files created, what was
  written and where: into a file or, with an empty name, to the standard output.
\<close>

definition runShow ::
    "(string \<Rightarrow> 't res) \<Rightarrow> (string \<Rightarrow> unit res) \<Rightarrow> (string \<Rightarrow> ('c \<times> 'n) res option) \<Rightarrow> ('c \<Rightarrow> 'n \<Rightarrow> 't \<Rightarrow> string res) \<Rightarrow>
     (string \<Rightarrow> 't \<Rightarrow> 'd \<Rightarrow> 'd \<times> string res) \<Rightarrow> show_flags \<Rightarrow> string list \<Rightarrow> 'd \<times> string list \<Rightarrow>
     (('d \<times> string list) \<times> (string \<times> string) res) option" where
  "runShow parse_template create connect print_remote print_local fl args s =
     (case args of
        [] \<Rightarrow> Some (s, Err ''image name is missing'')
      | img # _ \<Rightarrow>
          (let t = (if sf_template fl \<noteq> [] then sf_template fl else infoTpl) in
           wait_bind (Some (s, parse_template t)) (\<lambda>tpl s.
           wait_bind (if sf_output fl = [] then Some (s, Ok ())
                      else (case create (sf_output fl) of
                              Ok _ \<Rightarrow> Some ((fst s, snd s @ [sf_output fl]), Ok ())
                            | Err e \<Rightarrow> Some (s, Err (''Failed to open file '' @ sf_output fl @ '' : '' @ e))
                            | Panic \<Rightarrow> Some (s, Panic))) (\<lambda>_ s.
             if sf_remote fl then
               (case connect img of
                  None \<Rightarrow> None
                | Some r \<Rightarrow> Some (s, res_bind r (\<lambda>(client, parsedName).
                                res_map (Pair (sf_output fl)) (print_remote client parsedName tpl))))
             else
               (let (d, r) = print_local img tpl (fst s)
                in Some ((d, snd s), res_map (Pair (sf_output fl)) r))))))"

text \<open>
  A remote image that is shown was found in the registry under its tag; the template sees its
  configuration and that tag, and never an ID.
\<close>

lemma show_remote:
  assumes "runShow parse_template create connect (\<lambda>c n t. Client_PrintImageInfo nm (svc c) reg n (execute t)) loc fl (img # args) s =
      Some (s', Ok (out, text))" and "sf_remote fl"
  shows "out = sf_output fl \<and> (\<exists>tpl c n rp im v1.
      parse_template (if sf_template fl \<noteq> [] then sf_template fl else infoTpl) = Ok tpl \<and> connect img = Some (Ok (c, n)) \<and>
      NewRepository (svc c) (local_name nm n) = Ok rp \<and> snd (RepoImage rp reg (ParseTag nm n)) = Ok im \<and>
      ri_Image im = Some v1 \<and> execute tpl (shown_image im v1) = Ok text \<and> ii_ID (shown_image im v1) = [])"
proof -
  have "ii_ID (shown_image im v1) = []" for im v1 by (simp add: shown_image_def)
  moreover obtain tpl c n where "parse_template (if sf_template fl \<noteq> [] then sf_template fl else infoTpl) = Ok tpl"
      "connect img = Some (Ok (c, n))" "out = sf_output fl"
      "Client_PrintImageInfo nm (svc c) reg n (execute tpl) = Ok text"
    using assms
    by (auto simp: runShow_def Let_def wait_bind_Ok_iff res_bind_Ok_iff res_map_Ok_iff split: if_splits res.splits option.splits)
  ultimately show ?thesis by (auto simp: Client_PrintImageInfo_Ok)
qed

section \<open>The version command\<close>

text \<open>\<open>silent_new\<close> is \<open>SilentNew\<close> of the registry client. The text printed and the error returned.\<close>

definition PrintVersion ::
    "(AuthConfig option \<Rightarrow> string \<Rightarrow> 'c res) \<Rightarrow> ('c \<Rightarrow> Info res) \<Rightarrow> globals \<Rightarrow> string \<Rightarrow> string \<times> unit res" where
  "PrintVersion silent_new server_version g version =
     (let out = ''dim version : '' @ version @ newline
      in if g_registryURL g = [] then (out, Ok ())
         else
           (case res_bind (silent_new (auth_of g) (g_registryURL g)) server_version of
              Ok infos \<Rightarrow>
                (out @ ''server version : '' @ info_Version infos @ newline @
                   ''server uptime : '' @ info_Uptime infos @ newline, Ok ())
            | Err e \<Rightarrow> (out @ ''N/A ('' @ e @ '')'' @ newline, Err e)
            | Panic \<Rightarrow> (out, Panic)))"

section \<open>The genpasswd command\<close>

text \<open>The loop asks until it gets a password; \<open>None\<close> is waiting for an answer.\<close>

fun ask_passwd :: "string list \<Rightarrow> string \<Rightarrow> (string \<times> string) option" where
  "ask_passwd [] out = None"
| "ask_passwd (p # ps) out =
     (let out = out @ ''Password :'' in if p = [] then ask_passwd ps out else Some (p, out))"

definition runGenPasswd :: "string list \<Rightarrow> string list \<Rightarrow> string option" where
  "runGenPasswd args answers =
     (case args of
        p # _ \<Rightarrow> Some (Sha256 p @ newline)
      | [] \<Rightarrow> map_option (\<lambda>(p, out). out @ Sha256 p @ newline) (ask_passwd answers []))"

text \<open>The operations before the removal and the push do not depend on them.\<close>

lemma labels_other_calls:
  "GetImageInfo (dk\<lparr>dk_Remove := rm\<rparr>) = GetImageInfo dk" "GetImageInfo (dk\<lparr>dk_Push := ps\<rparr>) = GetImageInfo dk"
  "GetImageLabels (dk\<lparr>dk_Remove := rm\<rparr>) = GetImageLabels dk" "GetImageLabels (dk\<lparr>dk_Push := ps\<rparr>) = GetImageLabels dk"
  "AddLabel (dk\<lparr>dk_Remove := rm\<rparr>) = AddLabel dk" "AddLabel (dk\<lparr>dk_Push := ps\<rparr>) = AddLabel dk"
  "RemoveLabel (dk\<lparr>dk_Remove := rm\<rparr>) = RemoveLabel dk" "RemoveLabel (dk\<lparr>dk_Push := ps\<rparr>) = RemoveLabel dk"
  by (simp_all add: GetImageInfo_def GetImageLabels_def AddLabel_def RemoveLabel_def fun_eq_iff cong: if_cong)

lemma labels_unbuilt:
  assumes "\<forall>p m t d. \<not> is_ok (snd (dk_ImageBuild dk p m t d))"
  shows "snd (AddLabel dk img ls tag d) \<noteq> Ok ()" "snd (RemoveLabel dk img ls tag d) \<noteq> Ok ()"
  using assms by (auto simp: AddLabel_def RemoveLabel_def is_ok_iff intro!: st_bind_not_Ok split: if_splits)

text \<open>
  C20: what the label command can never do. Without \<open>--tag\<close> it never removes an image, whatever the
  other flags; without \<open>--remote\<close> it never pushes; and neither happens when no image could be built.
\<close>

theorem label_command_safe:
  "(lf_image fl = [] \<longrightarrow> label_command (dk\<lparr>dk_Remove := rm\<rparr>) fl args d = label_command dk fl args d) \<and>
   (\<not> lf_remote fl \<longrightarrow> label_command (dk\<lparr>dk_Push := ps\<rparr>) fl args d = label_command dk fl args d) \<and>
   ((\<forall>p m t d. \<not> is_ok (snd (dk_ImageBuild dk p m t d))) \<longrightarrow>
      label_command (dk\<lparr>dk_Remove := rm, dk_Push := ps\<rparr>) fl args d = label_command dk fl args d)"
proof (intro conjI impI)
  assume tag: "lf_image fl = []"
  show "label_command (dk\<lparr>dk_Remove := rm\<rparr>) fl args d = label_command dk fl args d"
    unfolding label_command_def labels_other_calls
    using tag by (auto simp: Let_def guessTag_def split: list.splits if_splits intro!: wait_bind_cong cong: if_cong)
next
  assume "\<not> lf_remote fl"
  then show "label_command (dk\<lparr>dk_Push := ps\<rparr>) fl args d = label_command dk fl args d"
    by (simp add: label_command_def labels_other_calls Let_def split: list.split cong: if_cong)
next
  assume unbuilt: "\<forall>p m t d. \<not> is_ok (snd (dk_ImageBuild dk p m t d))"
  have "(if b then RemoveLabel dk img ls tag d else AddLabel dk img ls tag d) \<noteq> (d', Ok ())" for b img ls tag d d'
    using labels_unbuilt [OF unbuilt, of img ls tag d] by (cases b) auto
  then show "label_command (dk\<lparr>dk_Remove := rm, dk_Push := ps\<rparr>) fl args d = label_command dk fl args d"
    unfolding label_command_def labels_other_calls
    by (auto simp: Let_def split: list.splits intro!: wait_bind_cong)
qed

text \<open>What the docker client does on the way to a build.\<close>

lemma Inspect_Ok:
  "dk_Inspect (DockerClient en k) img s = (s', Ok ii) \<longleftrightarrow>
     fatal (Client en s) = (s', Ok ()) \<and> en_ImageInspect en img (cs_daemon s') = Ok ii"
  by (cases "fatal (Client en s)"; cases "snd (fatal (Client en s))") (auto simp: DockerClient_def Inspect_def)

lemma Client_again: "fatal (Client en s) = (s', Ok ()) \<Longrightarrow> cs_daemon s' = cs_daemon s \<and> Client en s' = (s', Ok ())"
  by (auto simp: Client_def split: if_splits res.splits)

lemma fatal_Ok_iff [res_simps]: "fatal r = (s, Ok a) \<longleftrightarrow> r = (s, Ok a)"
  by (cases r rule: fatal.cases) auto

lemma on_daemon_Ok [res_simps]:
  "on_daemon f s = (s', Ok a) \<longleftrightarrow> (\<exists>d. f (cs_daemon s) = (d, Ok a) \<and> s' = s\<lparr>cs_daemon := d\<rparr>)"
  by (auto simp: on_daemon_def split: prod.splits)

lemma ImageBuild_Ok:
  assumes "ImageBuild en parent ls tag s = (s', Ok ())" and "Client en s = (s, Ok ())"
  shows "\<exists>cid d1 d2. en_ContainerCreate en parent (''dim_'' @ en_now en) (cs_daemon s) = (d1, Ok cid) \<and>
    en_ContainerCommit en cid [changeLabels ls] tag d1 = (d2, Ok ()) \<and>
    cs_daemon s' = fst (en_ContainerRemove en cid True d2)"
proof -
  obtain cid d1 d2 where "en_ContainerCreate en parent (''dim_'' @ en_now en) (cs_daemon s) = (d1, Ok cid)"
    "en_ContainerCommit en cid [changeLabels ls] tag d1 = (d2, Ok ())"
    and r: "(case on_daemon (en_ContainerRemove en cid True) (s\<lparr>cs_daemon := d2\<rparr>) of
        (s, Panic) \<Rightarrow> (s, Panic) | (s, _) \<Rightarrow> (s, Ok ())) = (s', Ok ())"
    using assms by (auto simp: ImageBuild_def Let_def res_simps)
  moreover from r have "cs_daemon s' = fst (en_ContainerRemove en cid True d2)"
    by (auto simp: on_daemon_def Let_def split: prod.splits res.splits)
  ultimately show ?thesis by blast
qed

lemma wanted_labels_nonempty:
  assumes "l \<in> set labels" and "label_pair l \<noteq> None"
  shows "wanted_labels labels \<noteq> []"
proof -
  obtain k v where "label_pair l = Some (k, v)" using assms(2) by auto
  with assms(1) have "(k, v) \<in> set (List.map_filter label_pair labels)" by (force simp: map_filter_def)
  then have "map_of (rev (List.map_filter label_pair labels)) k \<noteq> None"
    using weak_map_of_SomeI [of k v "rev (List.map_filter label_pair labels)"] by auto
  then obtain u where "(k, u) \<in> set (wanted_labels labels)" by (auto simp: wanted_labels_def gm.entries_build)
  then show ?thesis by auto
qed

lemma AddLabel_Ok:
  assumes "AddLabel dk img labels tag d = (d', Ok ())"
  shows "\<exists>d1 ii cfg. dk_Inspect dk img d = (d1, Ok ii) \<and> ii_Config ii = Some cfg \<and> wanted_labels labels \<noteq> [] \<and>
    \<not> MapMatchesAll (cc_Labels cfg) (Some (wanted_labels labels)) \<and>
    dk_ImageBuild dk img (wanted_labels labels) tag d1 = (d', Ok ())"
proof -
  obtain m where m: "label_loop labels [] = Ok m"
    using assms by (cases "label_loop labels []") (auto simp: AddLabel_def split: if_splits)
  then have w: "m = wanted_labels labels" "\<forall>l \<in> set labels. label_pair l \<noteq> None"
    by (auto simp: label_loop_eq wanted_labels_def find_None_iff split: option.splits)
  obtain l ls where "labels = l # ls" using assms by (cases labels) (auto simp: AddLabel_def)
  with w(2) have "wanted_labels labels \<noteq> []" by (intro wanted_labels_nonempty [of l]) auto
  with assms m w(1) show ?thesis
    by (auto simp: AddLabel_def GetImageLabels_def res_simps split: if_splits option.splits)
qed

text \<open>
  \<open>dim label\<close> from the command line to the daemon. When adding labels succeeds, the daemon was
  asked for one container of the image and committed it, under the tag of \<open>--tag\<close>, with the one
  instruction that sets the labels given on the command line, and the container was removed; at
  least one label was not there before.
\<close>

theorem label_command_commits:
  assumes "label_command (DockerClient en insecure) fl (img # labels) s = Some (s', Ok ())"
    and "\<not> lf_delete fl" and "\<not> lf_pull fl" and "\<not> lf_override fl" and "\<not> lf_remote fl"
  shows "\<exists>ii cfg cid d1 d2. en_ImageInspect en img (cs_daemon s) = Ok ii \<and> ii_Config ii = Some cfg \<and>
    \<not> map_of (wanted_labels labels) \<subseteq>\<^sub>m map_of (nil_or (cc_Labels cfg)) \<and>
    en_ContainerCreate en img (''dim_'' @ en_now en) (cs_daemon s) = (d1, Ok cid) \<and>
    en_ContainerCommit en cid [changeLabels (wanted_labels labels)] (lf_image fl) d1 = (d2, Ok ()) \<and>
    cs_daemon s' = fst (en_ContainerRemove en cid True d2)"
proof -
  let ?dk = "DockerClient en insecure"
  obtain l ls where labels: "labels = l # ls" using assms(1) by (cases labels) (auto simp: label_command_def)
  obtain s1 i tags where info: "GetImageInfo ?dk img s = (s1, Ok (i, tags))"
    and add: "AddLabel ?dk img labels (lf_image fl) s1 = (s', Ok ())"
    using assms by (auto simp: label_command_def labels Let_def res_simps guessTag_def)
  obtain ii0 where "dk_Inspect ?dk img s = (s1, Ok ii0)"
    using info by (auto simp: GetImageInfo_def res_simps)
  then have s1: "cs_daemon s1 = cs_daemon s" "Client en s1 = (s1, Ok ())"
    using Client_again by (auto simp: Inspect_Ok)
  obtain s2 ii cfg where two: "dk_Inspect ?dk img s1 = (s2, Ok ii)" and ii: "ii_Config ii = Some cfg"
    and some: "wanted_labels labels \<noteq> []" and lacks: "\<not> MapMatchesAll (cc_Labels cfg) (Some (wanted_labels labels))"
    and build: "dk_ImageBuild ?dk img (wanted_labels labels) (lf_image fl) s2 = (s', Ok ())"
    using AddLabel_Ok [OF add] by blast
  from two s1 have s2: "s2 = s1" and insp: "en_ImageInspect en img (cs_daemon s) = Ok ii"
    by (auto simp: Inspect_Ok)
  have "\<not> map_of (wanted_labels labels) \<subseteq>\<^sub>m map_of (nil_or (cc_Labels cfg))"
  proof (cases "cc_Labels cfg")
    case None
    with some show ?thesis by (cases "wanted_labels labels") (auto simp: map_le_def)
  next
    case (Some actual)
    have "\<forall>(k, v) \<in> set (wanted_labels labels). v \<noteq> []" using wanted_labels_values by blast
    with Some lacks show ?thesis using MapMatchesAll_iff [of "wanted_labels labels" actual] by simp
  qed
  moreover note ImageBuild_Ok [of en img "wanted_labels labels" "lf_image fl" s1 s'] 
  ultimately show ?thesis using s1 s2 insp ii build by (auto simp: DockerClient_def)
qed

definition label_flags_plain :: label_flags where
  "label_flags_plain = \<lparr>lf_delete = False, lf_image = ''mysql:web'', lf_remote = False, lf_override = False, lf_pull = False\<rparr>"

lemma sample_wanted: "label_loop [''tier=web''] [] = Ok [(''tier'', ''web'')]" "wanted_labels [''tier=web''] = [(''tier'', ''web'')]"
proof -
  have "label_pair ''tier=web'' = Some (''tier'', ''web'')" by (simp add: label_pair_iff)
  then show "label_loop [''tier=web''] [] = Ok [(''tier'', ''web'')]" "wanted_labels [''tier=web''] = [(''tier'', ''web'')]"
    by (simp_all add: label_loop_Cons wanted_labels_def mput_def map_filter_simps del: label_loop.simps(2))
qed

theorem label_command_safe_witness:
  "label_command ((DockerClient sample_env False)\<lparr>dk_Remove := (\<lambda>img s. (s, Panic))\<rparr>)
       (label_flags_plain\<lparr>lf_image := [], lf_override := True\<rparr>) [''mysql:5.7'', ''tier=web''] sample_state =
     label_command (DockerClient sample_env False)
       (label_flags_plain\<lparr>lf_image := [], lf_override := True\<rparr>) [''mysql:5.7'', ''tier=web''] sample_state"
  by (rule label_command_safe [THEN conjunct1, THEN mp]) simp

theorem label_command_commits_witness:
  "\<exists>s'. label_command (DockerClient sample_env False) label_flags_plain [''mysql'', ''tier=web''] sample_state = Some (s', Ok ()) \<and>
     cs_daemon s' = [''create mysql'', ''commit '' @ changeLabels [(''tier'', ''web'')] @ '' as mysql:web'']"
proof -
  obtain s' where s': "label_command (DockerClient sample_env False) label_flags_plain [''mysql'', ''tier=web''] sample_state = Some (s', Ok ())"
    by (simp add: label_command_def DockerClient_def label_flags_plain_def GetImageInfo_def Inspect_def guessTag_def
        AddLabel_def GetImageLabels_def ImageBuild_def sample_wanted sample_env_def sample_state_def sample_inspect_def
        Let_def MapMatchesAll_def mindex_def on_daemon_def del: label_loop.simps)
  from label_command_commits [OF this] s' show ?thesis
    by (auto simp: label_flags_plain_def sample_env_def sample_state_def sample_wanted)
qed

section \<open>The rules of a started server\<close>

lemma CompilePath_Ok:
  "CompilePath compile a = (a', Ok ()) \<Longrightarrow> au_regexp a' \<noteq> None \<and> a' = a\<lparr>au_regexp := au_regexp a'\<rparr>"
  by (auto simp: CompilePath_def Let_def split: res.splits)

lemma compile_all_Ok:
  "compile_all compile auths = Ok auths' \<Longrightarrow>
   list_all2 (\<lambda>a a'. au_regexp a' \<noteq> None \<and> a' = a\<lparr>au_regexp := au_regexp a'\<rparr>) auths auths'"
proof (induction auths arbitrary: auths')
  case (Cons a auths)
  obtain a' r where c: "CompilePath compile a = (a', r)" by (cases "CompilePath compile a") auto
  with Cons.prems obtain rest where rest: "r = Ok ()" "compile_all compile auths = Ok rest" "auths' = a' # rest"
    by (auto simp: res_simps)
  then show ?case using Cons.IH [OF rest(2)] CompilePath_Ok [of compile a a'] c by simp
qed simp

lemma compiled_list: "list_all2 (\<lambda>a a'. au_regexp a' \<noteq> None \<and> P a a') auths auths' \<Longrightarrow> compiled auths'"
  by (induction rule: list_all2_induct) (auto simp: compiled_def)

lemma readServerConfig_Ok:
  assumes "readServerConfig compile configured port = Ok cfg"
  shows "sc_Port cfg = port" and "compiled (sc_Authorizations cfg)"
    and "\<exists>auths. configured = Ok auths \<and>
       list_all2 (\<lambda>a a'. \<exists>r. a' = a\<lparr>au_regexp := Some r\<rparr>) auths (sc_Authorizations cfg)"
proof -
  obtain auths auths' where a: "configured = Ok auths" "compile_all compile auths = Ok auths'"
    and cfg: "cfg = \<lparr>sc_Port = port, sc_Authorizations = auths'\<rparr>"
    using assms by (auto simp: readServerConfig_def res_simps)
  note l = compile_all_Ok [OF a(2)]
  then have "compiled auths'" by (rule compiled_list)
  moreover have "list_all2 (\<lambda>a a'. \<exists>r. a' = a\<lparr>au_regexp := Some r\<rparr>) auths auths'"
    using l by (rule list_all2_mono) auto
  ultimately show "sc_Port cfg = port" "compiled (sc_Authorizations cfg)"
    "\<exists>auths. configured = Ok auths \<and>
       list_all2 (\<lambda>a a'. \<exists>r. a' = a\<lparr>au_regexp := Some r\<rparr>) auths (sc_Authorizations cfg)"
    using a cfg by simp_all
qed



section \<open>Deleting several images\<close>

text \<open>The lines after one whose deletion fails are not looked at.\<close>

lemma delete_lines_append:
  "delete_lines del (ls @ ms) s = wait_bind (delete_lines del ls s) (\<lambda>_. delete_lines del ms)"
proof (induction ls arbitrary: s)
  case (Cons l ls)
  then show ?case by (simp add: wait_bind_assoc) (rule wait_bind_cong, simp)
qed simp

text \<open>A local image that cannot be removed is no reason to keep the remote one.\<close>

lemma doDelete_local_failure:
  assumes "dk_Remove dk img d = (d', Err e)" and "connect img = Some (Ok (client, n))"
  shows "doDelete dk connect delete_image True img (d, r) =
    (let (r', e') = delete_image client n r in Some ((d', r'), e'))"
  using assms by (simp add: doDelete_def)

end
