(* ===== verification/Hooks.thy ===== *)
theory Hooks
  imports Commands
begin

text \<open>
  The functions hook templates may call (\<open>cmd/server.go\<close>: \<open>hookFunctions\<close>) and the ones that only
  tell what they would do (\<open>cmd/hooktest.go\<close>: \<open>mockHookFunctions\<close>), with the command that runs the
  hooks of a configuration on one image (\<open>runHooktest\<close>).
\<close>

section \<open>Requests of hooks\<close>

record notificationRequest =
  nr_method :: string
  nr_payload :: string
  nr_headers :: "(string, string list) gomap"

type_synonym notificationRequestOption = "notificationRequest \<Rightarrow> notificationRequest"

definition defaultNotificationRequest :: notificationRequest where
  "defaultNotificationRequest = \<lparr>nr_method = ''GET'', nr_payload = [], nr_headers = []\<rparr>"

text \<open>
  The canonical form of a header key: the first letter and those after a hyphen in upper case, the
  other letters in lower case; a key with a byte no header name has is kept.
\<close>

definition is_token :: "char \<Rightarrow> bool" where
  "is_token c \<longleftrightarrow>
     (let k = of_char c :: nat
      in (48 \<le> k \<and> k \<le> 57) \<or> (65 \<le> k \<and> k \<le> 90) \<or> (97 \<le> k \<and> k \<le> 122) \<or>
         c \<in> set ''!#$%&*+-.^_|~'' \<or> k = 39 \<or> k = 96)"

definition upper :: "char \<Rightarrow> char" where
  "upper c = (let k = of_char c :: nat in if 97 \<le> k \<and> k \<le> 122 then char_of (k - 32) else c)"

fun canonical_bytes :: "bool \<Rightarrow> string \<Rightarrow> string" where
  "canonical_bytes up [] = []"
| "canonical_bytes up (c # cs) = (if up then upper c else lower c) # canonical_bytes (c = CHR ''-'') cs"

definition CanonicalHeaderKey :: "string \<Rightarrow> string" where
  "CanonicalHeaderKey k = (if list_all is_token k then canonical_bytes True k else k)"

definition header_values :: "(string, string list) gomap \<Rightarrow> string \<Rightarrow> string list" where
  "header_values h k = (case map_of h k of None \<Rightarrow> [] | Some vs \<Rightarrow> vs)"

definition header_Add :: "string \<Rightarrow> string \<Rightarrow> (string, string list) gomap \<Rightarrow> (string, string list) gomap" where
  "header_Add k v h = mput (CanonicalHeaderKey k) (header_values h (CanonicalHeaderKey k) @ [v]) h"

definition header_Set :: "string \<Rightarrow> string \<Rightarrow> (string, string list) gomap \<Rightarrow> (string, string list) gomap" where
  "header_Set k v h = mput (CanonicalHeaderKey k) [v] h"

definition withPayload :: "string \<Rightarrow> notificationRequestOption" where
  "withPayload payload = (\<lambda>req. req\<lparr>nr_payload := payload\<rparr>)"

definition withMethod :: "string \<Rightarrow> notificationRequestOption" where
  "withMethod method = (\<lambda>req. req\<lparr>nr_method := method\<rparr>)"

definition withHeader :: "string \<Rightarrow> string \<Rightarrow> notificationRequestOption" where
  "withHeader k v = (\<lambda>req. req\<lparr>nr_headers := header_Add k v (nr_headers req)\<rparr>)"

text \<open>Every call starts from a copy of the defaults with headers of its own.\<close>

definition build_request :: "notificationRequestOption list \<Rightarrow> notificationRequest" where
  "build_request options = fold (\<lambda>opts req. opts req) options (defaultNotificationRequest\<lparr>nr_headers := []\<rparr>)"

text \<open>
  \<open>new_request\<close> tells whether the method and the URL make a request; the code does not look at the
  error. \<open>do\<close> sends it: the status line, or the error of the transport.
\<close>

definition sendRequest ::
    "(string \<Rightarrow> string \<Rightarrow> bool) \<Rightarrow> (string \<Rightarrow> notificationRequest \<Rightarrow> 'w \<Rightarrow> 'w \<times> string res) \<Rightarrow>
     string \<Rightarrow> notificationRequestOption list \<Rightarrow> 'w \<Rightarrow> 'w \<times> unit res" where
  "sendRequest new_request do url options w =
     (let request = build_request options
      in if \<not> new_request (nr_method request) url then (w, Panic)
         else st_bind (do url request w) (\<lambda>_ w. (w, Ok ())))"

text \<open>A header printed with \<open>%v\<close>.\<close>

definition show_headers :: "(string, string list) gomap \<Rightarrow> string" where
  "show_headers h = ''map['' @ Join (map (\<lambda>(k, vs). k @ '':['' @ Join vs '' '' @ '']'') h) '' '' @ '']''"

definition mock_sendRequest :: "string \<Rightarrow> notificationRequestOption list \<Rightarrow> string \<Rightarrow> string \<times> unit res" where
  "mock_sendRequest url options out =
     (let request = build_request options
      in if nr_payload request = [] then
           (out @ ''Would have sent request with method '' @ nr_method request @ '' to '' @ url @
              '' with headers '' @ show_headers (nr_headers request) @ newline, Ok ())
         else
           (out @ ''Would have sent payload '' @ nr_payload request @ '' with method '' @ nr_method request @
              '' to '' @ url @ '' with headers '' @ show_headers (nr_headers request) @ newline, Ok ()))"

section \<open>Logging\<close>

text \<open>An argument of a logging function: a string, or a value of another type with its text.\<close>

datatype hook_arg = HStr string | HOther string

fun arg_text :: "hook_arg \<Rightarrow> string" where
  "arg_text (HStr s) = s"
| "arg_text (HOther s) = s"

text \<open>The real functions log whatever they get, as a list; the mock ones want a string first.\<close>

definition hook_log :: "string \<Rightarrow> hook_arg list \<Rightarrow> string list \<Rightarrow> string list \<times> bool res" where
  "hook_log level args logged = (logged @ [level @ '' ['' @ Join (map arg_text args) '' '' @ '']''], Ok True)"

definition mock_log :: "string \<Rightarrow> hook_arg list \<Rightarrow> string \<Rightarrow> string \<times> bool res" where
  "mock_log level args out =
     (case args of
        [HStr s] \<Rightarrow> (out @ ''Would have logged at '' @ level @ '' level : '' @ s @ newline, Ok True)
      | HStr s # rest \<Rightarrow>
          (out @ ''Would have logged at '' @ level @ '' level : '' @ s @ '' ['' @ Join (map arg_text rest) '' '' @
             '']'' @ newline, Ok True)
      | _ \<Rightarrow> (out, Panic))"

section \<open>The tables\<close>

datatype hook_function =
  Log string | SendRequest | WithPayload | WithMethod | WithHeader | MockLog string | MockSendRequest

definition hookFunctions :: "(string, hook_function) gomap" where
  "hookFunctions =
     [(''info'', Log ''info''), (''warn'', Log ''warning''), (''error'', Log ''error''),
      (''sendRequest'', SendRequest), (''withPayload'', WithPayload), (''withMethod'', WithMethod),
      (''withHeader'', WithHeader)]"

definition mockHookFunctions :: "(string, hook_function) gomap" where
  "mockHookFunctions =
     [(''info'', MockLog ''INFO''), (''warn'', MockLog ''WARN''), (''error'', MockLog ''ERROR''),
      (''sendRequest'', MockSendRequest), (''withPayload'', WithPayload), (''withMethod'', WithMethod),
      (''withHeader'', WithHeader)]"

section \<open>The hooktest command\<close>

text \<open>
  The loop over the hooks. \<open>execute\<close> runs a template and gives the text its functions printed; an
  error of one hook is reported and the loop goes on.
\<close>

fun hooktest_loop ::
    "('t \<Rightarrow> IndexImage \<Rightarrow> string \<times> unit res) \<Rightarrow> IndexImage \<Rightarrow> nat \<Rightarrow> 't Hook list \<Rightarrow> string \<times> string \<Rightarrow>
     (string \<times> string) \<times> unit res" where
  "hooktest_loop execute im n [] (out, err) = ((out, err), Ok ())"
| "hooktest_loop execute im n (hook # hooks) (out, err) =
     (let out = out @ ''Hook #'' @ Itoa (int n) @ '' would produce :'' @ newline;
          printed = (case hk_eval hook of None \<Rightarrow> [] | Some t \<Rightarrow> fst (execute t im))
      in (case Hook_Eval (\<lambda>t im. snd (execute t im)) hook im of
            Ok _ \<Rightarrow> hooktest_loop execute im (Suc n) hooks (out @ printed, err)
          | Err e \<Rightarrow>
              hooktest_loop execute im (Suc n) hooks
                (out @ printed, err @ ''Failed to evaluate hook #'' @ Itoa (int n))
          | Panic \<Rightarrow> ((out @ printed, err), Panic)))"

text \<open>
  \<open>connect\<close> is \<open>connectRegistry\<close> and \<open>services\<close> opens a repository of the client it made;
  \<open>configured\<close> are the hooks of the configuration file. The result is what was printed on the two
  streams and the error returned, besides the state of the docker client.
\<close>

definition hooktest_image ::
    "'n names \<Rightarrow> (string \<Rightarrow> gotime) \<Rightarrow> 'd Docker \<Rightarrow> (string \<Rightarrow> ('c \<times> 'n) res option) \<Rightarrow>
     ('c \<Rightarrow> 'n option \<Rightarrow> ('m, 'r) services res) \<Rightarrow> 'r \<Rightarrow> bool \<Rightarrow> string \<Rightarrow> 'd \<Rightarrow> ('d \<times> IndexImage res) option" where
  "hooktest_image nm parse_time dk connect services reg remoteFlag img d =
     (if remoteFlag then
        (case connect img of
           None \<Rightarrow> None
         | Some r \<Rightarrow> Some (d, res_bind r (\<lambda>(client, parsedName).
             res_bind (NewRepository (services client) (local_name nm parsedName)) (\<lambda>repo.
             res_bind (snd (RepoImage repo reg (ParseTag nm parsedName))) (\<lambda>image.
               Parse (nm_Name nm parsedName) image)))))
      else Some (AsIndexImage parse_time dk img d))"

definition runHooktest ::
    "(string \<Rightarrow> (string, hook_function) gomap \<Rightarrow> string \<Rightarrow> 't res) \<Rightarrow> ('t \<Rightarrow> IndexImage \<Rightarrow> string \<times> unit res) \<Rightarrow>
     't Hook list res \<Rightarrow> (string \<Rightarrow> 'd \<Rightarrow> ('d \<times> IndexImage res) option) \<Rightarrow> string list \<Rightarrow> 'd \<Rightarrow>
     (('d \<times> string \<times> string) \<times> unit res) option" where
  "runHooktest parse execute configured read_image args d =
     (case args of
        [] \<Rightarrow> Some ((d, [], []), Err ''image name missing'')
      | img # _ \<Rightarrow>
          (case readConfigHooks parse configured mockHookFunctions of
             Err e \<Rightarrow> Some ((d, [], []), Err e)
           | Panic \<Rightarrow> Some ((d, [], []), Panic)
           | Ok cfg \<Rightarrow>
               map_option (\<lambda>(d, r).
                 case r of
                   Ok hookedImage \<Rightarrow>
                     (let (outs, r) = hooktest_loop execute hookedImage 0 (cfg_Hooks cfg) ([], [])
                      in ((d, outs), r))
                 | Err e \<Rightarrow> ((d, [], []), Err e)
                 | Panic \<Rightarrow> ((d, [], []), Panic))
               (read_image img d)))"

section \<open>The mock functions stand for the real ones\<close>

lemma RegisterFunction_all:
  "distinct (map fst (nil_or (cfg_funcMap c) @ fns)) \<Longrightarrow>
   nil_or (cfg_funcMap (fold (\<lambda>(n, f). RegisterFunction n f) fns c)) = nil_or (cfg_funcMap c) @ fns \<and>
   cfg_Hooks (fold (\<lambda>(n, f). RegisterFunction n f) fns c) = cfg_Hooks c"
proof (induction fns arbitrary: c)
  case (Cons nf fns)
  obtain n f where nf: "nf = (n, f)" by (cases nf)
  have r: "nil_or (cfg_funcMap (RegisterFunction n f c)) = nil_or (cfg_funcMap c) @ [(n, f)]"
    "cfg_Hooks (RegisterFunction n f c) = cfg_Hooks c"
    using Cons.prems by (auto simp: RegisterFunction_def nf mput_fresh)
  with Cons.prems Cons.IH [of "RegisterFunction n f c"] show ?case by (simp add: nf)
qed simp

lemma readConfigHooks_eq:
  assumes "distinct (map fst fns)"
  shows "res_map cfg_Hooks (readConfigHooks parse configured fns) =
    res_bind configured (\<lambda>hooks. let (hs, r) = parse_loop parse fns 0 hooks in res_map (\<lambda>_. hs) r)"
proof -
  have map_map: "res_map cfg_Hooks (res_map (\<lambda>_. c) r) = res_map (\<lambda>_. cfg_Hooks c) r" for c :: "('b, 'a) Config" and r :: "unit res"
    by (cases r) auto
  let ?c = "\<lambda>hooks. fold (\<lambda>(n, f). RegisterFunction n f) fns \<lparr>cfg_Directory = [], cfg_Hooks = hooks, cfg_funcMap = None\<rparr>"
  have reg: "nil_or (cfg_funcMap (?c hooks)) = fns" "cfg_Hooks (?c hooks) = hooks" for hooks
    using assms RegisterFunction_all [of "\<lparr>cfg_Directory = [], cfg_Hooks = hooks, cfg_funcMap = None\<rparr>" fns] by simp_all
  show ?thesis
  proof (cases configured)
    case (Ok hooks)
    obtain hs r where "parse_loop parse fns 0 hooks = (hs, r)" by fastforce
    with Ok reg [of hooks] map_map show ?thesis by (simp add: readConfigHooks_def ParseHooks_def Let_def)
  qed (simp_all add: readConfigHooks_def)
qed

lemma parse_loop_names:
  assumes "\<And>name action. parse name fm action = parse name fm' action"
  shows "parse_loop parse fm i hs = parse_loop parse fm' i hs"
  by (induction hs arbitrary: i) (auto simp: assms Let_def split: res.split prod.split)

text \<open>
  C28: \<open>dim hooktest\<close> accepts a configuration exactly when the server does, with the same error
  otherwise, and evaluates the same hooks: which templates parse depends only on the names of the
  functions, and the two tables have the same names.
\<close>

theorem hooktest_accepts:
  assumes "\<And>name fm fm' action. map fst fm = map fst fm' \<Longrightarrow> parse name fm action = parse name fm' action"
  shows "res_map cfg_Hooks (readConfigHooks parse configured mockHookFunctions) =
    res_map cfg_Hooks (readConfigHooks parse configured hookFunctions)"
proof -
  have names: "map fst mockHookFunctions = map fst hookFunctions" "distinct (map fst hookFunctions)"
    by (simp_all add: mockHookFunctions_def hookFunctions_def)
  then have "parse name mockHookFunctions action = parse name hookFunctions action" for name action
    by (intro assms)
  from parse_loop_names [of parse, OF this] names show ?thesis by (simp add: readConfigHooks_eq)
qed

theorem hooktest_accepts_witness:
  "res_map cfg_Hooks (readConfigHooks (\<lambda>name fm action. if action \<in> set (map fst fm) then Ok action else Err ''undefined'')
      (Ok [\<lparr>hk_Event = PushAction, hk_Action = ''info'', hk_eval = None\<rparr>]) mockHookFunctions) =
   Ok [\<lparr>hk_Event = PushAction, hk_Action = ''info'', hk_eval = Some ''info''\<rparr>]"
proof -
  let ?p = "\<lambda>name fm action. if action \<in> set (map fst fm) then Ok action else Err ''undefined''"
  have "res_map cfg_Hooks (readConfigHooks ?p (Ok [\<lparr>hk_Event = PushAction, hk_Action = ''info'', hk_eval = None\<rparr>]) mockHookFunctions) =
      res_map cfg_Hooks (readConfigHooks ?p (Ok [\<lparr>hk_Event = PushAction, hk_Action = ''info'', hk_eval = None\<rparr>]) hookFunctions)"
    by (rule hooktest_accepts) simp
  also have "\<dots> = Ok [\<lparr>hk_Event = PushAction, hk_Action = ''info'', hk_eval = Some ''info''\<rparr>]"
    by (subst readConfigHooks_eq) (simp_all add: hookFunctions_def)
  finally show ?thesis .
qed

section \<open>The request a hook sends\<close>

datatype request_option = Payload string | Method string | HeaderOption string string

fun option_of :: "request_option \<Rightarrow> notificationRequestOption" where
  "option_of (Payload p) = withPayload p"
| "option_of (Method m) = withMethod m"
| "option_of (HeaderOption k v) = withHeader k v"

definition payloads :: "request_option list \<Rightarrow> string list" where
  "payloads os = List.map_filter (\<lambda>x. case x of Payload p \<Rightarrow> Some p | _ \<Rightarrow> None) os"

definition methods :: "request_option list \<Rightarrow> string list" where
  "methods os = List.map_filter (\<lambda>x. case x of Method m \<Rightarrow> Some m | _ \<Rightarrow> None) os"

definition headers_of :: "string \<Rightarrow> request_option list \<Rightarrow> string list" where
  "headers_of key os = List.map_filter (\<lambda>x. case x of HeaderOption k v \<Rightarrow>
     if CanonicalHeaderKey k = key then Some v else None | _ \<Rightarrow> None) os"

lemma header_values_Add:
  "header_values (header_Add k v h) key =
     (if key = CanonicalHeaderKey k then header_values h key @ [v] else header_values h key)"
  by (simp add: header_values_def header_Add_def go_map_simps)

lemmas option_defs = withPayload_def withMethod_def withHeader_def

lemma options_method:
  "nr_method (fold (\<lambda>opts req. opts req) (map option_of os) r) = last (nr_method r # methods os)"
proof (induction os arbitrary: r)
  case (Cons opt os)
  then show ?case by (cases opt) (simp_all add: methods_def map_filter_simps option_defs)
qed (simp add: methods_def map_filter_simps)

lemma options_payload:
  "nr_payload (fold (\<lambda>opts req. opts req) (map option_of os) r) = last (nr_payload r # payloads os)"
proof (induction os arbitrary: r)
  case (Cons opt os)
  then show ?case by (cases opt) (simp_all add: payloads_def map_filter_simps option_defs)
qed (simp add: payloads_def map_filter_simps)

lemma options_headers:
  "header_values (nr_headers (fold (\<lambda>opts req. opts req) (map option_of os) r)) key =
     header_values (nr_headers r) key @ headers_of key os"
proof (induction os arbitrary: r)
  case (Cons opt os)
  then show ?case
    by (cases opt) (auto simp: headers_of_def map_filter_simps option_defs header_values_Add)
qed (simp add: headers_of_def map_filter_simps)

text \<open>
  A hook sends the request its options describe: the last method and the last payload given, GET
  and nothing without one, and under every key the values given for it in their order; no header of
  an earlier request is left. When method and URL make no request the server panics. The mock
  function tells the same request and sends nothing.
\<close>

theorem hook_requests:
  "\<exists>req. nr_method req = last (''GET'' # methods os) \<and> nr_payload req = last ([] # payloads os) \<and>
     (\<forall>key. header_values (nr_headers req) key = headers_of key os) \<and>
     sendRequest new_request do url (map option_of os) w =
       (if new_request (nr_method req) url then st_bind (do url req w) (\<lambda>_ w. (w, Ok ())) else (w, Panic)) \<and>
     mock_sendRequest url (map option_of os) out =
       (out @ ''Would have sent '' @
        (if nr_payload req = [] then ''request'' else ''payload '' @ nr_payload req) @ '' with method '' @ nr_method req @
        '' to '' @ url @ '' with headers '' @ show_headers (nr_headers req) @ newline, Ok ())"
proof (intro exI conjI)
  let ?r = "defaultNotificationRequest\<lparr>nr_headers := []\<rparr>"
  have b: "build_request (map option_of os) = fold (\<lambda>opts req. opts req) (map option_of os) ?r"
    by (simp add: build_request_def)
  show "nr_method (build_request (map option_of os)) = last (''GET'' # methods os)"
    "nr_payload (build_request (map option_of os)) = last ([] # payloads os)"
    unfolding b options_method options_payload by (simp_all add: defaultNotificationRequest_def)
  show "\<forall>key. header_values (nr_headers (build_request (map option_of os))) key = headers_of key os"
    unfolding b options_headers by (simp add: header_values_def)
qed (simp_all add: sendRequest_def mock_sendRequest_def Let_def)

text \<open>A real function logs any arguments; its mock wants a string first, and panics without one.\<close>

lemma mock_log_panics:
  "mock_log level [] out = (out, Panic)" "mock_log level (HOther t # rest) out = (out, Panic)"
  "is_ok (snd (hook_log level args logged))"
  by (simp_all add: mock_log_def hook_log_def)

section \<open>A failing hook does not stop the test\<close>

lemma hooktest_loop_Ok:
  assumes "\<forall>h \<in> set hooks. \<forall>t. hk_eval h = Some t \<longrightarrow> snd (execute t im) \<noteq> Panic"
  shows "\<exists>out' err'. hooktest_loop execute im n hooks (out, err) = ((out @ out', err @ err'), Ok ()) \<and>
    (err' = [] \<longleftrightarrow> (\<forall>h \<in> set hooks. \<exists>t. hk_eval h = Some t \<and> snd (execute t im) = Ok ()))"
  using assms
proof (induction hooks arbitrary: n out err)
  case (Cons h hooks)
  let ?line = "''Hook #'' @ Itoa (int n) @ '' would produce :'' @ newline"
  let ?fail = "''Failed to evaluate hook #'' @ Itoa (int n)"
  have rest: "\<exists>out' err'. hooktest_loop execute im (Suc n) hooks (o', e') = ((o' @ out', e' @ err'), Ok ()) \<and>
    (err' = [] \<longleftrightarrow> (\<forall>h \<in> set hooks. \<exists>t. hk_eval h = Some t \<and> snd (execute t im) = Ok ()))" for o' e'
    using Cons by simp
  show ?case
  proof (cases "hk_eval h")
    case None
    then show ?thesis using rest [of "out @ ?line" "err @ ?fail"] by (auto simp: Hook_Eval_def Let_def)
  next
    case (Some t)
    then show ?thesis
      using rest [of "out @ ?line @ fst (execute t im)" err] rest [of "out @ ?line @ fst (execute t im)" "err @ ?fail"]
        Cons.prems
      by (cases "snd (execute t im)") (auto simp: Hook_Eval_def Let_def)
  qed
qed simp

end
