(* ===== verification/ServerCmd.thy ===== *)
theory ServerCmd
  imports Hooks
begin

text \<open>
  Starting the server (\<open>cmd/server.go\<close>: \<open>runServer\<close>) and what it forwards to the registry
  (\<open>server/proxy.go\<close>).
\<close>

section \<open>The proxy\<close>

record URL =
  url_Scheme :: string
  url_Host :: string
  url_Path :: string

record RegistryProxy =
  rp_target :: URL
  rp_username :: string
  rp_password :: string

definition NewRegistryProxy :: "URL \<Rightarrow> string \<Rightarrow> string \<Rightarrow> RegistryProxy" where
  "NewRegistryProxy registryURL username password =
     \<lparr>rp_target = registryURL, rp_username = username, rp_password = password\<rparr>"

text \<open>A request as the proxy sees it: its URL, the host it was sent to, whether it came over TLS, the
  credentials of its authorization header and the other headers.\<close>

record proxied =
  px_Method :: string
  px_URL :: URL
  px_Host :: string
  px_TLS :: bool
  px_Auth :: "(string \<times> string) option"
  px_Header :: "(string, string list) gomap"
  px_Body :: string

text \<open>The director of \<open>httputil.NewSingleHostReverseProxy\<close>: scheme and host of the target, the two
  paths joined with one slash.\<close>

definition singleJoiningSlash :: "string \<Rightarrow> string \<Rightarrow> string" where
  "singleJoiningSlash a b =
     (let aslash = HasSuffix a ''/''; bslash = HasPrefix b ''/''
      in if aslash \<and> bslash then a @ drop 1 b
         else if \<not> aslash \<and> \<not> bslash then a @ ''/'' @ b
         else a @ b)"

definition director :: "URL \<Rightarrow> proxied \<Rightarrow> proxied" where
  "director target r =
     r\<lparr>px_URL := \<lparr>url_Scheme = url_Scheme target, url_Host = url_Host target,
                url_Path = singleJoiningSlash (url_Path target) (url_Path (px_URL r))\<rparr>\<rparr>"

text \<open>\<open>serve\<close> is the transport of the reverse proxy.\<close>

definition Forwards :: "RegistryProxy \<Rightarrow> (proxied \<Rightarrow> 'a) \<Rightarrow> proxied \<Rightarrow> 'a" where
  "Forwards rp serve r =
     (let target = rp_target rp;
          r = (if rp_username rp \<noteq> [] \<and> rp_password rp \<noteq> []
               then r\<lparr>px_Auth := Some (rp_username rp, rp_password rp)\<rparr> else r);
          r = (if px_TLS r then r\<lparr>px_Header := header_Set ''X-Forwarded-Proto'' ''https'' (px_Header r)\<rparr> else r);
          r = r\<lparr>px_Header := header_Set ''X-Forwarded-Host'' (px_Host r) (px_Header r)\<rparr>;
          r = (if url_Scheme target = ''https'' then r\<lparr>px_URL := (px_URL r)\<lparr>url_Scheme := ''https''\<rparr>\<rparr> else r);
          r = (if url_Host target \<noteq> px_Host r
               then r\<lparr>px_URL := (px_URL r)\<lparr>url_Host := url_Host target\<rparr>, px_Host := url_Host target\<rparr> else r)
      in serve (director target r))"

section \<open>Making the index\<close>

text \<open>\<open>New\<close> of \<open>lib/index/index.go\<close>: an empty store under the mapping of images, three idle workers
  and an empty queue. \<open>bleve_New\<close> creates the store.\<close>

definition Index_New ::
    "(string \<Rightarrow> (string \<times> DocumentMapping) list \<Rightarrow> ('ix bleve \<times> 'ix) res) \<Rightarrow> ('t, 'f) Config \<Rightarrow> 'n RegistryClient \<Rightarrow>
     ('ix, 't, 'f, 'n) Index nsys res" where
  "Index_New bleve_New cfg regClient =
     res_map (\<lambda>(bl, i). new_nsys \<lparr>idx_bleve = bl, idx_Index = i, idx_Config = cfg, idx_RegClient = regClient\<rparr>)
       (bleve_New (cfg_Directory cfg) [(''image'', ImageMapping)])"

text \<open>Every image that is filed is read with the mapping of images, not with the default one.\<close>

lemma images_mapped:
  assumes "Index_New (\<lambda>dir m. Ok (bl, m)) cfg regClient = Ok s"
  shows "map_of (idx_Index (ns_index s)) (IndexImage_Type im) = Some ImageMapping"
  using assms by (auto simp: Index_New_def IndexImage_Type_def new_nsys_def)

section \<open>Starting the server\<close>

record server_flags =
  sv_port :: string
  sv_indexDir :: string
  sv_sslCertFile :: string
  sv_sslKeyFile :: string

definition server_PreRun :: "(string \<Rightarrow> string) \<Rightarrow> server_flags \<Rightarrow> server_flags" where
  "server_PreRun viper fl =
     fl\<lparr>sv_sslCertFile := viper ''ssl-cert-file'', sv_sslKeyFile := viper ''ssl-key-file''\<rparr>"

text \<open>The server that is run: its configuration, its index, its proxy, and the files of its
  certificate and key when it speaks TLS.\<close>

record 'x running_server =
  rs_config :: ServerConfig
  rs_index :: 'x
  rs_proxy :: RegistryProxy
  rs_tls :: "(string \<times> string) option"

text \<open>
  \<open>join\<close> is \<open>path.Join\<close>, \<open>now\<close> the formatted time, \<open>url_Parse\<close> \<open>url.Parse\<close>, \<open>registry_New\<close> and
  \<open>index_New\<close> the constructors of the client and of the index, \<open>hooks\<close> and \<open>auths\<close> the values of the
  configuration file. The first component of the result is the index whose building was started.
\<close>

definition runServer ::
    "(string \<Rightarrow> string \<Rightarrow> string) \<Rightarrow> string \<Rightarrow> (string \<Rightarrow> URL res) \<Rightarrow>
     (string \<Rightarrow> (string, hook_function) gomap \<Rightarrow> string \<Rightarrow> 't res) \<Rightarrow> 't Hook list res \<Rightarrow>
     (string \<Rightarrow> (string \<Rightarrow> bool) res) \<Rightarrow> Authorization list res \<Rightarrow>
     (AuthConfig option \<Rightarrow> string \<Rightarrow> 'c res option) \<Rightarrow> (('t, hook_function) Config \<Rightarrow> 'c \<Rightarrow> 'x res) \<Rightarrow>
     globals \<Rightarrow> server_flags \<Rightarrow> ('x option \<times> 'x running_server res) option" where
  "runServer join now url_Parse parse hooks compile auths registry_New index_New g fl =
     (if g_registryURL g = [] then Some (None, Err ''No registry URL given'')
      else if (sv_sslCertFile fl = []) \<noteq> (sv_sslKeyFile fl = []) then
        Some (None, Err ''ssl-cert-file and ssl-key-file cannot be defined separately'')
      else
        (let realDir = join (sv_indexDir fl) now;
             (u, p) = (case auth_of g of None \<Rightarrow> ([], []) | Some a \<Rightarrow> (auth_Username a, auth_Password a))
         in (case res_bind (readConfigHooks parse hooks hookFunctions) (\<lambda>cfg.
                    res_map (Pair (cfg\<lparr>cfg_Directory := realDir\<rparr>)) (url_Parse (g_registryURL g))) of
               Err e \<Rightarrow> Some (None, Err e)
             | Panic \<Rightarrow> Some (None, Panic)
             | Ok (cfg, url) \<Rightarrow>
                 (case registry_New (auth_of g) (g_registryURL g) of
                    None \<Rightarrow> None
                  | Some (Err e) \<Rightarrow> Some (None, Err (''Failed to connect to registry : '' @ e))
                  | Some Panic \<Rightarrow> Some (None, Panic)
                  | Some (Ok client) \<Rightarrow>
                      (case index_New cfg client of
                         Err e \<Rightarrow> Some (None, Err e)
                       | Panic \<Rightarrow> Some (None, Panic)
                       | Ok idx \<Rightarrow>
                           (let proxy = NewRegistryProxy url u p
                            in Some (Some idx, res_map (\<lambda>sCfg.
                                 \<lparr>rs_config = sCfg, rs_index = idx, rs_proxy = proxy,
                                  rs_tls = (if sv_sslCertFile fl \<noteq> []
                                            then Some (sv_sslCertFile fl, sv_sslKeyFile fl) else None)\<rparr>)
                                 (readServerConfig compile auths (sv_port fl)))))))))"

lemma runServer_Ok:
  assumes "runServer join now url_Parse parse hooks compile auths registry_New index_New g fl = Some (started, Ok run)"
  shows "readServerConfig compile auths (sv_port fl) = Ok (rs_config run)"
    and "rp_username (rs_proxy run) = g_username g" and "rp_password (rs_proxy run) = g_password g"
    and "rs_tls run = (if sv_sslCertFile fl = [] then None else Some (sv_sslCertFile fl, sv_sslKeyFile fl))"
    and "sv_sslCertFile fl = [] \<longleftrightarrow> sv_sslKeyFile fl = []"
  using assms
  by (auto simp: runServer_def NewRegistryProxy_def Let_def auth_of_def res_simps split: if_splits res.splits option.splits)

section \<open>What reaches the registry\<close>

lemma header_values_Set:
  "header_values (header_Set k v h) key = (if key = CanonicalHeaderKey k then [v] else header_values h key)"
  by (simp add: header_values_def header_Set_def go_map_simps)

lemma forwarded_keys [simp]:
  "CanonicalHeaderKey ''X-Forwarded-Proto'' = ''X-Forwarded-Proto''"
  "CanonicalHeaderKey ''X-Forwarded-Host'' = ''X-Forwarded-Host''"
  by code_simp+

text \<open>
  C30: a forwarded request goes to the registry of the configuration and nowhere else, whatever host
  the client asked for: scheme and host of its URL are those of the target and the path is the
  client's below the target's. It carries dim's credentials when both are configured and the
  client's own otherwise, tells the host the client used, and claims to have come over TLS when it
  has. Method and body are the client's.
\<close>

theorem Forwards_to_registry:
  "\<exists>r'. Forwards rp serve r = serve r' \<and>
     px_URL r' = \<lparr>url_Scheme = url_Scheme (rp_target rp), url_Host = url_Host (rp_target rp),
                  url_Path = singleJoiningSlash (url_Path (rp_target rp)) (url_Path (px_URL r))\<rparr> \<and>
     px_Host r' = url_Host (rp_target rp) \<and> px_Method r' = px_Method r \<and> px_Body r' = px_Body r \<and>
     px_Auth r' = (if rp_username rp \<noteq> [] \<and> rp_password rp \<noteq> []
                   then Some (rp_username rp, rp_password rp) else px_Auth r) \<and>
     (\<forall>key. header_values (px_Header r') key =
        (if key = ''X-Forwarded-Host'' then [px_Host r]
         else if key = ''X-Forwarded-Proto'' \<and> px_TLS r then [''https'']
         else header_values (px_Header r) key))"
proof (intro exI conjI)
  show "Forwards rp serve r = serve (Forwards rp (\<lambda>x. x) r)" by (simp add: Forwards_def Let_def)
qed (simp_all add: Forwards_def director_def Let_def header_values_Set)

end
