(* ===== verification/Serving.thy ===== *)
theory Serving
  imports ServerCmd IndexJobs Handlers
begin

text \<open>
  The running server: the handlers of \<open>server/server.go\<close> wired to the index and its queue, requests and
  workers interleaved, and what they can do to the documents of the index together.
\<close>

section \<open>The handlers, wired\<close>

text \<open>
  What the server gets from libraries and from the machine: the texts of times and of JSON, the
  reader of envelopes, the clock, the view of a request as the proxy has it and the transport of the
  proxy, which writes the answer of the registry.
\<close>

record server_env =
  se_time_text :: "gotime \<Rightarrow> string res"
  se_json_print :: "jval \<Rightarrow> string res"
  se_parse_time :: "string \<Rightarrow> gotime option"
  se_decode :: "string \<Rightarrow> Event list res"
  se_now :: "Request \<Rightarrow> gotime"
  se_proxied :: "Request \<Rightarrow> proxied"
  se_serve :: "proxied \<Rightarrow> Response \<Rightarrow> Response res"

text \<open>The index the handlers work on is that of the notification system, which is the state; the
  start of the server is put into the context of the version handler.\<close>

definition server_handler ::
    "server_env \<Rightarrow> ServerConfig \<Rightarrow> ctx \<Rightarrow> gotime \<Rightarrow> RegistryProxy \<Rightarrow> ('ix, 't, 'f, 'n) Index nsys handler" where
  "server_handler en cfg c start proxy =
     NewServer cfg
       (Search (se_time_text en) (se_json_print en) (\<lambda>s. SearchImages (se_parse_time en) (ns_index s)))
       (NotifyImageChange (se_decode en) Submit)
       (\<lambda>r. Version (se_json_print en) (environment_Set c StartTimeKey (CTime start)) (se_now en r) r)
       (\<lambda>r sw. Forwards proxy (\<lambda>px. res_map (Pair (fst sw)) (se_serve en px (snd sw))) (se_proxied en r))"

text \<open>A worker's step on the index; the evaluations of hooks it starts change nothing of it. A panic
  ends the program, so nothing is said after it.\<close>

definition work ::
    "(string \<Rightarrow> gotime option) \<Rightarrow> (string \<Rightarrow> 'n res) \<Rightarrow> ('ix, 't, 'f, 'n) Index \<Rightarrow> NotificationJob \<Rightarrow> ('ix, 't, 'f, 'n) Index" where
  "work parse_time ParseNamed idx job =
     (case handle_job parse_time ParseNamed idx job of Ok (idx', _) \<Rightarrow> idx' | _ \<Rightarrow> idx)"

section \<open>The life of a server\<close>

text \<open>
  Requests arrive in any order and the workers run between them. Handlers run at the same time: the
  jobs one submits wait among those of the others, in any order that keeps its own, so the queue
  after a request is a shuffle of what it was and what the handler put in. A handler that panics is
  caught by the HTTP server and changes nothing. The list tells the requests so far.
\<close>

inductive served ::
    "'x nsys handler \<Rightarrow> ('x \<Rightarrow> NotificationJob \<Rightarrow> 'x) \<Rightarrow> 'x nsys \<Rightarrow> Request list \<Rightarrow> 'x nsys \<Rightarrow> bool"
  for hd h s0 where
  start: "served hd h s0 [] s0"
| request: "served hd h s0 rs s \<Longrightarrow> hd r (s, new_Response) = Ok (s', w) \<Longrightarrow>
    ns_todo s' = ns_todo s @ js \<Longrightarrow> todo \<in> shuffles (ns_todo s) js \<Longrightarrow>
    served hd h s0 (rs @ [r]) (s'\<lparr>ns_todo := todo\<rparr>)"
| caught: "served hd h s0 rs s \<Longrightarrow> \<not> is_ok (hd r (s, new_Response)) \<Longrightarrow> served hd h s0 (rs @ [r]) s"
| worker: "served hd h s0 rs s \<Longrightarrow> nstep h s t \<Longrightarrow> served hd h s0 rs t"

section \<open>What a request asks for\<close>

text \<open>The jobs a request may cause: those of the events of an envelope that the rules let through to
  the path of notifications.\<close>

definition authorised_jobs :: "ServerConfig \<Rightarrow> (string \<Rightarrow> Event list res) \<Rightarrow> Request \<Rightarrow> NotificationJob list" where
  "authorised_jobs cfg decode r =
     (if allowed (sc_Authorizations cfg) r \<and> routed r \<and> req_Path r = ''/dim/notify'' then
        (case decode (req_Body r) of Ok events \<Rightarrow> List.map_filter event_job events | _ \<Rightarrow> [])
      else [])"

text \<open>Answers that carry the state along.\<close>

lemma keeps_if: "(if b then Ok (s, x) else y) = Ok (s', w') \<Longrightarrow> (y = Ok (s', w') \<Longrightarrow> s' = s) \<Longrightarrow> s' = s"
  by (auto split: if_splits)

lemma keeps_res:
  "(case r of Err e \<Rightarrow> Ok (s, f e) | Panic \<Rightarrow> Panic | Ok x \<Rightarrow> g x) = Ok (s', w') \<Longrightarrow>
   (\<And>x. g x = Ok (s', w') \<Longrightarrow> s' = s) \<Longrightarrow> s' = s"
  by (cases r) auto

lemma Search_reads: "Search tt jp search r (s, w) = Ok (s', w') \<Longrightarrow> s' = s"
  unfolding Search_def Let_def prod.case by (elim keeps_if keeps_res) (simp only: res.inject prod.inject)

lemma Version_reads: "Version jp c now r (s, w) = Ok (s', w') \<Longrightarrow> s' = s"
  unfolding Version_def Let_def by (auto split: res.splits option.splits ctxval.splits)

lemma Forwards_reads: "Forwards proxy (\<lambda>px. res_map (Pair s) (serve px w)) px = Ok (s', w') \<Longrightarrow> s' = s"
  unfolding Forwards_def Let_def by (auto simp: res_map_Ok_iff)

lemma NotifyImageChange_jobs:
  "NotifyImageChange decode Submit r (s, w) = Ok (s', w') \<Longrightarrow>
   s' = fold Submit (case decode (req_Body r) of Ok events \<Rightarrow> List.map_filter event_job events | _ \<Rightarrow> []) s"
  by (auto simp: NotifyImageChange_def event_loop_Submit Let_def split: res.splits)

lemma NewServer_keeps:
  assumes "compiled (sc_Authorizations cfg)" and "\<not> (allowed (sc_Authorizations cfg) r \<and> routed r)"
  shows "\<exists>w'. NewServer cfg search notify version forwards r (s, new_Response) = Ok (s, w')"
proof -
  have new: "rw_Status new_Response = None" by (simp add: new_Response_def)
  show ?thesis
  proof (cases "routed r")
    case True
    with assms(2) have "\<not> allowed (sc_Authorizations cfg) r" by simp
    from NewServer_refuses [OF assms(1) new this, of search notify version forwards s] show ?thesis by blast
  next
    case False
    from NewServer_unrouted [OF False new, of cfg search notify version forwards s] show ?thesis by blast
  qed
qed

lemma server_handler_jobs:
  assumes "compiled (sc_Authorizations cfg)" and "server_handler en cfg c start proxy r (s, new_Response) = Ok (s', w')"
  shows "s' = fold Submit (authorised_jobs cfg (se_decode en) r) s"
proof (cases "allowed (sc_Authorizations cfg) r \<and> routed r")
  case True
  then have *: "route (Search (se_time_text en) (se_json_print en) (\<lambda>s. SearchImages (se_parse_time en) (ns_index s)))
       (NotifyImageChange (se_decode en) Submit)
       (\<lambda>r. Version (se_json_print en) (environment_Set c StartTimeKey (CTime start)) (se_now en r) r)
       (\<lambda>r sw. Forwards proxy (\<lambda>px. res_map (Pair (fst sw)) (se_serve en px (snd sw))) (se_proxied en r))
       (req_Path r) r (s, new_Response) = Ok (s', w')"
    using assms(2) by (simp only: server_handler_def NewServer_filtered securityFilter_allowed [OF assms(1)])
  show ?thesis
  proof (cases "req_Path r = ''/dim/notify''")
    case notify: True
    with * have "NotifyImageChange (se_decode en) Submit r (s, new_Response) = Ok (s', w')" by (simp add: route_def)
    from NotifyImageChange_jobs [OF this] True notify show ?thesis by (simp only: authorised_jobs_def if_True simp_thms)
  next
    case False
    then have "s' = s"
      using * unfolding route_def
      by (simp only: if_False fst_conv snd_conv split: if_split_asm) (drule Search_reads Version_reads Forwards_reads, assumption)+
    with False show ?thesis by (simp add: authorised_jobs_def)
  qed
next
  case False
  have "\<exists>w'. server_handler en cfg c start proxy r (s, new_Response) = Ok (s, w')"
    unfolding server_handler_def by (rule NewServer_keeps [OF assms(1) False])
  with assms(2) have "s' = s" by auto
  with False show ?thesis by (auto simp: authorised_jobs_def)
qed
lemma server_handler_caught:
  assumes "compiled (sc_Authorizations cfg)" and "\<not> is_ok (server_handler en cfg c start proxy r (s, new_Response))"
  shows "authorised_jobs cfg (se_decode en) r = []"
proof (rule ccontr)
  assume jobs: "authorised_jobs cfg (se_decode en) r \<noteq> []"
  then have r: "allowed (sc_Authorizations cfg) r" "routed r" "req_Path r = ''/dim/notify''"
    unfolding authorised_jobs_def by (metis)+
  with jobs obtain events where "se_decode en (req_Body r) = Ok events"
    by (auto simp: authorised_jobs_def split: res.splits)
  then have "is_ok (NotifyImageChange (se_decode en) Submit r (s, new_Response))"
    by (simp add: NotifyImageChange_def Let_def)
  with assms(2) r show False
    by (simp add: server_handler_def NewServer_filtered securityFilter_allowed [OF assms(1)] route_def)
qed

section \<open>What the workers may change\<close>

text \<open>A job touches a name when it deletes the digest of the image filed there or pushes an image of
  that name which can be fetched.\<close>

definition touches :: "(NotificationJob \<Rightarrow> IndexImage option) \<Rightarrow> (string \<rightharpoonup> IndexImage) \<Rightarrow> string \<Rightarrow> NotificationJob \<Rightarrow> bool" where
  "touches f m k job \<longleftrightarrow>
     (job_Action job = DeleteAction \<and> (\<exists>im. m k = Some im \<and> im_ID im = job_Digest job)) \<or>
     (job_Action job = PushAction \<and> (\<exists>im. f job = Some im \<and> im_FullName im = k))"

lemma work_step:
  assumes bl: "bleve_ok fmt (idx_bleve idx) docs" and k: "keyed (contents docs idx)"
  shows "same_but_index idx (work T P idx job) \<and> keyed (contents docs (work T P idx job)) \<and>
    (\<forall>k. \<not> touches (fetched P idx) (contents docs idx) k job \<longrightarrow> contents docs (work T P idx job) k = contents docs idx k)"
proof -
  consider (del) "job_Action job = DeleteAction" | (push) "job_Action job \<noteq> DeleteAction" "job_Action job = PushAction"
    | (other) "job_Action job \<noteq> DeleteAction" "job_Action job \<noteq> PushAction" by blast
  then show ?thesis
  proof cases
    case del
    obtain idx' D where d: "DeleteImage idx (job_Digest job) = Ok idx'" "same_but_index idx idx'"
      "D \<subseteq> with_id (contents docs idx) (job_Digest job)" "contents docs idx' = contents docs idx |` (- D)"
      using DeleteImage_contents [OF bl k] by blast
    have "work T P idx job = idx'"
      using del d(1) FindImage_no_panic [OF bl, of T "job_Digest job"]
      by (auto simp: work_def handle_job_def Let_def split: res.splits)
    moreover have "contents docs idx' x = contents docs idx x" if "\<not> touches f (contents docs idx) x job" for f x
      using d(3,4) that del by (auto simp: touches_def with_id_def restrict_map_def)
    ultimately show ?thesis using d(2,4) k by (simp add: keyed_restrict)
  next
    case push
    have w: "work T P idx job = (case fetched P idx job of None \<Rightarrow> idx | Some im \<Rightarrow> IndexImage_op idx im)"
      using push by (simp add: work_def handle_job_def fetched_def Let_def split: res.split)
    have c: "contents docs (IndexImage_op idx im) = (contents docs idx)(im_FullName im \<mapsto> im)" for im
      using bl by (simp add: IndexImage_op_def contents_def bleve_ok_def updates_ok_def fun_eq_iff)
    have "same_but_index idx (IndexImage_op idx im)" for im
      by (simp add: IndexImage_op_def same_but_index_def)
    with k push show ?thesis by (auto simp: w c keyed_upd touches_def split: option.split)
  next
    case other
    with k show ?thesis by (simp add: work_def handle_job_def Let_def)
  qed
qed

lemma works_steps:
  assumes "bleve_ok fmt (idx_bleve idx) docs" and "keyed (contents docs idx)"
  shows "same_but_index idx (fold (\<lambda>j x. work T P x j) js idx) \<and> keyed (contents docs (fold (\<lambda>j x. work T P x j) js idx)) \<and>
    (\<forall>k. (\<forall>j \<in> set js. \<not> touches (fetched P idx) (contents docs idx) k j) \<longrightarrow>
       contents docs (fold (\<lambda>j x. work T P x j) js idx) k = contents docs idx k)"
  using assms
proof (induction js arbitrary: idx)
  case (Cons j js)
  let ?i = "work T P idx j"
  from work_step [OF Cons.prems, of T P j] have i: "same_but_index idx ?i" "keyed (contents docs ?i)"
    "\<not> touches (fetched P idx) (contents docs idx) k j \<Longrightarrow> contents docs ?i k = contents docs idx k" for k by blast+
  have f: "fetched P ?i = fetched P idx" using fetched_same [OF i(1)] by blast
  have "bleve_ok fmt (idx_bleve ?i) docs" using Cons.prems(1) i(1) by (simp add: same_but_index_sel)
  note IH = Cons.IH [OF this i(2), unfolded f]
  have "touches (fetched P idx) (contents docs ?i) k j' = touches (fetched P idx) (contents docs idx) k j'"
    if "contents docs ?i k = contents docs idx k" for k j'
    using that by (simp add: touches_def)
  with IH i show ?case by (auto intro: same_but_index_trans)
qed simp

section \<open>Every reachable state of the server\<close>

lemma served_invariant:
  assumes "compiled (sc_Authorizations cfg)"
    and "served (server_handler en cfg c start proxy) (work T P) (new_nsys idx) rs t"
  shows "running t \<and> accounted t = mset (concat (map (authorised_jobs cfg (se_decode en)) rs)) \<and>
    ns_index t = fold (\<lambda>j x. work T P x j) (ns_done t) idx"
  using assms(2)
proof (induction rule: served.induct)
  case start
  show ?case by (simp add: running_new accounted_new) (simp add: new_nsys_def)
next
  case (request rs s r s' w js todo)
  let ?jobs = "authorised_jobs cfg (se_decode en) r"
  have s': "s' = s\<lparr>ns_todo := ns_todo s @ ?jobs\<rparr>"
    using server_handler_jobs [OF assms(1) request.hyps(2)] by (simp add: Submits_eq)
  then have "mset todo = mset (ns_todo s) + mset ?jobs" using request.hyps(3,4) mset_shuffles by auto
  then have "accounted (s'\<lparr>ns_todo := todo\<rparr>) = accounted s + mset ?jobs"
    by (simp add: s' accounted_def in_work_def ac_simps)
  with request.IH s' show ?case by (simp add: running_def)
next
  case (caught rs s r)
  with server_handler_caught [OF assms(1) caught.hyps(2)] show ?case by simp
next
  case (worker rs s t)
  then show ?case by (simp add: nstep_running nstep_accounted nstep_index)
qed

lemma served_nreach: "nreach h t u \<Longrightarrow> served f h s0 rs t \<Longrightarrow> served f h s0 rs u"
  by (induction rule: nreach.induct) (auto intro: served.worker)

lemma served_rest:
  assumes "running t" and "\<nexists>u. nstep h t u"
  shows "mset (ns_done t) = accounted t"
  using drained [OF nreach.stay assms] .

definition deny_all :: Authorization where
  "deny_all = \<lparr>au_Path = ''/'', au_Method = [], au_Users = Some [], au_regexp = None\<rparr>"

definition sample_server_env :: "Event list \<Rightarrow> server_env" where
  "sample_server_env events =
     \<lparr>se_time_text = (\<lambda>_. Ok []), se_json_print = (\<lambda>_. Ok []), se_parse_time = (\<lambda>_. None),
      se_decode = (\<lambda>_. Ok events), se_now = (\<lambda>_. 0),
      se_proxied = (\<lambda>r. \<lparr>px_Method = req_Method r, px_URL = \<lparr>url_Scheme = [], url_Host = [], url_Path = req_Path r\<rparr>,
         px_Host = [], px_TLS = False, px_Auth = req_Auth r, px_Header = [], px_Body = req_Body r\<rparr>),
      se_serve = (\<lambda>px w. Ok w)\<rparr>"

definition sample_deletion :: Event where
  "sample_deletion = \<lparr>ev_Action = EventActionDelete, ev_MediaType = [], ev_Repository = [], ev_Tag = [], ev_Digest = ''d1''\<rparr>"


end
