(* ===== verification/Interleave.thy ===== *)
theory Interleave
  imports Serving
begin

text \<open>
  Inside a job (\<open>lib/index/index.go\<close>: \<open>DeleteImage\<close>, \<open>handleNotifications\<close>): the three workers share one index
  and a job makes several calls on it, so their calls interleave. The queue is the one of \<open>Notifications\<close>,
  the steps are those of \<open>fstep\<close>: what changes, that the workers come to rest, and when the result is that
  of handling whole jobs one after the other.
\<close>

section \<open>The steps of a job\<close>

text \<open>A worker has nothing to do, has taken a job, or has still to delete the documents found for a
  deletion.\<close>

datatype notifier = Idle | Taken NotificationJob | Deleting NotificationJob "DocumentMatch list"

record ('ix, 't, 'f, 'n) fsys =
  fs_todo :: "NotificationJob list"
  fs_chan :: "NotificationJob chan"
  fs_work :: "notifier list"
  fs_done :: "NotificationJob list"
  fs_index :: "('ix, 't, 'f, 'n) Index"

definition new_fsys :: "('ix, 't, 'f, 'n) Index \<Rightarrow> ('ix, 't, 'f, 'n) fsys" where
  "new_fsys idx = \<lparr>fs_todo = [], fs_chan = make_chan 3, fs_work = replicate 3 Idle, fs_done = [], fs_index = idx\<rparr>"

text \<open>The request \<open>DeleteImage\<close> makes for a digest, and what it goes through afterwards.\<close>

definition delete_request :: "string \<Rightarrow> SearchRequest" where
  "delete_request imageID = (NewSearchRequest (TermQuery imageID ''ID''))\<lparr>rq_Fields := [''FullName'']\<rparr>"

definition found :: "SearchResult_bleve \<Rightarrow> DocumentMatch list" where
  "found sr = (if res_Total sr = 0 then [] else res_Hits sr)"

text \<open>
  One step is one call that reads or writes the index or a channel. A deletion searches, then deletes
  the hits one by one; a push fetches its image and files it. The reading done for the hooks and their
  evaluation change nothing and are left out. Where the code panics there is no step.
\<close>

inductive fstep ::
    "(string \<Rightarrow> 'n res) \<Rightarrow> ('ix, 't, 'f, 'n) fsys \<Rightarrow> ('ix, 't, 'f, 'n) fsys \<Rightarrow> bool" for P where
  send: "fs_todo s = j # js \<Longrightarrow> chan_send j (fs_chan s) = Ok (Some c) \<Longrightarrow>
    fstep P s (s\<lparr>fs_todo := js, fs_chan := c\<rparr>)"
| take: "i < length (fs_work s) \<Longrightarrow> fs_work s ! i = Idle \<Longrightarrow> chan_recv (fs_chan s) = Some (Elem j, c) \<Longrightarrow>
    fstep P s (s\<lparr>fs_chan := c, fs_work := (fs_work s)[i := Taken j]\<rparr>)"
| search: "i < length (fs_work s) \<Longrightarrow> fs_work s ! i = Taken j \<Longrightarrow> job_Action j = DeleteAction \<Longrightarrow>
    idx_Search (fs_index s) (delete_request (job_Digest j)) = Ok sr \<Longrightarrow>
    fstep P s (s\<lparr>fs_work := (fs_work s)[i := Deleting j (found sr)]\<rparr>)"
| remove: "i < length (fs_work s) \<Longrightarrow> fs_work s ! i = Deleting j (h # hs) \<Longrightarrow>
    as_string (map_of (doc_Fields h) ''FullName'') = Ok fullName \<Longrightarrow>
    fstep P s (s\<lparr>fs_work := (fs_work s)[i := Deleting j hs],
      fs_index := (fs_index s)\<lparr>idx_Index := bl_Delete (idx_bleve (fs_index s)) (idx_Index (fs_index s)) fullName\<rparr>\<rparr>)"
| deleted: "i < length (fs_work s) \<Longrightarrow> fs_work s ! i = Deleting j [] \<Longrightarrow>
    fstep P s (s\<lparr>fs_work := (fs_work s)[i := Idle], fs_done := fs_done s @ [j]\<rparr>)"
| push: "i < length (fs_work s) \<Longrightarrow> fs_work s ! i = Taken j \<Longrightarrow> job_Action j = PushAction \<Longrightarrow>
    GetImage P (fs_index s) (job_Repository j) (job_Tag j) (job_Digest j) = Ok im \<Longrightarrow>
    fstep P s (s\<lparr>fs_work := (fs_work s)[i := Idle], fs_done := fs_done s @ [j], fs_index := IndexImage_op (fs_index s) im\<rparr>)"
| unfetched: "i < length (fs_work s) \<Longrightarrow> fs_work s ! i = Taken j \<Longrightarrow> job_Action j = PushAction \<Longrightarrow>
    GetImage P (fs_index s) (job_Repository j) (job_Tag j) (job_Digest j) = Err e \<Longrightarrow>
    fstep P s (s\<lparr>fs_work := (fs_work s)[i := Idle], fs_done := fs_done s @ [j]\<rparr>)"
| ignored: "i < length (fs_work s) \<Longrightarrow> fs_work s ! i = Taken j \<Longrightarrow>
    job_Action j \<noteq> DeleteAction \<Longrightarrow> job_Action j \<noteq> PushAction \<Longrightarrow>
    fstep P s (s\<lparr>fs_work := (fs_work s)[i := Idle], fs_done := fs_done s @ [j]\<rparr>)"

inductive freach ::
    "(string \<Rightarrow> 'n res) \<Rightarrow> ('ix, 't, 'f, 'n) fsys \<Rightarrow> ('ix, 't, 'f, 'n) fsys \<Rightarrow> bool" for P s where
  stay: "freach P s s"
| move: "freach P s t \<Longrightarrow> fstep P t u \<Longrightarrow> freach P s u"

section \<open>The queue is the one of whole jobs\<close>

fun current :: "notifier \<Rightarrow> NotificationJob option" where
  "current Idle = None"
| "current (Taken j) = Some j"
| "current (Deleting j hs) = Some j"

definition nsys_of :: "('ix, 't, 'f, 'n) fsys \<Rightarrow> ('ix, 't, 'f, 'n) Index nsys" where
  "nsys_of s = \<lparr>ns_todo = fs_todo s, ns_chan = fs_chan s, ns_work = map current (fs_work s), ns_done = fs_done s,
     ns_index = fs_index s\<rparr>"

lemma nsys_of_new [simp]: "nsys_of (new_fsys idx) = new_nsys idx"
  by (simp add: nsys_of_def new_fsys_def new_nsys_def)

lemma nsys_of_work [simp]:
  "nsys_of (s\<lparr>fs_work := (fs_work s)[i := w]\<rparr>) = (nsys_of s)\<lparr>ns_work := (ns_work (nsys_of s))[i := current w]\<rparr>"
  by (simp add: nsys_of_def map_update)

text \<open>A step is one of the queue, or none of it: the job of a worker stays the same.\<close>

lemma fstep_queue:
  assumes "fstep P s t"
  shows "nstep (\<lambda>_ _. fs_index t) (nsys_of s) (nsys_of t) \<or> nsys_of t = (nsys_of s)\<lparr>ns_index := fs_index t\<rparr>"
  using assms
proof (cases rule: fstep.cases)
  case (send j js c)
  then show ?thesis using nstep.send [of "nsys_of s" j js c "\<lambda>_ _. fs_index t"] by (simp add: nsys_of_def)
next
  case (take i j c)
  then show ?thesis using nstep.take [of i "nsys_of s" j c "\<lambda>_ _. fs_index t"] by (simp add: nsys_of_def map_update)
next
  case (search i j sr)
  then have "map current (fs_work s) ! i = Some j" by simp
  then have "(map current (fs_work s))[i := Some j] = map current (fs_work s)" by (metis list_update_id)
  with search show ?thesis by (simp add: nsys_of_def map_update)
next
  case (remove i j h hs fullName)
  then have "map current (fs_work s) ! i = Some j" by simp
  then have "(map current (fs_work s))[i := Some j] = map current (fs_work s)" by (metis list_update_id)
  with remove show ?thesis by (simp add: nsys_of_def map_update)
qed (use nstep.handle [of _ "nsys_of s" _ "\<lambda>_ _. fs_index t"] in \<open>force simp: nsys_of_def map_update\<close>)+

lemma fstep_accounted: "fstep P s t \<Longrightarrow> accounted (nsys_of t) = accounted (nsys_of s)"
  using fstep_queue [of P s t] nstep_accounted by (fastforce simp: accounted_def in_work_def)

lemma fstep_running: "fstep P s t \<Longrightarrow> running (nsys_of s) \<Longrightarrow> running (nsys_of t)"
  using fstep_queue [of P s t] nstep_running by (fastforce simp: running_def)

section \<open>What a search for a deletion finds\<close>

lemma delete_search:
  assumes bl: "bleve_ok fmt (idx_bleve idx) docs" and k: "keyed (contents docs idx)"
    and s: "idx_Search idx (delete_request t) = Ok sr"
  shows "length (found sr) \<le> 10"
    and "\<forall>h \<in> set (found sr). map_of (doc_Fields h) ''FullName'' = Some (FStr (doc_ID h)) \<and>
      doc_ID h \<in> with_id (contents docs idx) t"
    and "card (with_id (contents docs idx) t) \<le> 10 \<Longrightarrow> doc_ID ` set (found sr) = with_id (contents docs idx) t"
proof -
  obtain ids hits where ids: "distinct ids" "set ids = with_id (contents docs idx) t"
    and sr: "sr = \<lparr>res_Total = length ids, res_Hits = hits\<rparr>"
    and hits: "map doc_ID hits = take 10 ids" "list_all (hit_of fmt (contents docs idx) [''FullName'']) hits"
    using search_by_id [OF bl, of t "[''FullName'']"] s by (auto simp: delete_request_def)
  have f: "found sr = hits" using hits(1) by (auto simp: found_def sr)
  have len: "length hits \<le> 10" using hits(1) by (metis length_map length_take min.cobounded2)
  then show "length (found sr) \<le> 10" by (simp add: f)
  have ID: "doc_ID ` set hits = set (take 10 ids)" by (simp flip: hits(1))
  then have "doc_ID ` set hits \<subseteq> with_id (contents docs idx) t" using ids(2) set_take_subset by fastforce
  moreover have "\<forall>h \<in> set hits. map_of (doc_Fields h) ''FullName'' = Some (FStr (doc_ID h))"
    using hits(2) k by (fastforce simp: list_all_iff hit_of_doc doc_of_def keyed_def)
  ultimately show "\<forall>h \<in> set (found sr). map_of (doc_Fields h) ''FullName'' = Some (FStr (doc_ID h)) \<and>
      doc_ID h \<in> with_id (contents docs idx) t"
    by (auto simp: f)
  assume "card (with_id (contents docs idx) t) \<le> 10"
  with ids have "take 10 ids = ids" by (metis distinct_card take_all)
  with ID ids(2) show "doc_ID ` set (found sr) = with_id (contents docs idx) t" by (simp add: f)
qed

lemma contents_delete:
  assumes "bleve_ok fmt (idx_bleve idx) docs"
  shows "contents docs (idx\<lparr>idx_Index := bl_Delete (idx_bleve idx) (idx_Index idx) k\<rparr>) = (contents docs idx)(k := None)"
  using assms by (simp add: contents_def bleve_ok_def updates_ok_def fun_eq_iff)

lemma contents_index:
  assumes "bleve_ok fmt (idx_bleve idx) docs"
  shows "contents docs (IndexImage_op idx im) = (contents docs idx)(im_FullName im \<mapsto> im)"
  using assms by (simp add: IndexImage_op_def contents_def bleve_ok_def updates_ok_def fun_eq_iff)

lemma same_but_index_ops [simp]:
  "same_but_index a b \<Longrightarrow> same_but_index a (b\<lparr>idx_Index := x\<rparr>)"
  "same_but_index a b \<Longrightarrow> same_but_index a (IndexImage_op b im)"
  by (auto simp: IndexImage_op_def same_but_index_def) (metis Index.surjective Index.update_convs(2))+

lemma keyed_delete: "keyed m \<Longrightarrow> keyed (m(k := None))"
  by (auto simp: keyed_def)

section \<open>Only what the jobs touch changes\<close>

text \<open>The names whose documents may have changed: those in \<open>B\<close>, which somebody else writes, and those
  some job given in so far touches.\<close>

definition may_change ::
    "string set \<Rightarrow> NotificationJob set \<Rightarrow> (NotificationJob \<Rightarrow> IndexImage option) \<Rightarrow> (string \<rightharpoonup> IndexImage) \<Rightarrow> string set" where
  "may_change B A f m = B \<union> {k. \<exists>j \<in> A. touches f m k j}"

definition on_its_way :: "string set \<Rightarrow> notifier \<Rightarrow> bool" where
  "on_its_way K w \<longleftrightarrow> (case w of
     Deleting j hs \<Rightarrow> job_Action j = DeleteAction \<and> length hs \<le> 10 \<and>
       (\<forall>h \<in> set hs. map_of (doc_Fields h) ''FullName'' = Some (FStr (doc_ID h)) \<and> doc_ID h \<in> K)
   | _ \<Rightarrow> True)"

lemma on_its_way_simps [simp]:
  "on_its_way K Idle" "on_its_way K (Taken j)"
  "on_its_way K (Deleting j hs) \<longleftrightarrow> job_Action j = DeleteAction \<and> length hs \<le> 10 \<and>
     (\<forall>h \<in> set hs. map_of (doc_Fields h) ''FullName'' = Some (FStr (doc_ID h)) \<and> doc_ID h \<in> K)"
  by (simp_all add: on_its_way_def)

lemma on_its_way_mono: "on_its_way K w \<Longrightarrow> K \<subseteq> K' \<Longrightarrow> on_its_way K' w"
  by (cases w) auto

definition orderly ::
    "('ix \<Rightarrow> string \<rightharpoonup> IndexImage) \<Rightarrow> (string \<Rightarrow> 'n res) \<Rightarrow> ('ix, 't, 'f, 'n) Index \<Rightarrow> NotificationJob set \<Rightarrow> string set \<Rightarrow>
     ('ix, 't, 'f, 'n) fsys \<Rightarrow> bool" where
  "orderly docs P idx A B s \<longleftrightarrow>
     same_but_index idx (fs_index s) \<and> keyed (contents docs (fs_index s)) \<and> set_mset (accounted (nsys_of s)) \<subseteq> A \<and>
     (\<forall>k. contents docs (fs_index s) k \<noteq> contents docs idx k \<longrightarrow> k \<in> may_change B A (fetched P idx) (contents docs idx)) \<and>
     list_all (on_its_way (may_change B A (fetched P idx) (contents docs idx))) (fs_work s)"

lemma orderly_mono: "orderly docs P idx A B s \<Longrightarrow> A \<subseteq> A' \<Longrightarrow> B \<subseteq> B' \<Longrightarrow> orderly docs P idx A' B' s"
proof -
  assume o: "orderly docs P idx A B s" and sub: "A \<subseteq> A'" "B \<subseteq> B'"
  let ?f = "fetched P idx" and ?m = "contents docs idx"
  have m: "may_change B A ?f ?m \<subseteq> may_change B' A' ?f ?m" using sub by (auto simp: may_change_def)
  then have "list_all (on_its_way (may_change B' A' ?f ?m)) (fs_work s)"
    using o on_its_way_mono [OF _ m] by (auto simp: orderly_def list_all_iff)
  with o m sub show ?thesis unfolding orderly_def by blast
qed

lemma job_accounted: "i < length (fs_work s) \<Longrightarrow> current (fs_work s ! i) = Some j \<Longrightarrow> j \<in># accounted (nsys_of s)"
proof -
  have "Some j \<in> set ws \<Longrightarrow> j \<in> set (somes ws)" for ws :: "NotificationJob option list"
    by (induction ws rule: somes.induct) auto
  moreover assume "i < length (fs_work s)" "current (fs_work s ! i) = Some j"
  then have "Some j \<in> set (map current (fs_work s))" by (metis imageI list.set_map nth_mem)
  ultimately show ?thesis by (simp add: accounted_def in_work_def nsys_of_def)
qed

lemma list_all_update: "list_all Q ws \<Longrightarrow> Q w \<Longrightarrow> list_all Q (ws[i := w])"
  by (auto simp: list_all_iff dest!: subsetD [OF set_update_subset_insert])

lemma fstep_orderly:
  assumes "bleve_ok fmt (idx_bleve idx) docs" and "fstep P s t" and "orderly docs P idx A B s"
  shows "orderly docs P idx A B t"
proof -
  let ?f = "fetched P idx" and ?m = "contents docs idx" and ?c = "contents docs (fs_index s)"
  let ?K = "may_change B A ?f ?m"
  have same: "same_but_index idx (fs_index s)" and k: "keyed ?c"
    and A: "set_mset (accounted (nsys_of s)) \<subseteq> A"
    and ch: "\<And>k. ?c k \<noteq> ?m k \<Longrightarrow> k \<in> ?K" and ws: "list_all (on_its_way ?K) (fs_work s)"
    using assms(3) by (auto simp: orderly_def)
  have bl: "bleve_ok fmt (idx_bleve (fs_index s)) docs"
    using assms(1) same by (simp add: same_but_index_sel)
  have A': "set_mset (accounted (nsys_of t)) \<subseteq> A" using A fstep_accounted [OF assms(2)] by simp
  show ?thesis
    using assms(2)
  proof (cases rule: fstep.cases)
    case (search i j sr)
    have "k \<in> ?K" if "k \<in> with_id ?c (job_Digest j)" for k
    proof (cases "?c k = ?m k")
      case True
      with that search(4) have "touches ?f ?m k j" by (auto simp: touches_def with_id_def)
      with A job_accounted [OF search(2)] search(3) show ?thesis by (auto simp: may_change_def)
    qed (rule ch)
    with delete_search [OF bl k search(5)] search(4) have "on_its_way ?K (Deleting j (found sr))" by auto
    with search same k A' ch ws show ?thesis by (simp add: orderly_def list_all_update)
  next
    case (remove i j h hs fullName)
    from ws remove(2,3) have w: "on_its_way ?K (Deleting j (h # hs))" by (metis list_all_length)
    with remove(4) have n: "fullName = doc_ID h" by simp
    show ?thesis
      using w same k A' ch ws unfolding remove(1) n
      by (auto simp: orderly_def list_all_update contents_delete [OF bl] keyed_delete split: if_splits)
  next
    case (push i j im)
    have f: "?f j = Some im" using push(5) same by (simp add: fetched_def GetImage_def same_but_index_sel)
    have "j \<in> A" using A job_accounted [OF push(2)] push(3) by auto
    then have "im_FullName im \<in> ?K" using f push(4) by (auto simp: touches_def may_change_def)
    then show ?thesis
      using same k A' ch ws unfolding push(1)
      by (auto simp: orderly_def list_all_update contents_index [OF bl] keyed_upd split: if_splits)
  qed (use same k A' ch ws in \<open>simp_all add: orderly_def list_all_update\<close>)
qed

section \<open>The workers come to rest\<close>

fun worker_left :: "notifier \<Rightarrow> nat" where
  "worker_left Idle = 0"
| "worker_left (Taken j) = 12"
| "worker_left (Deleting j hs) = Suc (length hs)"

definition fine_left :: "('ix, 't, 'f, 'n) fsys \<Rightarrow> nat" where
  "fine_left s = 14 * length (fs_todo s) + 13 * length (ch_buf (fs_chan s)) + sum_list (map worker_left (fs_work s))"

lemma fstep_left:
  assumes "bleve_ok fmt (idx_bleve idx) docs" and "orderly docs P idx A B s" and "fstep P s t"
  shows "fine_left t < fine_left s"
proof -
  have bl: "bleve_ok fmt (idx_bleve (fs_index s)) docs" and k: "keyed (contents docs (fs_index s))"
    using assms(1,2) by (auto simp: orderly_def same_but_index_sel)
  have sum: "sum_list (map worker_left ((fs_work s)[i := w])) + worker_left (fs_work s ! i) =
      sum_list (map worker_left (fs_work s)) + worker_left w" if "i < length (fs_work s)" for i w
    using that sum_list_update [of i "map worker_left (fs_work s)" "worker_left w"]
      elem_le_sum_list [of i "map worker_left (fs_work s)"] by (simp add: map_update)
  show ?thesis
    using assms(3)
  proof (cases rule: fstep.cases)
    case (send j js c)
    then show ?thesis using gochan.send_some [of j "fs_chan s" c] by (simp add: fine_left_def)
  next
    case (take i j c)
    then show ?thesis using gochan.recv_elem [of "fs_chan s" j c] sum [of i "Taken j"] by (simp add: fine_left_def)
  next
    case (search i j sr)
    then show ?thesis using delete_search(1) [OF bl k search(5)] sum [of i "Deleting j (found sr)"] by (simp add: fine_left_def)
  next
    case (remove i j h hs n)
    then show ?thesis using sum [of i "Deleting j hs"] by (simp add: fine_left_def)
  next
    case (deleted i j)
    then show ?thesis using sum [of i Idle] by (simp add: fine_left_def)
  next
    case (push i j im)
    then show ?thesis using sum [of i Idle] by (simp add: fine_left_def)
  next
    case (unfetched i j e)
    then show ?thesis using sum [of i Idle] by (simp add: fine_left_def)
  next
    case (ignored i j)
    then show ?thesis using sum [of i Idle] by (simp add: fine_left_def)
  qed
qed

interpretation frun: runs "fstep P" "freach P" fine_left
  "\<lambda>s. bleve_ok fmt (idx_bleve idx) docs \<and> orderly docs P idx A B s"
proof unfold_locales
  fix Q s t assume "freach P s t" "Q s" "\<And>t u. Q t \<Longrightarrow> fstep P t u \<Longrightarrow> Q u"
  then show "Q t" by (induction rule: freach.induct) auto
qed (auto intro: freach.intros fstep_orderly fstep_left)

lemma search_answers:
  assumes "bleve_ok fmt (idx_bleve idx) docs"
  obtains sr where "idx_Search idx (delete_request t) = Ok sr"
  using search_by_id [OF assms, of t "[''FullName'']"] by (metis delete_request_def)

lemma worker_moves:
  assumes bl: "bleve_ok fmt (idx_bleve idx) docs" and o: "orderly docs P idx A B s"
    and safe: "\<forall>j \<in> A. fetch_safe P idx j" and i: "i < length (fs_work s)" and busy: "fs_work s ! i \<noteq> Idle"
  shows "\<exists>t. fstep P s t"
proof (cases "fs_work s ! i")
  case Idle
  with busy show ?thesis by simp
next
  case (Taken j)
  have same: "same_but_index idx (fs_index s)" using o by (simp add: orderly_def)
  have "j \<in> A" using job_accounted [OF i] Taken o by (auto simp: orderly_def)
  with safe have f: "job_Action j = PushAction \<Longrightarrow>
      GetImage P (fs_index s) (job_Repository j) (job_Tag j) (job_Digest j) \<noteq> Panic"
    using same by (auto simp: fetch_safe_def GetImage_def same_but_index_sel)
  consider (del) "job_Action j = DeleteAction" | (push) "job_Action j = PushAction"
    | (other) "job_Action j \<noteq> DeleteAction" "job_Action j \<noteq> PushAction" by blast
  then show ?thesis
  proof cases
    case del
    obtain sr where "idx_Search (fs_index s) (delete_request (job_Digest j)) = Ok sr"
      using search_answers [of fmt "fs_index s" docs "job_Digest j"] bl same by (auto simp: same_but_index_sel)
    with del i Taken show ?thesis by (blast intro: fstep.search)
  next
    case push
    with f i Taken show ?thesis
      by (cases "GetImage P (fs_index s) (job_Repository j) (job_Tag j) (job_Digest j)")
        (blast intro: fstep.push fstep.unfetched)+
  next
    case other
    with i Taken show ?thesis by (blast intro: fstep.ignored)
  qed
next
  case (Deleting j hs)
  show ?thesis
  proof (cases hs)
    case Nil
    with i Deleting show ?thesis by (blast intro: fstep.deleted)
  next
    case (Cons h hs')
    have "on_its_way (may_change B A (fetched P idx) (contents docs idx)) (fs_work s ! i)"
      using o i by (simp add: orderly_def list_all_length)
    then have "as_string (map_of (doc_Fields h) ''FullName'') = Ok (doc_ID h)" by (simp add: Deleting Cons)
    with i Deleting Cons show ?thesis by (blast intro: fstep.remove)
  qed
qed

lemma rest_done:
  assumes "bleve_ok fmt (idx_bleve idx) docs" and "orderly docs P idx A B s" and "\<forall>j \<in> A. fetch_safe P idx j"
    and run: "running (nsys_of s)" and rest: "\<nexists>t. fstep P s t"
  shows "list_all (\<lambda>w. w = Idle) (fs_work s) \<and> mset (fs_done s) = accounted (nsys_of s)"
proof -
  have idle: "list_all (\<lambda>w. w = Idle) (fs_work s)"
    using worker_moves [OF assms(1-3)] rest by (auto simp: list_all_length)
  have workers: "length (fs_work s) = 3" and ch: "\<not> ch_closed (fs_chan s)" "ch_cap (fs_chan s) = 3"
    using run by (simp_all add: running_def nsys_of_def)
  have empty: "ch_buf (fs_chan s) = []"
  proof (rule ccontr)
    assume "ch_buf (fs_chan s) \<noteq> []"
    then obtain j c where "chan_recv (fs_chan s) = Some (Elem j, c)"
      by (cases "ch_buf (fs_chan s)") (auto simp: chan_recv_def)
    moreover have "fs_work s ! 0 = Idle" using idle workers by (simp add: list_all_length)
    ultimately show False using rest workers fstep.take [of 0 s j c P] by auto
  qed
  have "fs_todo s = []"
  proof (rule ccontr)
    assume "fs_todo s \<noteq> []"
    then obtain j js where "fs_todo s = j # js" by (cases "fs_todo s") auto
    moreover obtain c where "chan_send j (fs_chan s) = Ok (Some c)" using ch empty by (simp add: chan_send_def)
    ultimately show False using rest fstep.send [of s j js c P] by auto
  qed
  moreover have "list_all (\<lambda>w. w = Idle) ws \<Longrightarrow> somes (map current ws) = []" for ws by (induction ws) auto
  ultimately show ?thesis using idle empty by (simp add: accounted_def in_work_def nsys_of_def)
qed

section \<open>When the interleaving does not matter\<close>

text \<open>
  Pushes and deletions are apart when no pushed image has a deleted digest and none takes the name of
  an image that has one.
\<close>

definition apart :: "(NotificationJob \<Rightarrow> IndexImage option) \<Rightarrow> (string \<rightharpoonup> IndexImage) \<Rightarrow> NotificationJob set \<Rightarrow> bool" where
  "apart f m A \<longleftrightarrow> (\<forall>p \<in> A. \<forall>d \<in> A. job_Action p = PushAction \<longrightarrow> job_Action d = DeleteAction \<longrightarrow>
     (\<forall>im. f p = Some im \<longrightarrow> im_ID im \<noteq> job_Digest d \<and> im_FullName im \<notin> with_id m (job_Digest d)))"

definition few :: "(string \<rightharpoonup> IndexImage) \<Rightarrow> NotificationJob set \<Rightarrow> bool" where
  "few m A \<longleftrightarrow> (\<forall>d \<in> A. job_Action d = DeleteAction \<longrightarrow> card (with_id m (job_Digest d)) \<le> 10)"

definition deleting :: "notifier list \<Rightarrow> NotificationJob set" where
  "deleting ws = {j. \<exists>hs. Deleting j hs \<in> set ws}"

lemma deleting_update:
  assumes "i < length ws"
  shows "\<lbrakk>ws ! i = Idle \<or> (\<exists>j. ws ! i = Taken j)\<rbrakk> \<Longrightarrow> deleting ws \<subseteq> deleting (ws[i := w])"
    and "ws ! i = Deleting j hs \<Longrightarrow> deleting ws \<subseteq> insert j (deleting (ws[i := w]))"
    and "ws ! i = Deleting j hs \<Longrightarrow> deleting ws \<subseteq> deleting (ws[i := Deleting j hs'])"
proof -
  have *: "x \<in> set (ws[i := w])" if "x \<in> set ws" "x \<noteq> ws ! i" for x w
    using that assms by (metis in_set_conv_nth length_list_update nth_list_update_neq)
  show "\<lbrakk>ws ! i = Idle \<or> (\<exists>j. ws ! i = Taken j)\<rbrakk> \<Longrightarrow> deleting ws \<subseteq> deleting (ws[i := w])"
    using * by (fastforce simp: deleting_def)
  show "ws ! i = Deleting j hs \<Longrightarrow> deleting ws \<subseteq> insert j (deleting (ws[i := w]))"
    using * by (fastforce simp: deleting_def)
  show "deleting ws \<subseteq> deleting (ws[i := Deleting j hs'])" if "ws ! i = Deleting j hs"
  proof
    fix x assume "x \<in> deleting ws"
    then obtain hs0 where "Deleting x hs0 \<in> set ws" by (auto simp: deleting_def)
    then show "x \<in> deleting (ws[i := Deleting j hs'])"
      using * [of "Deleting x hs0" "Deleting j hs'"] that set_update_memI [OF assms, of "Deleting j hs'"]
      by (cases "x = j") (auto simp: deleting_def)
  qed
qed

text \<open>
  The documents against those of the finished jobs done one after the other: they differ at most where a
  deletion on its way has already removed something, and such a deletion still has to remove whatever
  is left with its digest.
\<close>

definition pending_deletion ::
    "NotificationJob set \<Rightarrow> (string \<rightharpoonup> IndexImage) \<Rightarrow> (string \<rightharpoonup> IndexImage) \<Rightarrow> (string \<rightharpoonup> IndexImage) \<Rightarrow> notifier \<Rightarrow> bool" where
  "pending_deletion A m a c w \<longleftrightarrow> (case w of
     Deleting j hs \<Rightarrow> j \<in> A \<and> job_Action j = DeleteAction \<and> doc_ID ` set hs \<subseteq> with_id m (job_Digest j) \<and>
       (\<forall>k \<in> with_id a (job_Digest j). c k = None \<or> k \<in> doc_ID ` set hs)
   | _ \<Rightarrow> True)"

lemma pending_deletion_simps [simp]:
  "pending_deletion A m a c Idle" "pending_deletion A m a c (Taken j)"
  "pending_deletion A m a c (Deleting j hs) \<longleftrightarrow> j \<in> A \<and> job_Action j = DeleteAction \<and>
     doc_ID ` set hs \<subseteq> with_id m (job_Digest j) \<and> (\<forall>k \<in> with_id a (job_Digest j). c k = None \<or> k \<in> doc_ID ` set hs)"
  by (simp_all add: pending_deletion_def)

definition sequential ::
    "(NotificationJob \<Rightarrow> IndexImage option) \<Rightarrow> (string \<rightharpoonup> IndexImage) \<Rightarrow> NotificationJob set \<Rightarrow>
     NotificationJob list \<Rightarrow> (string \<rightharpoonup> IndexImage) \<Rightarrow> notifier list \<Rightarrow> bool" where
  "sequential f m A js c ws \<longleftrightarrow> (let a = fold (abs_job f) js m in
     (\<forall>k. a k = m k \<or> a k = None \<or>
        (\<exists>p \<in> A. \<exists>im. job_Action p = PushAction \<and> f p = Some im \<and> im_FullName im = k \<and> a k = Some im)) \<and>
     (\<forall>k. c k = a k \<or> c k = None \<and> a k = m k \<and> (\<exists>j \<in> deleting ws. k \<in> with_id m (job_Digest j))) \<and>
     list_all (pending_deletion A m a c) ws)"

lemma pending_mono:
  assumes "pending_deletion A m a c w" and "\<And>k. a' k = a k \<or> a' k = None \<or> k \<notin> with_id a' (job_Digest (the (current w)))"
    and "\<And>k. c' k = c k \<or> c' k = None \<or> k \<notin> with_id a' (job_Digest (the (current w)))"
  shows "pending_deletion A m a' c' w"
proof (cases w)
  case (Deleting j hs)
  have "c' k = None \<or> k \<in> doc_ID ` set hs" if "k \<in> with_id a' (job_Digest j)" for k
  proof -
    from that assms(2) [of k] have "k \<in> with_id a (job_Digest j)" by (auto simp: with_id_def Deleting)
    with assms(1) have "c k = None \<or> k \<in> doc_ID ` set hs" by (simp add: Deleting)
    moreover from assms(3) [of k] that have "c' k = c k \<or> c' k = None" by (simp add: Deleting)
    ultimately show ?thesis by auto
  qed
  with assms(1) show ?thesis by (simp add: Deleting)
qed simp_all

lemma with_id_iff: "k \<in> with_id m t \<longleftrightarrow> (\<exists>im. m k = Some im \<and> im_ID im = t)"
  by (simp add: with_id_def)

lemma list_all_updateI: "list_all Q ws \<Longrightarrow> (\<And>w. w \<in> set ws \<Longrightarrow> Q w \<Longrightarrow> Q' w) \<Longrightarrow> Q' w \<Longrightarrow> list_all Q' (ws[i := w])"
  by (simp add: list_all_iff) (metis set_update_subset_insert insert_iff subsetD)

lemma finite_with_id:
  assumes "bleve_ok fmt (idx_bleve idx) docs"
  shows "finite (with_id (contents docs idx) t)"
  using search_by_id [OF assms, of t "[]"] by (metis List.finite_set)

lemma sequential_work:
  assumes "sequential f m A js c ws" and "deleting ws \<subseteq> deleting (ws[i := w])"
    and "pending_deletion A m (fold (abs_job f) js m) c w"
  shows "sequential f m A js c (ws[i := w])"
proof -
  have "\<exists>j \<in> deleting (ws[i := w]). k \<in> D j" if "\<exists>j \<in> deleting ws. k \<in> D j" for k D
    using that assms(2) by blast
  with assms(1,3) show ?thesis unfolding sequential_def Let_def by (meson list_all_update)
qed

lemma sequential_skip:
  "abs_job f j (fold (abs_job f) js m) = fold (abs_job f) js m \<Longrightarrow>
   sequential f m A (js @ [j]) c ws = sequential f m A js c ws"
  by (simp add: sequential_def)

lemma fstep_sequential:
  assumes bl0: "bleve_ok fmt (idx_bleve idx) docs" and o: "orderly docs P idx A B s"
    and ap: "apart (fetched P idx) (contents docs idx) A" and few: "few (contents docs idx) A"
    and step: "fstep P s t"
    and seq: "sequential (fetched P idx) (contents docs idx) A (fs_done s) (contents docs (fs_index s)) (fs_work s)"
  shows "sequential (fetched P idx) (contents docs idx) A (fs_done t) (contents docs (fs_index t)) (fs_work t)"
proof -
  let ?f = "fetched P idx" and ?m = "contents docs idx" and ?c = "contents docs (fs_index s)"
  let ?a = "fold (abs_job ?f) (fs_done s) ?m"
  have same: "same_but_index idx (fs_index s)" and k: "keyed ?c" and A: "set_mset (accounted (nsys_of s)) \<subseteq> A"
    using o by (auto simp: orderly_def)
  have bl: "bleve_ok fmt (idx_bleve (fs_index s)) docs" using bl0 same by (simp add: same_but_index_sel)
  have a1: "\<And>k. ?a k = ?m k \<or> ?a k = None \<or>
      (\<exists>p \<in> A. \<exists>im. job_Action p = PushAction \<and> ?f p = Some im \<and> im_FullName im = k \<and> ?a k = Some im)"
    and c1: "\<And>k. ?c k = ?a k \<or> ?c k = None \<and> ?a k = ?m k \<and> (\<exists>j \<in> deleting (fs_work s). k \<in> with_id ?m (job_Digest j))"
    and p1: "list_all (pending_deletion A ?m ?a ?c) (fs_work s)"
    using seq by (simp_all add: sequential_def Let_def)
  have taken: "j \<in> A" if "i < length (fs_work s)" "fs_work s ! i = Taken j" for i j
    using A job_accounted [OF that(1)] that(2) by auto
  have untouched: "?a k = ?m k \<or> ?a k = None" if "k \<in> with_id ?m (job_Digest j)" "j \<in> A" "job_Action j = DeleteAction" for k j
    using a1 [of k] ap that unfolding apart_def by metis
  have old: "k \<in> with_id ?m (job_Digest j)" if "k \<in> with_id ?c (job_Digest j)" "j \<in> A" "job_Action j = DeleteAction" for k j
  proof -
    from that(1) obtain im where im: "?c k = Some im" "im_ID im = job_Digest j" by (auto simp: with_id_iff)
    then have "?a k = Some im" using c1 [of k] by auto
    with a1 [of k] im ap that(2,3) have "?m k = Some im" unfolding apart_def by (metis option.distinct(1) option.inject)
    with im(2) show ?thesis by (auto simp: with_id_iff)
  qed
  show ?thesis
    using step
  proof (cases rule: fstep.cases)
    case (send j js c)
    with seq show ?thesis by simp
  next
    case (take i j c)
    have "deleting (fs_work s) \<subseteq> deleting ((fs_work s)[i := Taken j])" using take deleting_update(1) by blast
    with sequential_work [OF seq] take(1) show ?thesis by simp
  next
    case (search i j sr)
    have "with_id ?c (job_Digest j) \<subseteq> with_id ?m (job_Digest j)"
      using old taken [OF search(2,3)] search(4) by blast
    then have "card (with_id ?c (job_Digest j)) \<le> 10"
      using few taken [OF search(2,3)] search(4) card_mono [OF finite_with_id [OF bl0]] unfolding few_def by (meson le_trans)
    then have found: "doc_ID ` set (found sr) = with_id ?c (job_Digest j)" using delete_search(3) [OF bl k search(5)] by blast
    have "?c x = None \<or> x \<in> with_id ?c (job_Digest j)" if "x \<in> with_id ?a (job_Digest j)" for x
      using that c1 [of x] by (auto simp: with_id_iff)
    with found search(4) taken [OF search(2,3)] old have "pending_deletion A ?m ?a ?c (Deleting j (found sr))" by auto
    moreover have "deleting (fs_work s) \<subseteq> deleting ((fs_work s)[i := Deleting j (found sr)])"
      using search(2,3) deleting_update(1) by blast
    ultimately show ?thesis using sequential_work [OF seq] search(1) by simp
  next
    case (remove i j h hs fullName)
    have w: "pending_deletion A ?m ?a ?c (Deleting j (h # hs))" using p1 remove(2,3) by (metis list_all_length)
    have "on_its_way (may_change B A ?f ?m) (Deleting j (h # hs))" using o remove(2,3) by (metis list_all_length orderly_def)
    with remove(4) have n: "fullName = doc_ID h" by simp
    have del: "deleting (fs_work s) \<subseteq> deleting ((fs_work s)[i := Deleting j hs])"
      using remove(2,3) deleting_update(3) by blast
    have here: "j \<in> deleting ((fs_work s)[i := Deleting j hs])"
      using set_update_memI [OF remove(2), of "Deleting j hs"] by (auto simp: deleting_def)
    have "(?c(fullName := None)) x = ?a x \<or> (?c(fullName := None)) x = None \<and> ?a x = ?m x \<and>
        (\<exists>j \<in> deleting ((fs_work s)[i := Deleting j hs]). x \<in> with_id ?m (job_Digest j))" for x
      using c1 [of x] untouched [of x j] w here del by (cases "x = fullName") (auto simp: n)
    moreover have "list_all (pending_deletion A ?m ?a (?c(fullName := None))) ((fs_work s)[i := Deleting j hs])"
    proof (rule list_all_updateI [OF p1])
      show "pending_deletion A ?m ?a (?c(fullName := None)) w" if "pending_deletion A ?m ?a ?c w" for w
        using that by (rule pending_mono) auto
      show "pending_deletion A ?m ?a (?c(fullName := None)) (Deleting j hs)"
        using w by (auto simp: n)
    qed
    ultimately show ?thesis using a1 unfolding remove(1) by (simp add: sequential_def Let_def contents_delete [OF bl])
  next
    case (deleted i j)
    have w: "pending_deletion A ?m ?a ?c (Deleting j [])" using p1 deleted(2,3) by (metis list_all_length)
    let ?a' = "?a |` (- with_id ?a (job_Digest j))"
    have a': "fold (abs_job ?f) (fs_done s @ [j]) ?m = ?a'" using w by (simp add: abs_job_def)
    have del: "deleting (fs_work s) \<subseteq> insert j (deleting ((fs_work s)[i := Idle]))"
      using deleted(2,3) deleting_update(2) by blast
    have gone: "?c x = None" if "x \<in> with_id ?a (job_Digest j)" for x using w that by auto
    have "?c x = ?a' x \<or> ?c x = None \<and> ?a' x = ?m x \<and> (\<exists>j \<in> deleting ((fs_work s)[i := Idle]). x \<in> with_id ?m (job_Digest j))" for x
    proof (cases "x \<in> with_id ?a (job_Digest j)")
      case True
      with gone show ?thesis by (simp add: restrict_map_def)
    next
      case False
      then have "?a' x = ?a x" by (simp add: restrict_map_def)
      moreover have "x \<notin> with_id ?m (job_Digest j) \<or> ?a x \<noteq> ?m x" using False by (auto simp: with_id_iff)
      ultimately show ?thesis using c1 [of x] del by auto
    qed
    moreover have "?a' x = ?m x \<or> ?a' x = None \<or>
      (\<exists>p \<in> A. \<exists>im. job_Action p = PushAction \<and> ?f p = Some im \<and> im_FullName im = x \<and> ?a' x = Some im)" for x
      using a1 [of x] by (auto simp: restrict_map_def)
    moreover have "list_all (pending_deletion A ?m ?a' ?c) ((fs_work s)[i := Idle])"
    proof (rule list_all_updateI [OF p1])
      show "pending_deletion A ?m ?a' ?c w" if "pending_deletion A ?m ?a ?c w" for w
        using that by (rule pending_mono) (auto simp: restrict_map_def)
    qed simp
    ultimately show ?thesis unfolding deleted(1) by (simp add: sequential_def Let_def a' del: fold_append)
  next
    case (push i j im)
    have f: "?f j = Some im" using push(5) same by (simp add: fetched_def GetImage_def same_but_index_sel)
    have jA: "j \<in> A" using taken [OF push(2,3)] .
    let ?n = "im_FullName im"
    have a': "fold (abs_job ?f) (fs_done s @ [j]) ?m = ?a(?n \<mapsto> im)" using push(4) f by (simp add: abs_job_def DeleteAction_def PushAction_def)
    have del: "deleting (fs_work s) \<subseteq> deleting ((fs_work s)[i := Idle])" using push(2,3) deleting_update(1) by blast
    have "(?a(?n \<mapsto> im)) x = ?m x \<or> (?a(?n \<mapsto> im)) x = None \<or>
      (\<exists>p \<in> A. \<exists>im'. job_Action p = PushAction \<and> ?f p = Some im' \<and> im_FullName im' = x \<and> (?a(?n \<mapsto> im)) x = Some im')" for x
      using a1 [of x] jA push(4) f by auto
    moreover have "(?c(?n \<mapsto> im)) x = (?a(?n \<mapsto> im)) x \<or> (?c(?n \<mapsto> im)) x = None \<and> (?a(?n \<mapsto> im)) x = ?m x \<and>
        (\<exists>j \<in> deleting ((fs_work s)[i := Idle]). x \<in> with_id ?m (job_Digest j))" for x
      using c1 [of x] del by auto
    moreover have "list_all (pending_deletion A ?m (?a(?n \<mapsto> im)) (?c(?n \<mapsto> im))) ((fs_work s)[i := Idle])"
    proof (rule list_all_updateI [OF p1])
      fix w assume w: "pending_deletion A ?m ?a ?c w"
      show "pending_deletion A ?m (?a(?n \<mapsto> im)) (?c(?n \<mapsto> im)) w"
      proof (cases w)
        case (Deleting d hs)
        with w ap jA f push(4) have "im_ID im \<noteq> job_Digest d" by (auto simp: apart_def)
        with w show ?thesis by (auto simp: Deleting with_id_iff split: if_splits)
      qed simp_all
    qed simp
    ultimately show ?thesis
      unfolding push(1) by (simp add: sequential_def Let_def a' contents_index [OF bl] del: fold_append fun_upd_apply)
  next
    case (unfetched i j e)
    have "?f j = None" using unfetched(5) same by (simp add: fetched_def GetImage_def same_but_index_sel)
    then have "abs_job ?f j ?a = ?a" using unfetched(4) by (simp add: abs_job_def DeleteAction_def PushAction_def)
    moreover have "deleting (fs_work s) \<subseteq> deleting ((fs_work s)[i := Idle])" using unfetched(2,3) deleting_update(1) by blast
    ultimately show ?thesis using sequential_work [OF seq, of i Idle] unfetched(1) by (simp add: sequential_skip)
  next
    case (ignored i j)
    have "abs_job ?f j ?a = ?a" using ignored(4,5) by (simp add: abs_job_def)
    moreover have "deleting (fs_work s) \<subseteq> deleting ((fs_work s)[i := Idle])" using ignored(2,3) deleting_update(1) by blast
    ultimately show ?thesis using sequential_work [OF seq, of i Idle] ignored(1) by (simp add: sequential_skip)
  qed
qed

section \<open>Jobs handed in together\<close>

text \<open>The system with jobs that wait to be sent.\<close>

definition with_jobs :: "NotificationJob list \<Rightarrow> ('ix, 't, 'f, 'n) Index \<Rightarrow> ('ix, 't, 'f, 'n) fsys" where
  "with_jobs jobs idx = (new_fsys idx)\<lparr>fs_todo := jobs\<rparr>"

lemma with_jobs_start:
  assumes "keyed (contents docs idx)"
  shows "running (nsys_of (with_jobs jobs idx))" and "accounted (nsys_of (with_jobs jobs idx)) = mset jobs"
    and "orderly docs P idx (set jobs) B (with_jobs jobs idx)"
    and "sequential f m A (fs_done (with_jobs jobs idx)) m (fs_work (with_jobs jobs idx))"
proof -
  have r: "nsys_of (with_jobs jobs idx) = (new_nsys idx)\<lparr>ns_todo := jobs\<rparr>"
    by (simp add: with_jobs_def nsys_of_def new_fsys_def new_nsys_def)
  show "running (nsys_of (with_jobs jobs idx))" by (simp add: r running_def new_nsys_def make_chan_def)
  show acc: "accounted (nsys_of (with_jobs jobs idx)) = mset jobs"
    by (simp add: r accounted_def new_nsys_def make_chan_def in_work_def numeral_3_eq_3)
  show "orderly docs P idx (set jobs) B (with_jobs jobs idx)"
    using assms acc by (simp add: orderly_def) (simp add: with_jobs_def new_fsys_def numeral_3_eq_3)
  show "sequential f m A (fs_done (with_jobs jobs idx)) m (fs_work (with_jobs jobs idx))"
    by (simp add: sequential_def with_jobs_def new_fsys_def numeral_3_eq_3)
qed

lemma freach_sequential:
  assumes "bleve_ok fmt (idx_bleve idx) docs" and "keyed (contents docs idx)"
    and "apart (fetched P idx) (contents docs idx) (set jobs)" and "few (contents docs idx) (set jobs)"
    and "freach P (with_jobs jobs idx) s"
  shows "sequential (fetched P idx) (contents docs idx) (set jobs) (fs_done s) (contents docs (fs_index s)) (fs_work s) \<and>
    orderly docs P idx (set jobs) {} s \<and> running (nsys_of s) \<and> accounted (nsys_of s) = mset jobs"
  using assms(5)
proof (induction rule: freach.induct)
  case stay
  have "contents docs (fs_index (with_jobs jobs idx)) = contents docs idx" by (simp add: with_jobs_def new_fsys_def)
  with with_jobs_start [OF assms(2)] show ?case by simp
next
  case (move t u)
  then show ?case
    using fstep_sequential [OF assms(1) _ assms(3,4) move.hyps(2)] fstep_orderly [OF assms(1) move.hyps(2)]
      fstep_running [OF move.hyps(2)] fstep_accounted [OF move.hyps(2)] by auto
qed

text \<open>
  C7: the three workers work inside their jobs at the same time: one may search while another deletes
  and a third files. When no pushed image has a deleted digest or takes the name of an image that
  has one, the result is nevertheless that of handling whole jobs one after the other, in the order in
  which they were finished; and the workers come to rest with every job done exactly once.
\<close>

theorem interleaving_immaterial:
  assumes "bleve_ok fmt (idx_bleve idx) docs" and "keyed (contents docs idx)"
    and "\<forall>j \<in> set jobs. fetch_safe P idx j" and "few (contents docs idx) (set jobs)"
    and "apart (fetched P idx) (contents docs idx) (set jobs)"
    and "freach P (with_jobs jobs idx) s"
  shows "(\<exists>u. freach P s u \<and> (\<nexists>v. fstep P u v)) \<and>
    ((\<nexists>t. fstep P s t) \<longrightarrow> mset (fs_done s) = mset jobs \<and>
       contents docs (fs_index s) = fold (abs_job (fetched P idx)) (fs_done s) (contents docs idx))"
proof (intro conjI impI)
  note s = freach_sequential [OF assms(1,2,5,4,6)]
  show "\<exists>u. freach P s u \<and> (\<nexists>v. fstep P u v)" using frun.ends [of fmt idx docs P "set jobs" "{}" s] assms(1) s by blast
  assume "\<nexists>t. fstep P s t"
  with rest_done [OF assms(1) _ assms(3)] s
  have rest: "list_all (\<lambda>w. w = Idle) (fs_work s)" "mset (fs_done s) = mset jobs" by auto
  from rest(2) show "mset (fs_done s) = mset jobs" .
  from rest(1) have "deleting (fs_work s) = {}" by (auto simp: deleting_def list_all_iff)
  with s show "contents docs (fs_index s) = fold (abs_job (fetched P idx)) (fs_done s) (contents docs idx)"
    by (simp add: sequential_def Let_def fun_eq_iff)
qed

definition sample_delete :: NotificationJob where
  "sample_delete = \<lparr>job_Action = DeleteAction, job_Repository = [], job_Tag = [], job_Digest = ''d1''\<rparr>"

theorem interleaving_immaterial_witness:
  "\<exists>s. freach Ok (with_jobs [sample_delete] sample_index) s \<and> fs_done s = [sample_delete] \<and>
     contents map_of (fs_index s) = Map.empty"
proof -
  let ?s0 = "with_jobs [sample_delete] sample_index"
  have apart: "apart (fetched Ok sample_index) (contents map_of sample_index) (set [sample_delete])"
    by (simp add: apart_def sample_delete_def DeleteAction_def PushAction_def)
  have few: "few (contents map_of sample_index) (set [sample_delete])"
    by (simp add: few_def sample_delete_def sample_with_id)
  have safe: "\<forall>j \<in> set [sample_delete]. fetch_safe Ok sample_index j"
    by (simp add: fetch_safe_def sample_delete_def DeleteAction_def PushAction_def)
  note runs = interleaving_immaterial [OF sample_bleve_ok sample_keyed safe few apart]
  obtain s where s: "freach Ok ?s0 s" "\<nexists>v. fstep Ok s v" using runs [OF freach.stay] by blast
  from runs [OF s(1)] s(2) have d: "mset (fs_done s) = mset [sample_delete]" and c: "contents map_of (fs_index s) =
      fold (abs_job (fetched Ok sample_index)) (fs_done s) (contents map_of sample_index)" by blast+
  from d have "fs_done s = [sample_delete]" by (simp add: mset_single_iff)
  moreover have w: "with_id (contents map_of sample_index) ''d1'' = {''mysql:5.7''}"
    by (simp add: sample_index_sel with_id_single sample_image_def)
  moreover have "[k \<mapsto> x] |` (- {k}) = Map.empty" for k :: string and x :: IndexImage
    by (simp add: restrict_map_def fun_eq_iff)
  ultimately show ?thesis
    using s(1) c w by (intro exI [of _ s]) (simp add: abs_job_def sample_delete_def sample_index_sel)
qed

end
