(* ===== verification/Live.thy ===== *)
theory Live
  imports Interleave Build
begin

text \<open>
  The server on an index that is still being built (\<open>cmd/server.go\<close>: \<open>runServer\<close> starts \<open>Build\<close> and then
  the server): the goroutines of the build, the handlers and the workers inside their jobs, interleaved
  on one index. The index is the one of \<open>New\<close>, which is empty.
\<close>

section \<open>The system\<close>

text \<open>
  \<open>submit\<close> applies a batch to the index of the engine; it is documented to apply all of it or, with an
  error, none. The error is logged and dropped.
\<close>

definition commit_batch ::
    "((string \<times> IndexImage) list \<Rightarrow> 'ix \<Rightarrow> 'ix \<times> unit res) \<Rightarrow> (string \<times> IndexImage) list \<Rightarrow>
     ('ix, 't, 'f, 'n) Index \<Rightarrow> ('ix, 't, 'f, 'n) Index" where
  "commit_batch submit batch idx = idx\<lparr>idx_Index := fst (submit batch (idx_Index idx))\<rparr>"

definition batch_ok ::
    "('ix \<Rightarrow> string \<rightharpoonup> IndexImage) \<Rightarrow> ((string \<times> IndexImage) list \<Rightarrow> 'ix \<Rightarrow> 'ix \<times> unit res) \<Rightarrow> bool" where
  "batch_ok docs submit \<longleftrightarrow> (\<forall>batch ix. docs (fst (submit batch ix)) =
     (if is_ok (snd (submit batch ix)) then fold (\<lambda>(k, im) m. m(k \<mapsto> im)) batch (docs ix) else docs ix))"

type_synonym ('ix, 't, 'f, 'n) live_state =
  "(RegistryImage, ('ix, 't, 'f, 'n) Index) bsys \<times> ('ix, 't, 'f, 'n) fsys"

text \<open>
  The goroutines of the build and the workers work on one index: a step of the build starts from what
  the workers have left there and leaves what they find next.
\<close>

inductive lstep ::
    "(string \<Rightarrow> 'n res) \<Rightarrow> ((string \<times> IndexImage) list \<Rightarrow> 'ix \<Rightarrow> 'ix \<times> unit res) \<Rightarrow>
     ('ix, 't, 'f, 'n) live_state \<Rightarrow> ('ix, 't, 'f, 'n) live_state \<Rightarrow> bool" for P submit where
  worker: "\<not> b_panicked b \<Longrightarrow> fstep P s t \<Longrightarrow> lstep P submit (b, s) (b, t)"
| builder: "bstep Parse (commit_batch submit) (b\<lparr>b_index := fs_index s\<rparr>) c \<Longrightarrow>
    lstep P submit (b, s) (c, s\<lparr>fs_index := b_index c\<rparr>)"

inductive lreach ::
    "(string \<Rightarrow> 'n res) \<Rightarrow> ((string \<times> IndexImage) list \<Rightarrow> 'ix \<Rightarrow> 'ix \<times> unit res) \<Rightarrow>
     ('ix, 't, 'f, 'n) live_state \<Rightarrow> ('ix, 't, 'f, 'n) live_state \<Rightarrow> bool" for P submit x where
  stay: "lreach P submit x x"
| move: "lreach P submit x y \<Longrightarrow> lstep P submit y z \<Longrightarrow> lreach P submit x z"

text \<open>
  The server is started on an index that is still being built, and requests come in meanwhile; the
  list tells those so far. The jobs of a request wait among the others in any order that keeps theirs.
\<close>

inductive live ::
    "('ix, 't, 'f, 'n) Index nsys handler \<Rightarrow> (string \<Rightarrow> 'n res) \<Rightarrow>
     ((string \<times> IndexImage) list \<Rightarrow> 'ix \<Rightarrow> 'ix \<times> unit res) \<Rightarrow> (string \<times> RegistryImage list) list \<Rightarrow>
     ('ix, 't, 'f, 'n) Index \<Rightarrow> Request list \<Rightarrow> ('ix, 't, 'f, 'n) live_state \<Rightarrow> bool"
  for hd P submit repos idx where
  start: "live hd P submit repos idx [] (start_build repos idx, new_fsys idx)"
| request: "live hd P submit repos idx rs (b, s) \<Longrightarrow> \<not> b_panicked b \<Longrightarrow>
    hd r (nsys_of s, new_Response) = Ok (s', w) \<Longrightarrow> ns_todo s' = fs_todo s @ js \<Longrightarrow> todo \<in> shuffles (fs_todo s) js \<Longrightarrow>
    live hd P submit repos idx (rs @ [r]) (b, s\<lparr>fs_todo := todo\<rparr>)"
| caught: "live hd P submit repos idx rs (b, s) \<Longrightarrow> \<not> b_panicked b \<Longrightarrow>
    \<not> is_ok (hd r (nsys_of s, new_Response)) \<Longrightarrow> live hd P submit repos idx (rs @ [r]) (b, s)"
| work: "live hd P submit repos idx rs x \<Longrightarrow> lstep P submit x y \<Longrightarrow> live hd P submit repos idx rs y"

section \<open>Where the documents come from\<close>

text \<open>The documents of the registry as the build meets it, those that pushes may bring, and the names
  under which a document can stand that some deletion names.\<close>

definition built :: "(string \<times> RegistryImage list) list \<Rightarrow> IndexImage set" where
  "built repos = set (map (doc_of_image Parse) (repo_images repos))"

definition brought :: "(NotificationJob \<Rightarrow> IndexImage option) \<Rightarrow> IndexImage set \<Rightarrow> NotificationJob set \<Rightarrow> IndexImage set" where
  "brought f D A = D \<union> {im. \<exists>j \<in> A. job_Action j = PushAction \<and> f j = Some im}"

definition doomed :: "(NotificationJob \<Rightarrow> IndexImage option) \<Rightarrow> IndexImage set \<Rightarrow> NotificationJob set \<Rightarrow> string set" where
  "doomed f D A = im_FullName ` {im \<in> brought f D A. \<exists>j \<in> A. job_Action j = DeleteAction \<and> job_Digest j = im_ID im}"

lemma doomedI:
  "im \<in> brought f D A \<Longrightarrow> j \<in> A \<Longrightarrow> job_Action j = DeleteAction \<Longrightarrow> im_ID im = job_Digest j \<Longrightarrow>
   im_FullName im \<in> doomed f D A"
  unfolding doomed_def by (intro imageI CollectI conjI) auto

lemma brought_mono: "A \<subseteq> A' \<Longrightarrow> brought f D A \<subseteq> brought f D A'"
  by (auto simp: brought_def)

lemma doomed_mono: "A \<subseteq> A' \<Longrightarrow> doomed f D A \<subseteq> doomed f D A'"
  using brought_mono [of A A' f D] by (fastforce simp: doomed_def)

definition sourced ::
    "('ix \<Rightarrow> string \<rightharpoonup> IndexImage) \<Rightarrow> (string \<Rightarrow> 'n res) \<Rightarrow> ('ix, 't, 'f, 'n) Index \<Rightarrow> IndexImage set \<Rightarrow>
     NotificationJob multiset \<Rightarrow> ('ix, 't, 'f, 'n) fsys \<Rightarrow> bool" where
  "sourced docs P idx D J s \<longleftrightarrow>
     orderly docs P idx (set_mset J) UNIV s \<and> running (nsys_of s) \<and> accounted (nsys_of s) = J \<and>
     ran (contents docs (fs_index s)) \<subseteq> brought (fetched P idx) D (set_mset J) \<and>
     list_all (on_its_way (doomed (fetched P idx) D (set_mset J))) (fs_work s)"

text \<open>A step of a worker removes only names that are doomed.\<close>

lemma fstep_sourced:
  assumes "bleve_ok fmt (idx_bleve idx) docs" and "fstep P s t" and "sourced docs P idx D J s"
  shows "sourced docs P idx D J t"
    and "k \<notin> doomed (fetched P idx) D (set_mset J) \<Longrightarrow> contents docs (fs_index s) k \<noteq> None \<Longrightarrow>
      contents docs (fs_index t) k \<noteq> None"
proof -
  let ?f = "fetched P idx" and ?c = "contents docs (fs_index s)"
  let ?K = "doomed ?f D (set_mset J)" and ?R = "brought ?f D (set_mset J)"
  have o: "orderly docs P idx (set_mset J) UNIV s" and R: "ran ?c \<subseteq> ?R" and ws: "list_all (on_its_way ?K) (fs_work s)"
    and J: "accounted (nsys_of s) = J" and run: "running (nsys_of s)"
    using assms(3) by (auto simp: sourced_def)
  from o have same: "same_but_index idx (fs_index s)" and k: "keyed ?c" by (auto simp: orderly_def)
  have bl: "bleve_ok fmt (idx_bleve (fs_index s)) docs" using assms(1) same by (simp add: same_but_index_sel)
  have jJ: "j \<in># J" if "i < length (fs_work s)" "fs_work s ! i = Taken j" for i j
    using job_accounted [OF that(1)] that(2) J by auto
  have "ran (contents docs (fs_index t)) \<subseteq> ?R \<and> list_all (on_its_way ?K) (fs_work t) \<and>
    (\<forall>k. k \<notin> ?K \<longrightarrow> ?c k \<noteq> None \<longrightarrow> contents docs (fs_index t) k \<noteq> None)"
    using assms(2)
  proof (cases rule: fstep.cases)
    case (search i j sr)
    have "x \<in> ?K" if "x \<in> with_id ?c (job_Digest j)" for x
    proof -
      from that obtain im where im: "?c x = Some im" "im_ID im = job_Digest j" by (auto simp: with_id_iff)
      with R have "im \<in> ?R" by (auto simp: ran_def)
      moreover have "im_FullName im = x" using k im(1) by (simp add: keyed_def)
      ultimately show ?thesis using jJ [OF search(2,3)] search(4) im(2) doomedI [of im] by blast
    qed
    with delete_search [OF bl k search(5)] search(4) have "on_its_way ?K (Deleting j (found sr))" by auto
    with search(1) R ws show ?thesis by (simp add: list_all_update)
  next
    case (remove i j h hs fullName)
    from ws remove(2,3) have w: "on_its_way ?K (Deleting j (h # hs))" by (metis list_all_length)
    with remove(4) have n: "fullName = doc_ID h" by simp
    with w have "list_all (on_its_way ?K) ((fs_work s)[i := Deleting j hs])" using ws by (simp add: list_all_update)
    with w R show ?thesis unfolding remove(1) n by (auto simp: contents_delete [OF bl] ran_def)
  next
    case (push i j im)
    have "?f j = Some im" using push(5) same by (simp add: fetched_def GetImage_def same_but_index_sel)
    with jJ [OF push(2,3)] push(4) have "im \<in> ?R" by (auto simp: brought_def)
    with R ws show ?thesis unfolding push(1) by (auto simp: contents_index [OF bl] ran_def list_all_update)
  qed (use R ws in \<open>simp_all add: list_all_update\<close>)
  then show "sourced docs P idx D J t"
    and "k \<notin> ?K \<Longrightarrow> ?c k \<noteq> None \<Longrightarrow> contents docs (fs_index t) k \<noteq> None"
    using fstep_orderly [OF assms(1,2) o] fstep_running [OF assms(2) run] fstep_accounted [OF assms(2)] J
    by (simp_all add: sourced_def)
qed

text \<open>More jobs only widen what may come and go.\<close>

lemma sourced_more:
  assumes "sourced docs P idx D J s" and "mset todo = mset (fs_todo s) + mset js"
  shows "sourced docs P idx D (J + mset js) (s\<lparr>fs_todo := todo\<rparr>)"
proof -
  let ?f = "fetched P idx"
  have sub: "set_mset J \<subseteq> set_mset (J + mset js)" by simp
  have acc: "accounted (nsys_of (s\<lparr>fs_todo := todo\<rparr>)) = accounted (nsys_of s) + mset js"
    using assms(2) by (simp add: nsys_of_def accounted_def in_work_def ac_simps)
  have "orderly docs P idx (set_mset (J + mset js)) UNIV s"
    using orderly_mono [OF _ sub subset_UNIV] assms(1) unfolding sourced_def by blast
  then have o: "orderly docs P idx (set_mset (J + mset js)) UNIV (s\<lparr>fs_todo := todo\<rparr>)"
    using assms(1) acc unfolding orderly_def sourced_def by simp
  have "list_all (on_its_way (doomed ?f D (set_mset (J + mset js)))) (fs_work s)"
    using assms(1) on_its_way_mono [OF _ doomed_mono [OF sub]] by (auto simp: sourced_def list_all_iff)
  moreover have "ran (contents docs (fs_index s)) \<subseteq> brought ?f D (set_mset (J + mset js))"
    using assms(1) brought_mono [OF sub, of ?f D] by (auto simp: sourced_def)
  ultimately show ?thesis
    using o acc assms(1) by (simp add: sourced_def) (simp add: running_def nsys_of_def)
qed

section \<open>Committing the batch\<close>

lemma fold_filed:
  fixes m :: "string \<rightharpoonup> IndexImage"
  defines "r \<equiv> \<lambda>m ds. fold (\<lambda>(k, im) m. m(k \<mapsto> im)) (map (\<lambda>doc. (im_FullName doc, doc)) ds) m"
  shows "keyed m \<Longrightarrow> keyed (r m ds)" and "ran (r m ds) \<subseteq> ran m \<union> set ds"
    and "m k \<noteq> None \<or> k \<in> im_FullName ` set ds \<Longrightarrow> r m ds k \<noteq> None"
proof -
  show "keyed m \<Longrightarrow> keyed (r m ds)" unfolding r_def by (induction ds arbitrary: m) (simp_all add: keyed_upd)
  have "ran (r m ds) \<subseteq> ran m \<union> set ds" for m
    unfolding r_def
  proof (induction ds arbitrary: m)
    case (Cons d ds)
    have "ran (m(im_FullName d \<mapsto> d)) \<subseteq> ran m \<union> {d}" by (auto simp: ran_def)
    with Cons [of "m(im_FullName d \<mapsto> d)"]
    have "ran (fold (\<lambda>(k, im) m. m(k \<mapsto> im)) (map (\<lambda>doc. (im_FullName doc, doc)) ds) (m(im_FullName d \<mapsto> d)))
        \<subseteq> ran m \<union> insert d (set ds)" by blast
    then show ?case by (simp add: fun_upd_def)
  qed simp
  then show "ran (r m ds) \<subseteq> ran m \<union> set ds" .
  show "m k \<noteq> None \<or> k \<in> im_FullName ` set ds \<Longrightarrow> r m ds k \<noteq> None"
    unfolding r_def
  proof (induction ds arbitrary: m)
    case (Cons d ds)
    then show ?case using Cons.IH [of "m(im_FullName d \<mapsto> d)"] by (cases "k = im_FullName d") simp_all
  qed simp
qed

lemma contents_commit:
  "batch_ok docs submit \<Longrightarrow> contents docs (commit_batch submit batch idx) =
     (if is_ok (snd (submit batch (idx_Index idx))) then fold (\<lambda>(k, im) m. m(k \<mapsto> im)) batch (contents docs idx)
      else contents docs idx)"
  by (simp add: contents_def commit_batch_def batch_ok_def)

lemma sourced_index:
  assumes "sourced docs P idx D J s" and "same_but_index (fs_index s) x" and "keyed (contents docs x)"
    and "ran (contents docs x) \<subseteq> brought (fetched P idx) D (set_mset J)"
  shows "sourced docs P idx D J (s\<lparr>fs_index := x\<rparr>)"
proof -
  have n: "nsys_of (s\<lparr>fs_index := x\<rparr>) = (nsys_of s)\<lparr>ns_index := x\<rparr>" by (simp add: nsys_of_def)
  have acc: "accounted ((nsys_of s)\<lparr>ns_index := x\<rparr>) = accounted (nsys_of s)"
    by (simp add: accounted_def in_work_def)
  have "same_but_index idx x" using assms(1,2) same_but_index_trans by (auto simp: sourced_def orderly_def)
  moreover have "k \<in> may_change UNIV A f m" for k A f m by (simp add: may_change_def)
  ultimately show ?thesis
    using assms(1,3,4) unfolding sourced_def orderly_def n by (simp add: acc) (simp add: running_def)
qed

text \<open>A step of the build keeps what the workers rely on and adds documents of the registry only; when
  it has committed the batch without an error, they are all there.\<close>

lemma build_shared [simp]:
  "unparsed (b\<lparr>b_index := x\<rparr>) = unparsed b" "parsed (b\<lparr>b_index := x\<rparr>) = parsed b"
  "in_shape (b\<lparr>b_index := x\<rparr>) = in_shape b" "build_left (b\<lparr>b_index := x\<rparr>) = build_left b"
  by (simp_all add: unparsed_def parsed_def in_shape_def build_left_def)

lemma flowing_shared [simp]: "flowing parse repos (b\<lparr>b_index := x\<rparr>) = flowing parse repos b"
  by (simp add: flowing_def docs_due_def)

lemma built_batch:
  assumes "flowing Parse repos c" and "b_done c"
  shows "set (b_batch c) = built repos"
  using flowing_done [OF assms] by (metis built_def list.set_map set_image_mset set_mset_mset)

lemma builder_sourced:
  assumes submit: "batch_ok docs submit" and parse: "all_parse Parse repos"
    and step: "bstep Parse (commit_batch submit) (b\<lparr>b_index := fs_index s\<rparr>) c"
    and b: "flowing Parse repos b" and s: "sourced docs P idx (built repos) J s"
  shows "flowing Parse repos c" and "sourced docs P idx (built repos) J (s\<lparr>fs_index := b_index c\<rparr>)"
    and "contents docs (fs_index s) k \<noteq> None \<Longrightarrow> contents docs (b_index c) k \<noteq> None"
    and "b_done c \<Longrightarrow> \<not> b_done b \<Longrightarrow> \<forall>batch ix. is_ok (snd (submit batch ix)) \<Longrightarrow> k \<in> im_FullName ` built repos \<Longrightarrow>
      contents docs (b_index c) k \<noteq> None"
proof -
  let ?ds = "map (\<lambda>doc. (im_FullName doc, doc)) (b_batch b)"
  let ?m = "contents docs (fs_index s)" and ?m' = "contents docs (b_index c)"
  let ?x = "commit_batch submit ?ds (fs_index s)"
  have b': "flowing Parse repos (b\<lparr>b_index := fs_index s\<rparr>)" using b by simp
  show c: "flowing Parse repos c" by (rule bstep_flowing [OF step parse b'])
  have k: "keyed ?m" and R: "ran ?m \<subseteq> brought (fetched P idx) (built repos) (set_mset J)"
    using s by (auto simp: sourced_def orderly_def)
  consider (same) "b_index c = fs_index s" "b_done c = b_done b"
    | (commit) "\<not> b_done b" "b_done c" "b_index c = ?x" "b_batch c = b_batch b"
    using bstep_index [OF step] by auto
  then have "keyed ?m' \<and> ran ?m' \<subseteq> brought (fetched P idx) (built repos) (set_mset J) \<and> same_but_index (fs_index s) (b_index c) \<and>
    (\<forall>k. ?m k \<noteq> None \<longrightarrow> ?m' k \<noteq> None) \<and>
    (b_done c \<longrightarrow> \<not> b_done b \<longrightarrow> (\<forall>batch ix. is_ok (snd (submit batch ix))) \<longrightarrow> (\<forall>k \<in> im_FullName ` built repos. ?m' k \<noteq> None))"
  proof cases
    case same
    then show ?thesis using k R by simp
  next
    case commit
    then have set: "set (b_batch b) = built repos" using built_batch [OF c] by simp
    have m': "?m' = (if is_ok (snd (submit ?ds (idx_Index (fs_index s)))) then fold (\<lambda>(k, im) m. m(k \<mapsto> im)) ?ds ?m else ?m)"
      unfolding commit(3) by (rule contents_commit [OF submit])
    have "same_but_index (fs_index s) (b_index c)" unfolding commit(3) by (simp add: commit_batch_def)
    moreover have "ran (fold (\<lambda>(k, im) m. m(k \<mapsto> im)) ?ds ?m) \<subseteq> brought (fetched P idx) (built repos) (set_mset J)"
      using fold_filed(2) [of "b_batch b" ?m] R unfolding set by (auto simp: brought_def)
    ultimately show ?thesis
      unfolding m' using k R fold_filed(1) [OF k, of "b_batch b"] fold_filed(3) [of ?m _ "b_batch b"] unfolding set by auto
  qed
  then show "sourced docs P idx (built repos) J (s\<lparr>fs_index := b_index c\<rparr>)"
    and "?m k \<noteq> None \<Longrightarrow> ?m' k \<noteq> None"
    and "b_done c \<Longrightarrow> \<not> b_done b \<Longrightarrow> \<forall>batch ix. is_ok (snd (submit batch ix)) \<Longrightarrow> k \<in> im_FullName ` built repos \<Longrightarrow> ?m' k \<noteq> None"
    using sourced_index [OF s] by blast+
qed

section \<open>Every reachable state\<close>

definition live_ok ::
    "('ix \<Rightarrow> string \<rightharpoonup> IndexImage) \<Rightarrow> (string \<Rightarrow> 'n res) \<Rightarrow> ((string \<times> IndexImage) list \<Rightarrow> 'ix \<Rightarrow> 'ix \<times> unit res) \<Rightarrow>
     ('ix, 't, 'f, 'n) Index \<Rightarrow> (string \<times> RegistryImage list) list \<Rightarrow> NotificationJob multiset \<Rightarrow>
     ('ix, 't, 'f, 'n) live_state \<Rightarrow> bool" where
  "live_ok docs P submit idx repos J x \<longleftrightarrow>
     flowing Parse repos (fst x) \<and> sourced docs P idx (built repos) J (snd x) \<and>
     (b_done (fst x) \<longrightarrow> (\<forall>batch ix. is_ok (snd (submit batch ix))) \<longrightarrow>
        (\<forall>k \<in> im_FullName ` built repos - doomed (fetched P idx) (built repos) (set_mset J).
           contents docs (fs_index (snd x)) k \<noteq> None))"

lemma live_ok_start:
  assumes "contents docs idx = Map.empty"
  shows "live_ok docs P submit idx repos {#} (start_build repos idx, new_fsys idx)"
proof -
  have c: "contents docs (fs_index (new_fsys idx)) = Map.empty" using assms by (simp add: new_fsys_def)
  have "orderly docs P idx {} UNIV (new_fsys idx)"
    by (simp add: orderly_def accounted_new c) (simp add: new_fsys_def keyed_def may_change_def numeral_3_eq_3)
  then have "sourced docs P idx (built repos) {#} (new_fsys idx)"
    by (simp add: sourced_def accounted_new running_new c) (simp add: new_fsys_def numeral_3_eq_3)
  then show ?thesis by (simp add: live_ok_def flowing_start) (simp add: start_build_def)
qed

lemma lstep_ok:
  assumes "bleve_ok fmt (idx_bleve idx) docs" and "batch_ok docs submit" and "all_parse Parse repos"
    and "lstep P submit x y" and "live_ok docs P submit idx repos J x"
  shows "live_ok docs P submit idx repos J y"
  using assms(4)
proof (cases rule: lstep.cases)
  case (worker b s t)
  then show ?thesis
    using assms(5) fstep_sourced [OF assms(1) worker(4)] by (auto simp: live_ok_def)
next
  case (builder s b c)
  from assms(5) builder(1) have b: "flowing Parse repos b" and s: "sourced docs P idx (built repos) J s"
    by (simp_all add: live_ok_def)
  note step = builder_sourced [OF assms(2,3) builder(3) b s]
  have "b_done c \<Longrightarrow> b_done b \<or> \<not> b_done b" by simp
  then show ?thesis
    using assms(5) step builder(1,2) by (auto simp: live_ok_def)
qed

text \<open>Build and workers come to rest together.\<close>

definition live_left :: "('ix, 't, 'f, 'n) live_state \<Rightarrow> nat" where
  "live_left x = build_left (fst x) + fine_left (snd x)"

lemma lstep_left:
  assumes "bleve_ok fmt (idx_bleve idx) docs" and "live_ok docs P submit idx repos J x" and "lstep P submit x y"
  shows "live_left y < live_left x"
  using assms(3)
proof (cases rule: lstep.cases)
  case (worker b s t)
  then show ?thesis
    using assms(2) fstep_left [OF assms(1) _ worker(4)] by (auto simp: live_ok_def sourced_def live_left_def)
next
  case (builder s b c)
  have "flowing Parse repos (b\<lparr>b_index := fs_index s\<rparr>)" using assms(2) builder(1) by (simp add: live_ok_def)
  from flowing_left [OF builder(3) this] have "build_left c < build_left b" by simp
  then show ?thesis by (simp add: builder(1,2) live_left_def fine_left_def)
qed

interpretation lrun: runs "lstep P submit" "lreach P submit" live_left
  "\<lambda>x. bleve_ok fmt (idx_bleve idx) docs \<and> batch_ok docs submit \<and> all_parse Parse repos \<and> live_ok docs P submit idx repos J x"
proof unfold_locales
  fix Q s t assume "lreach P submit s t" "Q s" "\<And>t u. Q t \<Longrightarrow> lstep P submit t u \<Longrightarrow> Q u"
  then show "Q t" by (induction rule: lreach.induct) auto
qed (auto intro: lreach.intros lstep_ok lstep_left)

lemma live_lreach: "lreach P submit x y \<Longrightarrow> live f P submit repos idx rs x \<Longrightarrow> live f P submit repos idx rs y"
  by (induction rule: lreach.induct) (auto intro: live.work)

lemma live_invariant:
  assumes "compiled (sc_Authorizations cfg)" and "bleve_ok fmt (idx_bleve idx) docs" and "batch_ok docs submit"
    and "contents docs idx = Map.empty" and "all_parse Parse repos"
    and "live (server_handler en cfg c start proxy) P submit repos idx rs x"
  shows "live_ok docs P submit idx repos (mset (concat (map (authorised_jobs cfg (se_decode en)) rs))) x"
  using assms(6)
proof (induction rule: live.induct)
  case start
  show ?case using live_ok_start [OF assms(4)] by simp
next
  case (request rs b s r s' w js todo)
  let ?J = "mset (concat (map (authorised_jobs cfg (se_decode en)) rs))" and ?js = "authorised_jobs cfg (se_decode en) r"
  have "s' = (nsys_of s)\<lparr>ns_todo := fs_todo s @ ?js\<rparr>"
    using server_handler_jobs [OF assms(1) request.hyps(3)] by (simp add: Submits_eq nsys_of_def)
  with request.hyps(4) have "js = ?js" by simp
  with request.hyps(5) have todo: "mset todo = mset (fs_todo s) + mset ?js" using mset_shuffles by auto
  have sub: "set_mset ?J \<subseteq> set_mset (?J + mset ?js)" by simp
  have "sourced docs P idx (built repos) ?J s" using request.IH by (simp add: live_ok_def)
  from sourced_more [OF this todo] show ?case
    using request.IH doomed_mono [OF sub, of "fetched P idx" "built repos"] by (auto simp: live_ok_def)
next
  case (caught rs b s r)
  with server_handler_caught [OF assms(1) caught.hyps(3)] show ?case by simp
next
  case (work rs x y)
  then show ?case using lstep_ok [OF assms(2,3,5)] by blast
qed

lemma live_rest:
  assumes "bleve_ok fmt (idx_bleve idx) docs" and "live_ok docs P submit idx repos J (b, s)"
    and "\<forall>j \<in># J. fetch_safe P idx j" and "\<nexists>y. lstep P submit (b, s) y"
  shows "b_done b \<and> mset (fs_done s) = J"
proof
  have b: "flowing Parse repos b" and s: "sourced docs P idx (built repos) J s"
    using assms(2) by (simp_all add: live_ok_def)
  show "b_done b"
  proof (rule ccontr)
    assume "\<not> b_done b"
    then have "\<exists>c. bstep Parse (commit_batch submit) (b\<lparr>b_index := fs_index s\<rparr>) c"
      using flowing_progress [of Parse repos "b\<lparr>b_index := fs_index s\<rparr>"] b by simp
    then show False using assms(4) by (blast intro: lstep.builder)
  qed
  have "\<nexists>t. fstep P s t" using assms(4) b by (blast intro: lstep.worker [of b] dest: flowing_def [THEN iffD1])
  with rest_done [OF assms(1) _ assms(3)] s show "mset (fs_done s) = J" by (auto simp: sourced_def)
qed

text \<open>
  C1: where the documents of a running server come from. The index starts empty and is filled while
  requests are already answered, with the handlers, the goroutines of the build and the three workers
  interleaved in any way; in every state, also in the middle of a job, a document is filed under its
  full name, and it is one of an image of the registry as the build met it or one that a push brought
  which a request told of that the rules allow.
\<close>

theorem live_provenance:
  assumes "readServerConfig compile configured port = Ok cfg"
    and "bleve_ok fmt (idx_bleve idx) docs" and "batch_ok docs submit"
    and "contents docs idx = Map.empty" and "all_parse Parse repos"
    and "live (server_handler en cfg c start proxy) P submit repos idx rs (b, s)"
    and "contents docs (fs_index s) k = Some im"
  shows "im_FullName im = k \<and>
    (im \<in> built repos \<or>
     (\<exists>r \<in> set rs. \<exists>j \<in> set (authorised_jobs cfg (se_decode en) r). job_Action j = PushAction \<and> fetched P idx j = Some im))"
proof -
  note inv = live_invariant [OF readServerConfig_Ok(2) [OF assms(1)] assms(2-6)]
  then have "keyed (contents docs (fs_index s))" "ran (contents docs (fs_index s)) \<subseteq> brought (fetched P idx) (built repos)
      (set (concat (map (authorised_jobs cfg (se_decode en)) rs)))"
    by (simp_all add: live_ok_def sourced_def orderly_def)
  with assms(7) show ?thesis by (fastforce simp: keyed_def brought_def ran_def)
qed

text \<open>An image is left alone when nothing brings another document under its name and no deletion
  names its digest.\<close>

definition left_alone :: "(NotificationJob \<Rightarrow> IndexImage option) \<Rightarrow> IndexImage set \<Rightarrow> NotificationJob set \<Rightarrow> IndexImage \<Rightarrow> bool" where
  "left_alone f D A im \<longleftrightarrow>
     (\<forall>im' \<in> brought f D A. im_FullName im' = im_FullName im \<longrightarrow> im' = im) \<and>
     (\<forall>j \<in> A. job_Action j = DeleteAction \<longrightarrow> job_Digest j \<noteq> im_ID im)"

lemma left_alone_safe:
  assumes "left_alone f D A im"
  shows "im_FullName im \<notin> doomed f D A"
proof
  assume "im_FullName im \<in> doomed f D A"
  then obtain im' j where "im' \<in> brought f D A" "im_FullName im' = im_FullName im"
    and "j \<in> A" "job_Action j = DeleteAction" "job_Digest j = im_ID im'"
    by (auto simp: doomed_def)
  with assms show False unfolding left_alone_def by blast
qed

lemma live_present:
  assumes "live_ok docs P submit idx repos J (b, s)" and "b_done b" and "\<forall>batch ix. is_ok (snd (submit batch ix))"
    and "im \<in> built repos" and alone: "left_alone (fetched P idx) (built repos) (set_mset J) im"
  shows "contents docs (fs_index s) (im_FullName im) = Some im"
proof -
  from assms left_alone_safe [OF alone] obtain im' where im': "contents docs (fs_index s) (im_FullName im) = Some im'"
    unfolding live_ok_def fst_conv snd_conv by blast
  from assms(1) have k: "keyed (contents docs (fs_index s))"
    and R: "ran (contents docs (fs_index s)) \<subseteq> brought (fetched P idx) (built repos) (set_mset J)"
    by (simp_all add: live_ok_def sourced_def orderly_def)
  from R im' have "im' \<in> brought (fetched P idx) (built repos) (set_mset J)" by (auto simp: ran_def)
  moreover have "im_FullName im' = im_FullName im" using k im' by (simp add: keyed_def)
  ultimately have "im' = im" using alone unfolding left_alone_def by blast
  with im' show ?thesis by simp
qed


section \<open>A server on a registry with one image\<close>

definition mem_submit :: "(string \<times> IndexImage) list \<Rightarrow> mem \<Rightarrow> mem \<times> unit res" where
  "mem_submit batch ix = (fold (\<lambda>(k, im) ix. AList.update k im ix) batch ix, Ok ())"

lemma mem_submit_ok: "batch_ok map_of mem_submit" "is_ok (snd (mem_submit batch ix))"
proof -
  have *: "map_of (fold (\<lambda>(k, im) ix. AList.update k im ix) batch ix) = fold (\<lambda>(k, im) m. m(k \<mapsto> im)) batch (map_of ix)" for batch ix
    by (induction batch arbitrary: ix) (auto simp: update_conv')
  show "batch_ok map_of mem_submit"
    unfolding batch_ok_def mem_submit_def fst_conv snd_conv is_ok.simps if_True using * by blast
  show "is_ok (snd (mem_submit batch ix))" by (simp add: mem_submit_def)
qed

definition empty_index :: "(mem, unit, unit, string) Index" where
  "empty_index = sample_index\<lparr>idx_Index := []\<rparr>"

definition small_registry :: "(string \<times> RegistryImage list) list" where
  "small_registry = [(''mysql'', [sample_registry_image])]"

lemma empty_index_sel:
  "idx_bleve empty_index = mem_bleve (\<lambda>_. ''t'')" "contents map_of empty_index = Map.empty"
  by (simp_all add: empty_index_def sample_index_def contents_def)

lemma small_registry_built:
  obtains im where "built small_registry = {im}" "Parse ''mysql'' sample_registry_image = Ok im"
    "im_FullName im = ''mysql:5.7''" "im_ID im = ''d1''" "all_parse Parse small_registry"
  by (simp add: built_def small_registry_def repo_images_def doc_of_image_def all_parse_def Parse_def sample_registry_image_def Let_def)

definition open_config :: ServerConfig where
  "open_config = \<lparr>sc_Port = '':6000'', sc_Authorizations = []\<rparr>"

lemma open_config_read: "readServerConfig (\<lambda>p. Ok (\<lambda>_. True)) (Ok []) '':6000'' = Ok open_config"
  by (simp add: readServerConfig_def open_config_def)

abbreviation small_handler :: "(mem, unit, unit, string) Index nsys handler" where
  "small_handler \<equiv> server_handler (sample_server_env [sample_deletion]) open_config [] 0
     (NewRegistryProxy \<lparr>url_Scheme = [], url_Host = [], url_Path = []\<rparr> [] [])"


lemma small_server_filled:
  "\<exists>b s im. live small_handler Ok mem_submit small_registry empty_index [] (b, s) \<and>
     contents map_of (fs_index s) ''mysql:5.7'' = Some im"
proof -
  let ?x0 = "(start_build small_registry empty_index, new_fsys empty_index)"
  let ?ok = "\<lambda>x. bleve_ok (\<lambda>_. ''t'') (idx_bleve empty_index) map_of \<and> batch_ok map_of mem_submit \<and>
    all_parse Parse small_registry \<and> live_ok map_of Ok mem_submit empty_index small_registry {#} x"
  obtain im where im: "built small_registry = {im}" "im_FullName im = ''mysql:5.7''" "all_parse Parse small_registry"
    by (rule small_registry_built)
  have ok: "?ok ?x0"
    using live_ok_start [OF empty_index_sel(2)] im(3) by (simp add: empty_index_sel mem_bleve_ok mem_submit_ok)
  obtain b s where y: "lreach Ok mem_submit ?x0 (b, s)" "\<nexists>z. lstep Ok mem_submit (b, s) z"
    using lrun.ends [OF ok] by (metis surj_pair)
  have inv: "?ok (b, s)" by (rule lrun.sound_reach [OF y(1) ok])
  then have "b_done b" using live_rest [of "\<lambda>_. ''t''" empty_index map_of Ok mem_submit small_registry "{#}" b s] y(2) by auto
  moreover have "left_alone (fetched Ok empty_index) (built small_registry) (set_mset {#}) im"
    by (simp add: left_alone_def brought_def im(1))
  ultimately have "contents map_of (fs_index s) (im_FullName im) = Some im"
    using live_present [of map_of Ok mem_submit empty_index small_registry "{#}" b s im] inv mem_submit_ok(2) im(1) by simp
  moreover have "live small_handler Ok mem_submit small_registry empty_index [] (b, s)"
    by (rule live_lreach [OF y(1) live.start])
  ultimately show ?thesis unfolding im(2) by blast
qed

theorem live_provenance_witness:
  "\<exists>b s im. live small_handler Ok mem_submit small_registry empty_index [] (b, s) \<and>
     contents map_of (fs_index s) ''mysql:5.7'' = Some im \<and> im \<in> built small_registry"
proof -
  obtain b s im where l: "live small_handler Ok mem_submit small_registry empty_index [] (b, s)"
    "contents map_of (fs_index s) ''mysql:5.7'' = Some im"
    using small_server_filled by blast
  have p: "all_parse Parse small_registry" by (rule small_registry_built)
  have bl: "bleve_ok (\<lambda>_. ''t'') (idx_bleve empty_index) map_of" by (simp add: empty_index_sel mem_bleve_ok)
  from live_provenance [OF open_config_read bl mem_submit_ok(1) empty_index_sel(2) p l] l show ?thesis by auto
qed

end
