(* ===== verification/Races.thy ===== *)
theory Races
  imports Live
begin

text \<open>
  Schedules that lose something (\<open>lib/index/index.go\<close>): a push overtaken by a deletion that has already
  searched, and a deletion overtaken by the batch of the build. The states of the schedules are written
  out and each step is taken by name.
\<close>

section \<open>A push lost to a deletion\<close>

text \<open>A state of the three workers, by its parts.\<close>

definition snapshot ::
    "NotificationJob list \<Rightarrow> NotificationJob list \<Rightarrow> notifier \<Rightarrow> notifier \<Rightarrow> NotificationJob list \<Rightarrow> ('ix, 't, 'f, 'n) Index \<Rightarrow>
     ('ix, 't, 'f, 'n) fsys" where
  "snapshot todo buf v w done idx = \<lparr>fs_todo = todo, fs_chan = (make_chan 3)\<lparr>ch_buf := buf\<rparr>, fs_work = [v, w, Idle],
     fs_done = done, fs_index = idx\<rparr>"

lemma snapshot_start: "with_jobs js idx = snapshot js [] Idle Idle [] idx"
  by (simp add: with_jobs_def new_fsys_def snapshot_def make_chan_def numeral_3_eq_3)

lemma snapshot_send: "length buf < 3 \<Longrightarrow> fstep P (snapshot (j # js) buf v w dn idx) (snapshot js (buf @ [j]) v w dn idx)"
  using fstep.send [of "snapshot (j # js) buf v w dn idx" j js "(make_chan 3)\<lparr>ch_buf := buf @ [j]\<rparr>" P]
  by (simp add: snapshot_def chan_send_def make_chan_def)

lemma snapshot_take: "fstep P (snapshot js (j # buf) Idle w dn idx) (snapshot js buf (Taken j) w dn idx)"
  "fstep P (snapshot js (j # buf) v Idle dn idx) (snapshot js buf v (Taken j) dn idx)"
  using fstep.take [of 0 "snapshot js (j # buf) Idle w dn idx" j "(make_chan 3)\<lparr>ch_buf := buf\<rparr>" P]
    fstep.take [of 1 "snapshot js (j # buf) v Idle dn idx" j "(make_chan 3)\<lparr>ch_buf := buf\<rparr>" P]
  by (simp_all add: snapshot_def chan_recv_def make_chan_def)

lemma snapshot_search:
  "job_Action j = DeleteAction \<Longrightarrow> idx_Search idx (delete_request (job_Digest j)) = Ok sr \<Longrightarrow>
   fstep P (snapshot js buf (Taken j) w dn idx) (snapshot js buf (Deleting j (found sr)) w dn idx)"
  using fstep.search [of 0 "snapshot js buf (Taken j) w dn idx" j sr P] by (simp add: snapshot_def)

lemma snapshot_push:
  "job_Action j = PushAction \<Longrightarrow> GetImage P idx (job_Repository j) (job_Tag j) (job_Digest j) = Ok im \<Longrightarrow>
   fstep P (snapshot js buf v (Taken j) dn idx) (snapshot js buf v Idle (dn @ [j]) (IndexImage_op idx im))"
  using fstep.push [of 1 "snapshot js buf v (Taken j) dn idx" j P im] by (simp add: snapshot_def)

lemma snapshot_remove:
  "as_string (map_of (doc_Fields h) ''FullName'') = Ok n \<Longrightarrow>
   fstep P (snapshot js buf (Deleting j (h # hs)) w dn idx)
     (snapshot js buf (Deleting j hs) w dn (idx\<lparr>idx_Index := bl_Delete (idx_bleve idx) (idx_Index idx) n\<rparr>))"
  using fstep.remove [of 0 "snapshot js buf (Deleting j (h # hs)) w dn idx" j h hs n P] by (simp add: snapshot_def)

lemma snapshot_deleted: "fstep P (snapshot js buf (Deleting j []) w dn idx) (snapshot js buf Idle w (dn @ [j]) idx)"
  using fstep.deleted [of 0 "snapshot js buf (Deleting j []) w dn idx" j P] by (simp add: snapshot_def)

lemma snapshot_rest: "\<not> fstep P (snapshot [] [] Idle Idle dn idx) t"
proof
  assume "fstep P (snapshot [] [] Idle Idle dn idx) t"
  then show False
    by (cases rule: fstep.cases) (auto simp: snapshot_def chan_recv_def make_chan_def nth_Cons split: nat.splits)
qed

lemma snapshot_removes:
  assumes "freach P s (snapshot js buf (Deleting j hs) w dn idx)" and "bleve_ok fmt (idx_bleve idx) docs"
    and "\<forall>h \<in> set hs. as_string (map_of (doc_Fields h) ''FullName'') = Ok n"
  shows "\<exists>y. freach P s (snapshot js buf (Deleting j []) w dn y) \<and>
    (hs \<noteq> [] \<or> contents docs idx n = None \<longrightarrow> contents docs y n = None)"
  using assms
proof (induction hs arbitrary: idx)
  case Nil
  then show ?case by auto
next
  case (Cons h hs)
  let ?x = "idx\<lparr>idx_Index := bl_Delete (idx_bleve idx) (idx_Index idx) n\<rparr>"
  have "freach P s (snapshot js buf (Deleting j hs) w dn ?x)"
    using Cons.prems(1) by (rule freach.move) (rule snapshot_remove, use Cons.prems(3) in simp)
  from Cons.IH [OF this] Cons.prems(2,3) show ?case by (auto simp: contents_delete)
qed

text \<open>One worker searches for the deletion \<open>d\<close>, another files the push \<open>p\<close>; then the first has its hits left.\<close>

lemma overtaken:
  assumes d: "job_Action d = DeleteAction" "idx_Search idx (delete_request (job_Digest d)) = Ok sr"
    and p: "job_Action p = PushAction" "GetImage P idx (job_Repository p) (job_Tag p) (job_Digest p) = Ok im"
  shows "freach P (with_jobs [d, p] idx) (snapshot [] [] (Deleting d (found sr)) Idle [p] (IndexImage_op idx im))"
proof -
  have "freach P (with_jobs [d, p] idx) (snapshot [d, p] [] Idle Idle [] idx)" unfolding snapshot_start by (rule freach.stay)
  then have "freach P (with_jobs [d, p] idx) (snapshot [p] [d] Idle Idle [] idx)"
    using freach.move snapshot_send [of "[]"] by fastforce
  then have "freach P (with_jobs [d, p] idx) (snapshot [] [d, p] Idle Idle [] idx)"
    using freach.move snapshot_send [of "[d]"] by fastforce
  then have "freach P (with_jobs [d, p] idx) (snapshot [] [p] (Taken d) Idle [] idx)" by (rule freach.move) (rule snapshot_take)
  then have "freach P (with_jobs [d, p] idx) (snapshot [] [] (Taken d) (Taken p) [] idx)" by (rule freach.move) (rule snapshot_take)
  then have "freach P (with_jobs [d, p] idx) (snapshot [] [] (Deleting d (found sr)) (Taken p) [] idx)"
    by (rule freach.move) (rule snapshot_search [OF d])
  then have "freach P (with_jobs [d, p] idx) (snapshot [] [] (Deleting d (found sr)) Idle ([] @ [p]) (IndexImage_op idx im))"
    by (rule freach.move) (rule snapshot_push [OF p])
  then show ?thesis by simp
qed

text \<open>The registry of the sample has a new image under the old name.\<close>

definition race_index :: "(mem, unit, unit, string) Index" where
  "race_index = sample_index\<lparr>idx_RegClient := \<lparr>rc_NewRepository = (\<lambda>_. Ok \<lparr>repo_Named = ''mysql'', repo_AllTags = Ok [''5.7''],
     repo_Image = (\<lambda>_. Err []), repo_ImageFromManifest = (\<lambda>_ _. Ok (sample_registry_image\<lparr>ri_Digest := ''d2''\<rparr>))\<rparr>)\<rparr>\<rparr>"

definition sample_push :: NotificationJob where
  "sample_push = \<lparr>job_Action = PushAction, job_Repository = ''mysql'', job_Tag = ''5.7'', job_Digest = ''d2''\<rparr>"

lemma race_index_sel:
  "idx_bleve race_index = mem_bleve (\<lambda>_. ''t'')" "contents map_of race_index = [''mysql:5.7'' \<mapsto> sample_image]"
  by (simp_all add: race_index_def sample_index_def contents_def fun_eq_iff)

lemma race_push:
  obtains im where "GetImage Ok race_index (job_Repository sample_push) (job_Tag sample_push) (job_Digest sample_push) = Ok im"
    "im_FullName im = ''mysql:5.7''" "im_ID im = ''d2''"
  by (simp add: GetImage_def race_index_def sample_push_def Parse_def sample_registry_image_def Let_def)

text \<open>
  C34: a push can be lost. The image \<open>mysql:5.7\<close> is deleted and pushed again at the same time: one worker
  has found the old document when another files the new one under the same name, and then deletes it by
  that name. Both jobs are done, no worker is left with anything to do, and the new image is not in the
  index, although handling the two jobs one after the other keeps it in either order.
\<close>

theorem lost_push:
  "\<exists>s im. freach Ok (with_jobs [sample_delete, sample_push] race_index) s \<and> (\<nexists>t. fstep Ok s t) \<and>
     mset (fs_done s) = {#sample_delete, sample_push#} \<and>
     fetched Ok race_index sample_push = Some im \<and> contents map_of (fs_index s) (im_FullName im) = None \<and>
     fold (abs_job (fetched Ok race_index)) [sample_delete, sample_push] (contents map_of race_index) (im_FullName im) = Some im \<and>
     fold (abs_job (fetched Ok race_index)) [sample_push, sample_delete] (contents map_of race_index) (im_FullName im) = Some im"
proof -
  let ?d = sample_delete and ?p = sample_push and ?i = race_index
  have bl: "bleve_ok (\<lambda>_. ''t'') (idx_bleve ?i) map_of" by (simp add: race_index_sel mem_bleve_ok)
  have k: "keyed (contents map_of ?i)" using sample_keyed by (simp add: race_index_sel sample_index_sel)
  obtain im where im: "GetImage Ok ?i (job_Repository ?p) (job_Tag ?p) (job_Digest ?p) = Ok im"
    "im_FullName im = ''mysql:5.7''" "im_ID im = ''d2''" by (rule race_push)
  obtain sr where sr: "idx_Search ?i (delete_request (job_Digest ?d)) = Ok sr" using search_answers [OF bl] by blast
  have w: "with_id (contents map_of ?i) (job_Digest ?d) = {''mysql:5.7''}"
    by (simp add: race_index_sel with_id_single sample_delete_def sample_image_def)
  have "doc_ID ` set (found sr) = {''mysql:5.7''}" using delete_search(3) [OF bl k sr] w by simp
  then obtain h hs where f: "found sr = h # hs" and hs: "\<forall>x \<in> set (h # hs). doc_ID x = ''mysql:5.7''"
    by (cases "found sr") auto
  have field: "as_string (map_of (doc_Fields x) ''FullName'') = Ok ''mysql:5.7''" if "x \<in> set (h # hs)" for x
    using delete_search(2) [OF bl k sr] hs that by (auto simp: f)
  define ix where "ix = IndexImage_op ?i im"
  have blx: "bleve_ok (\<lambda>_. ''t'') (idx_bleve ix) map_of" using bl by (simp add: ix_def IndexImage_op_def)
  have r1: "freach Ok (with_jobs [?d, ?p] ?i) (snapshot [] [] (Deleting ?d (found sr)) Idle [?p] ix)"
    unfolding ix_def by (rule overtaken [OF _ sr _ im(1)]) (simp_all add: sample_delete_def sample_push_def)
  from snapshot_removes [OF r1 blx, of "''mysql:5.7''"] field f
  obtain y where y: "freach Ok (with_jobs [?d, ?p] ?i) (snapshot [] [] (Deleting ?d []) Idle [?p] y)"
    "contents map_of y ''mysql:5.7'' = None" by auto
  have "freach Ok (with_jobs [?d, ?p] ?i) (snapshot [] [] Idle Idle ([?p] @ [?d]) y)"
    using y(1) by (rule freach.move) (rule snapshot_deleted)
  moreover have fetch: "fetched Ok ?i ?p = Some im" using im(1) by (simp add: fetched_def)
  moreover have "with_id ((contents map_of ?i)(''mysql:5.7'' \<mapsto> im)) (job_Digest ?d) = {}"
    using im(3) by (simp add: race_index_sel with_id_single sample_delete_def)
  then have "fold (abs_job (fetched Ok ?i)) [?p, ?d] (contents map_of ?i) ''mysql:5.7'' = Some im"
    using im(2) fetch by (simp add: abs_job_def) (simp add: sample_delete_def sample_push_def DeleteAction_def PushAction_def)
  moreover have "fold (abs_job (fetched Ok ?i)) [?d, ?p] (contents map_of ?i) ''mysql:5.7'' = Some im"
    using im(2) fetch by (simp add: abs_job_def) (simp add: sample_delete_def sample_push_def DeleteAction_def PushAction_def)
  moreover have "\<nexists>t. fstep Ok (snapshot [] [] Idle Idle ([?p] @ [?d]) y) t" by (simp add: snapshot_rest)
  ultimately show ?thesis
    using y(2) im(2) by (intro exI [of _ "snapshot [] [] Idle Idle ([?p] @ [?d]) y"] exI [of _ im])
      (simp add: snapshot_def [of _ _ _ _ "[_, _]"])
qed

section \<open>A deletion handled before the batch is committed\<close>

text \<open>When the workers have nothing to do, only the build goes on, and what it commits stays.\<close>

lemma build_undisturbed:
  assumes "lreach P submit (b0, s0) y" and quiet: "\<And>x t. \<not> fstep P (s0\<lparr>fs_index := x\<rparr>) t"
    and start: "live_ok docs P submit idx repos J (b0, s0)" "\<not> b_done b0"
    and bl: "bleve_ok fmt (idx_bleve idx) docs" and submit: "batch_ok docs submit" "\<forall>batch ix. is_ok (snd (submit batch ix))"
    and parse: "all_parse Parse repos"
  shows "\<exists>b x. y = (b, s0\<lparr>fs_index := x\<rparr>) \<and> live_ok docs P submit idx repos J y \<and>
    (b_done b \<longrightarrow> (\<forall>k \<in> im_FullName ` built repos. contents docs x k \<noteq> None))"
  using assms(1)
proof (induction rule: lreach.induct)
  case stay
  have "s0\<lparr>fs_index := fs_index s0\<rparr> = s0" by simp
  with start show ?case by metis
next
  case (move y z)
  then obtain b x where y: "y = (b, s0\<lparr>fs_index := x\<rparr>)" and ok: "live_ok docs P submit idx repos J y"
    and there: "b_done b \<longrightarrow> (\<forall>k \<in> im_FullName ` built repos. contents docs x k \<noteq> None)" by blast
  have z: "live_ok docs P submit idx repos J z" by (rule lstep_ok [OF bl submit(1) parse move.hyps(2) ok])
  from move.hyps(2) [unfolded y] quiet obtain c where
    c: "bstep Parse (commit_batch submit) (b\<lparr>b_index := fs_index (s0\<lparr>fs_index := x\<rparr>)\<rparr>) c" "z = (c, s0\<lparr>fs_index := b_index c\<rparr>)"
    by (cases rule: lstep.cases) auto
  have b: "flowing Parse repos b" "sourced docs P idx (built repos) J (s0\<lparr>fs_index := x\<rparr>)"
    using ok by (simp_all add: y live_ok_def)
  from builder_sourced(3,4) [OF submit(1) parse c(1) b]
  have "b_done c \<longrightarrow> (\<forall>k \<in> im_FullName ` built repos. contents docs (b_index c) k \<noteq> None)"
    using there submit(2) bstep_index [OF c(1)] by (cases "b_done b") auto
  with c(2) z show ?case by blast
qed

lemma workers_live: "freach P s t \<Longrightarrow> \<not> b_panicked b \<Longrightarrow> lreach P submit (b, s) (b, t)"
  by (induction rule: freach.induct) (auto intro: lreach.intros lstep.worker)

text \<open>The only request tells of the deletion of the image, which nobody has indexed yet.\<close>

lemma small_request_jobs:
  "authorised_jobs open_config (se_decode (sample_server_env [sample_deletion])) sample_request = [sample_delete]"
proof -
  have "allowed (sc_Authorizations open_config) sample_request" by (simp add: allowed_def open_config_def)
  moreover have "routed sample_request" by code_simp
  moreover have "event_job sample_deletion = Some sample_delete" by code_simp
  ultimately show ?thesis
    by (simp add: authorised_jobs_def sample_request_def sample_server_env_def map_filter_simps)
qed

lemma small_request:
  "live small_handler Ok mem_submit small_registry empty_index [sample_request]
     (start_build small_registry empty_index, with_jobs [sample_delete] empty_index)"
proof -
  let ?b = "start_build small_registry empty_index" and ?s = "new_fsys empty_index"
  have cfg: "compiled (sc_Authorizations open_config)" by (rule readServerConfig_Ok(2) [OF open_config_read])
  have "is_ok (small_handler sample_request (nsys_of ?s, new_Response))"
    using server_handler_caught [OF cfg] small_request_jobs by (metis list.distinct(1))
  then obtain s' w where h: "small_handler sample_request (nsys_of ?s, new_Response) = Ok (s', w)"
    by (cases "small_handler sample_request (nsys_of ?s, new_Response)") auto
  have "s' = fold Submit [sample_delete] (nsys_of ?s)"
    using server_handler_jobs [OF cfg h] by (simp only: small_request_jobs)
  then have todo: "ns_todo s' = fs_todo ?s @ [sample_delete]" by (simp add: Submit_def new_fsys_def nsys_of_def)
  have "live small_handler Ok mem_submit small_registry empty_index ([] @ [sample_request])
      (?b, ?s\<lparr>fs_todo := [sample_delete]\<rparr>)"
  proof (rule live.request [where s = ?s and s' = s' and w = w and js = "[sample_delete]"])
    show "live small_handler Ok mem_submit small_registry empty_index [] (?b, ?s)" by (rule live.start)
  qed (use h todo in \<open>simp_all add: new_fsys_def start_build_def\<close>)
  then show ?thesis by (simp add: with_jobs_def)
qed

lemma small_deletion:
  "freach Ok (with_jobs [sample_delete] empty_index) (snapshot [] [] Idle Idle [sample_delete] empty_index)"
proof -
  let ?r = "freach Ok (with_jobs [sample_delete] empty_index)" and ?d = sample_delete and ?i = empty_index
  have bl: "bleve_ok (\<lambda>_. ''t'') (idx_bleve ?i) map_of" by (simp add: empty_index_sel mem_bleve_ok)
  obtain sr where sr: "idx_Search ?i (delete_request (job_Digest ?d)) = Ok sr" using search_answers [OF bl] by blast
  have none: "found sr = []"
    using delete_search(3) [OF bl _ sr] by (simp add: empty_index_sel keyed_def with_id_def)
  have "?r (snapshot [?d] [] Idle Idle [] ?i)" unfolding snapshot_start by (rule freach.stay)
  then have "?r (snapshot [] [?d] Idle Idle [] ?i)" using freach.move snapshot_send [of "[]"] by fastforce
  then have "?r (snapshot [] [] (Taken ?d) Idle [] ?i)" by (rule freach.move) (rule snapshot_take)
  then have "?r (snapshot [] [] (Deleting ?d (found sr)) Idle [] ?i)"
    by (rule freach.move) (rule snapshot_search [OF _ sr], simp add: sample_delete_def)
  then have "?r (snapshot [] [] Idle Idle ([] @ [?d]) ?i)" unfolding none by (rule freach.move) (rule snapshot_deleted)
  then show ?thesis by simp
qed

text \<open>
  C35: a deletion can come too early. The registry tells the server that an image is deleted while
  the index is still being built from what the registry had before: the worker finds nothing to
  delete, and then the batch brings the image. Build and workers have come to rest, the deletion has
  been handled, and the image is in the index.
\<close>

theorem stale_after_build:
  "\<exists>b s im. live small_handler Ok mem_submit small_registry empty_index [sample_request] (b, s) \<and>
     (\<nexists>y. lstep Ok mem_submit (b, s) y) \<and> b_done b \<and> fs_done s = [sample_delete] \<and>
     contents map_of (fs_index s) ''mysql:5.7'' = Some im \<and>
     job_Action sample_delete = DeleteAction \<and> im_ID im = job_Digest sample_delete"
proof -
  let ?i = empty_index and ?s1 = "snapshot [] [] Idle Idle [sample_delete] empty_index"
  let ?b0 = "start_build small_registry ?i" and ?J = "{#sample_delete#}"
  obtain im where im: "built small_registry = {im}" "im_FullName im = ''mysql:5.7''" "im_ID im = ''d1''" "all_parse Parse small_registry"
    by (rule small_registry_built)
  have bl: "bleve_ok (\<lambda>_. ''t'') (idx_bleve ?i) map_of" by (simp add: empty_index_sel mem_bleve_ok)
  have "\<not> b_panicked ?b0" by (simp add: start_build_def)
  from live_lreach [OF workers_live [OF small_deletion this] small_request]
  have live1: "live small_handler Ok mem_submit small_registry ?i [sample_request] (?b0, ?s1)" .
  from live_invariant [OF readServerConfig_Ok(2) [OF open_config_read] bl mem_submit_ok(1) empty_index_sel(2) im(4) this]
  have ok1: "live_ok map_of Ok mem_submit ?i small_registry ?J (?b0, ?s1)"
    by (simp add: small_request_jobs)
  obtain y where y: "lreach Ok mem_submit (?b0, ?s1) y" "\<nexists>z. lstep Ok mem_submit y z"
    using lrun.ends [of "\<lambda>_. ''t''" ?i map_of mem_submit small_registry Ok ?J "(?b0, ?s1)"] bl mem_submit_ok(1) im(4) ok1 by blast
  have "?s1\<lparr>fs_index := x\<rparr> = snapshot [] [] Idle Idle [sample_delete] x" for x by (simp add: snapshot_def)
  then have quiet: "\<not> fstep Ok (?s1\<lparr>fs_index := x\<rparr>) t" for x t using snapshot_rest by simp
  have "\<not> b_done ?b0" by (simp add: start_build_def)
  from build_undisturbed [OF y(1) quiet ok1 this bl mem_submit_ok(1) _ im(4)] mem_submit_ok(2)
  obtain b x where bx: "y = (b, ?s1\<lparr>fs_index := x\<rparr>)" and ok: "live_ok map_of Ok mem_submit ?i small_registry ?J y"
    and there: "b_done b \<longrightarrow> (\<forall>k \<in> im_FullName ` built small_registry. contents map_of x k \<noteq> None)" by blast
  have safe: "\<forall>j \<in># ?J. fetch_safe Ok ?i j" by (simp add: fetch_safe_def sample_delete_def DeleteAction_def PushAction_def)
  from live_rest [OF bl ok [unfolded bx] safe] y(2) bx have fin: "b_done b" by blast
  with there im(1,2) obtain im' where im': "contents map_of x ''mysql:5.7'' = Some im'" by auto
  have "im' \<in> brought (fetched Ok ?i) (built small_registry) {sample_delete}"
    using ok im' by (auto simp: bx live_ok_def sourced_def ran_def)
  then have "im' = im" by (simp add: brought_def im(1) sample_delete_def DeleteAction_def PushAction_def)
  moreover have "live small_handler Ok mem_submit small_registry ?i [sample_request] y" by (rule live_lreach [OF y(1) live1])
  ultimately show ?thesis
    using y(2) fin im' im(3) unfolding bx
    by (intro exI [of _ b] exI [of _ "?s1\<lparr>fs_index := x\<rparr>"] exI [of _ im]) (simp add: snapshot_def sample_delete_def)
qed

end
