(* ===== verification/Mirror.thy ===== *)
theory Mirror
  imports Live Catalog WalkImages
begin

text \<open>
  From the registry to the index: the repositories \<open>WalkRepositories\<close> sends, the images \<open>WalkImages\<close>
  delivers for each of them, and the documents the server has in the end
  (\<open>lib/registry\<close>, \<open>lib/index\<close>, \<open>cmd/server.go\<close> together).
\<close>

section \<open>What the walks hand to the build\<close>

text \<open>A repository is readable when its tags and the images of all of them can be fetched. The images
  the build gets for it are those of a walk that has come to rest, in the order they were delivered.\<close>

definition readable :: "'r \<Rightarrow> ('m, 'r) RepositoryImpl \<Rightarrow> bool" where
  "readable reg rp \<longleftrightarrow> (case AllTags rp reg of
     Ok tags \<Rightarrow> \<forall>t \<in> set tags. is_ok (snd (RepoImage rp reg t)) | _ \<Rightarrow> False)"

definition walked :: "'r \<Rightarrow> ('m, 'r) RepositoryImpl \<Rightarrow> string \<times> RegistryImage list \<Rightarrow> bool" where
  "walked reg rp r \<longleftrightarrow> fst r = sv_Named (rp_services rp) \<and>
     (\<exists>s. wreach (\<lambda>t. snd (RepoImage rp reg t)) (start_walk (AllTags rp reg)) s \<and>
        (\<nexists>t. wstep (\<lambda>t. snd (RepoImage rp reg t)) s t) \<and> ws_out s = map Some (snd r))"

text \<open>The images of the tags of a repository.\<close>

definition tag_images :: "'r \<Rightarrow> ('m, 'r) RepositoryImpl \<Rightarrow> RegistryImage set" where
  "tag_images reg rp = {img. \<exists>tags. AllTags rp reg = Ok tags \<and> (\<exists>t \<in> set tags. snd (RepoImage rp reg t) = Ok img)}"

lemma img_of_Some: "img_of r = Some i \<longleftrightarrow> r = Ok i"
  by (cases r) (simp_all add: img_of_def)

lemma walked_images:
  assumes "readable reg rp" and "walked reg rp r"
  shows "set (snd r) = tag_images reg rp"
proof -
  let ?f = "\<lambda>t. snd (RepoImage rp reg t)"
  from assms(1) obtain tags where tags: "AllTags rp reg = Ok tags" and ok: "\<forall>t \<in> set tags. is_ok (?f t)"
    by (auto simp: readable_def split: res.splits)
  from assms(2) tags obtain s where "wreach ?f (start_walk (Ok tags)) s" "\<nexists>t. wstep ?f s t" "ws_out s = map Some (snd r)"
    by (auto simp: walked_def)
  with walk_rest [OF ok, of s] have "mset (map Some (snd r)) = image_mset (img_of \<circ> ?f) (mset tags)" by simp
  then have all: "set (map Some (snd r)) = (img_of \<circ> ?f) ` set tags" by (metis set_image_mset set_mset_mset)
  have "img \<in> set (snd r) \<longleftrightarrow> Some img \<in> set (map Some (snd r))" for img by auto
  then have "img \<in> set (snd r) \<longleftrightarrow> (\<exists>t \<in> set tags. img_of (?f t) = Some img)" for img
    unfolding all by (auto simp: image_iff eq_commute)
  then show ?thesis by (auto simp: tag_images_def tags img_of_Some)
qed

text \<open>The documents of the build are those of the images of the tags of the repositories walked.\<close>

lemma built_walked:
  assumes "list_all2 (walked reg) rps repos" and "\<forall>rp \<in> set rps. readable reg rp"
  shows "built repos = (\<Union>rp \<in> set rps. (\<lambda>img. doc_of_image Parse (sv_Named (rp_services rp), img)) ` tag_images reg rp)"
  using assms
proof (induction rule: list_all2_induct)
  case Nil
  then show ?case by (simp add: built_def repo_images_def)
next
  case (Cons rp rps r repos)
  obtain name imgs where r: "r = (name, imgs)" by fastforce
  have "name = sv_Named (rp_services rp)" using Cons.hyps(1) by (simp add: walked_def r)
  moreover have "set imgs = tag_images reg rp" using walked_images [of reg rp r] Cons by (simp add: r)
  moreover have "built (r # repos) = (\<lambda>img. doc_of_image Parse (name, img)) ` set imgs \<union> built repos"
    by (auto simp: built_def repo_images_def r)
  ultimately show ?case using Cons by simp
qed


section \<open>A registry with one image\<close>

definition small_services :: "(unit, unit) services" where
  "small_services =
     \<lparr>sv_Named = ''mysql'', sv_AllTags = (\<lambda>_. Ok [''5.7'']), sv_GetTag = (\<lambda>_ _. Ok ''d1''), sv_Manifests = Ok (),
      sv_GetManifest = (\<lambda>_ _ _. Ok (Ok ''manifest'')), sv_ConfigDigest = (\<lambda>_. Ok ''config''),
      sv_GetBlob = (\<lambda>_ _. Ok ''blob''), sv_FillImage = (\<lambda>_ img. Ok (img\<lparr>ri_Image := ri_Image sample_registry_image\<rparr>)),
      sv_Delete = (\<lambda>_ r _. (r, Ok ()))\<rparr>"

definition small_repository :: "(unit, unit) RepositoryImpl" where
  "small_repository = \<lparr>rp_services = small_services, rp_mfs = None\<rparr>"

lemma small_repository_reads:
  "AllTags small_repository () = Ok [''5.7'']"
  "t = ''5.7'' \<Longrightarrow> snd (RepoImage small_repository () t) = Ok sample_registry_image"
  by (simp_all add: AllTags_def small_repository_def small_services_def RepoImage_def getTagDigest_def
      ImageFromManifest_def manifestService_def sample_registry_image_def Let_def)

lemma small_repository_walked: "walked () small_repository (''mysql'', [sample_registry_image])"
proof -
  let ?f = "\<lambda>t. snd (RepoImage small_repository () t)"
  obtain s where s: "wreach ?f (start_walk (Ok [''5.7''])) s" "\<nexists>t. wstep ?f s t"
    using wrun.ends [of ?f "start_walk (Ok [''5.7''])"] by blast
  have "\<forall>t \<in> set [''5.7'']. is_ok (?f t)" by (simp add: small_repository_reads)
  from walk_rest [OF this s] have "mset (ws_out s) = {#Some sample_registry_image#}"
    by (simp add: small_repository_reads img_of_def)
  then have "ws_out s = [Some sample_registry_image]" by (simp add: mset_single_iff)
  with s show ?thesis
    unfolding walked_def small_repository_reads(1) by (intro conjI exI [of _ s]) (simp_all add: small_repository_def small_services_def)
qed


end
