(* ===== verification/Program.thy ===== *)
theory Program
  imports SearchCmd ServerCmd
begin

text \<open>
  The program as it is started: the flags its commands register (\<open>cmd/root.go\<close> and the functions
  \<open>new...Command\<close>), the entry (\<open>main.go\<close>) and the end on a signal (\<open>cmd/server.go\<close>). Several commands
  bind the same variable to a flag, and registering a flag writes its default into its variable, so
  what a command finds there depends on all of them.
\<close>

section \<open>Flags and flag sets\<close>

datatype flag_value = FBool bool | FInt int | FString string

text \<open>The variable is missing when the value is only read through the configuration library.\<close>

record flag =
  pf_var :: "string option"
  pf_name :: string
  pf_short :: string
  pf_default :: flag_value

definition flag_of :: "string \<Rightarrow> string \<Rightarrow> string \<Rightarrow> flag_value \<Rightarrow> flag" where
  "flag_of var name short d = \<lparr>pf_var = Some var, pf_name = name, pf_short = short, pf_default = d\<rparr>"

text \<open>Adding a flag twice, or a second flag with a letter that is taken, panics.\<close>

definition AddFlag :: "flag \<Rightarrow> flag list \<Rightarrow> flag list res" where
  "AddFlag f fs =
     (if pf_name f \<in> set (map pf_name fs) then Panic
      else if pf_short f = [] then Ok (fs @ [f])
      else if length (pf_short f) > 1 then Panic
      else if pf_short f \<in> set (map pf_short fs) then Panic
      else Ok (fs @ [f]))"

fun AddFlags :: "flag list \<Rightarrow> flag list \<Rightarrow> flag list res" where
  "AddFlags [] fs = Ok fs"
| "AddFlags (f # new) fs = res_bind (AddFlag f fs) (AddFlags new)"

text \<open>Before a command parses its arguments it takes over the flags of the root that it has not itself,
  and a flag for help.\<close>

fun mergePersistentFlags :: "flag list \<Rightarrow> flag list \<Rightarrow> flag list res" where
  "mergePersistentFlags [] fs = Ok fs"
| "mergePersistentFlags (p # persistent) fs =
     (if pf_name p \<in> set (map pf_name fs) then mergePersistentFlags persistent fs
      else res_bind (AddFlag p fs) (mergePersistentFlags persistent))"

definition help_flag :: flag where
  "help_flag = \<lparr>pf_var = None, pf_name = ''help'', pf_short = ''h'', pf_default = FBool False\<rparr>"

section \<open>The commands\<close>

text \<open>The functions the commands run; \<open>RunHelp\<close> is the one of the command that cobra adds.\<close>

datatype run =
    RunDelete | RunGenBashCompletion | RunLabel | RunSearch | RunServer | RunShow | RunVersion | RunHooktest
  | RunGenPasswd | RunHelp

record Command =
  cm_Use :: string
  cm_Hidden :: bool
  cm_Short :: string
  cm_Long :: string
  cm_Example :: string
  cm_Run :: run
  cm_Flags :: "flag list"

definition tab :: string where "tab = [CHR 0x09]"

definition apostrophe :: string where "apostrophe = [CHR 0x27]"

definition deleteCommand :: Command where
  "deleteCommand = \<lparr>cm_Use = ''delete IMAGE[:TAG]'', cm_Hidden = False,
     cm_Short = ''Deletes an image'',
     cm_Long = ''Deletes the image IMAGE locally.'' @ newline @
        ''If no TAG is specified, latest will be used'' @ newline @
        ''If flag -r is given the image is also deleted on the remote registry.'',
     cm_Example = ''dim delete ubuntu'' @ newline @ ''dim delete -r ubuntu:xenial'' @ newline @ tab,
     cm_Run = RunDelete, cm_Flags =
     [flag_of ''remoteFlag'' ''remote'' ''r'' (FBool False)]\<rparr>"

definition genBashCompletionCommand :: Command where
  "genBashCompletionCommand = \<lparr>cm_Use = ''autocomplete'', cm_Hidden = True,
     cm_Short = [],
     cm_Long = [],
     cm_Example = [],
     cm_Run = RunGenBashCompletion, cm_Flags = []\<rparr>"

definition labelFlags :: "flag list" where
  "labelFlags =
     [flag_of ''deleteFlag'' ''delete'' ''d'' (FBool False),
      flag_of ''imageFlag'' ''tag'' ''t'' (FString []),
      flag_of ''remoteFlag'' ''remote'' ''r'' (FBool False),
      flag_of ''overrideFlag'' ''override'' ''o'' (FBool False),
      flag_of ''pullFlag'' ''pull'' ''p'' (FBool False)]"

definition labelCommand :: Command where
  "labelCommand = \<lparr>cm_Use = ''label [--delete] IMAGE[:TAG] LABEL_KEY[=LABEL_VALUE]...'', cm_Hidden = False,
     cm_Short = ''Add / Remove a label to a given image'',
     cm_Long = ''Add label to the image IMAGE. If no tag is given, latest will be used.'' @ newline @
        ''Multiple labels can be given at once, separated by a space.'' @ newline @
        ''To delete a tag, pass the --delete flag.'' @ newline,
     cm_Example = ''dim label ubuntu:xenial os=ubuntu version=xenial'' @ newline @
        ''dim label --delete ubuntu:xenial os version'' @ newline @ tab,
     cm_Run = RunLabel, cm_Flags = labelFlags\<rparr>"

definition searchCommand :: Command where
  "searchCommand = \<lparr>cm_Use = ''search QUERY'', cm_Hidden = False,
     cm_Short = ''Run a search against a private registry'',
     cm_Long = ''Search an image on the private registry.'' @ newline @
        ''By default the provided query is searched in the names and tags of the images on the registry.'' @
        newline @
        ''Using -a flag, you can run advanced queries and search in the labels and volumes too.'',
     cm_Example = ''# Find the images with label os=ubuntu'' @ newline @ ''dim search -a Label.os:ubuntu'' @
        newline @ ''# Find the images having a label '' @ apostrophe @ ''os'' @ apostrophe @ newline @
        ''dim search -a Labels:os'' @ newline @ newline @
        ''With the -a flag, you can also use the +/- operator to combine your clauses :'' @ newline @
        ''dim search -a +Label.os:ubuntu -Label.version=xenial'',
     cm_Run = RunSearch, cm_Flags =
     [flag_of ''advancedFlag'' ''advanced'' ''a'' (FBool False),
      flag_of ''paginationFlag'' ''bulk-size'' [] (FInt 15),
      flag_of ''unlimitedFlag'' ''unlimited'' ''u'' (FBool False),
      flag_of ''widthFlag'' ''width'' ''W'' (FInt 150),
      flag_of ''quietFlag'' ''quiet'' ''q'' (FBool False),
      flag_of ''templateFlag'' ''template'' ''t'' (FString [])]\<rparr>"

definition serverFlags :: "flag list" where
  "serverFlags =
     [flag_of ''port'' ''port'' ''p'' (FString ''0.0.0.0:6000''),
      flag_of ''indexDir'' ''index-path'' [] (FString ''dim.index''),
      \<lparr>pf_var = None, pf_name = ''ssl-cert-file'', pf_short = [], pf_default = FString []\<rparr>,
      \<lparr>pf_var = None, pf_name = ''ssl-key-file'', pf_short = [], pf_default = FString []\<rparr>]"

definition serverCommand :: Command where
  "serverCommand = \<lparr>cm_Use = ''server'', cm_Hidden = False,
     cm_Short = ''Runs in server mode to provide search feature'',
     cm_Long = ''Start dim in server mode. In this mode, dim indexes your private registry and provide a search endpoint.'' @
        newline @ ''Use the --port flag to specify the adress the server listens.'' @ newline @ tab,
     cm_Example = [],
     cm_Run = RunServer, cm_Flags = serverFlags\<rparr>"

definition showCommand :: Command where
  "showCommand = \<lparr>cm_Use = ''show IMAGE'', cm_Hidden = False,
     cm_Short = ''Shows details about an image'',
     cm_Long = ''Print the defails of a local image.'' @ newline @
        ''Use the -o flag to write the details into a flag instead of writing to stdout.'' @ newline @
        ''Use the -r flag to print the details of an image on the private registry (not present locally)'',
     cm_Example = [],
     cm_Run = RunShow, cm_Flags =
     [flag_of ''templateFlag'' ''template'' ''t'' (FString []),
      flag_of ''remoteFlag'' ''remote'' ''r'' (FBool False),
      flag_of ''outputFlag'' ''output'' ''o'' (FString [])]\<rparr>"

definition versionCommand :: Command where
  "versionCommand = \<lparr>cm_Use = ''version'', cm_Hidden = False,
     cm_Short = ''Prints dim version'',
     cm_Long = [],
     cm_Example = [],
     cm_Run = RunVersion, cm_Flags = []\<rparr>"

definition hooktestCommand :: Command where
  "hooktestCommand = \<lparr>cm_Use = ''hooktest IMAGE[:TAG]'', cm_Hidden = False,
     cm_Short = ''Tests index hooks against an image'',
     cm_Long = ''Tests index hook against the image IMAGE.'' @ newline @
        ''If no TAG is specified, latest will be used.'' @ newline @
        ''If flag -r is given the image is read from the remote registry.'' @ newline @
        ''testhooks will parse and execute templates given in dim configuration with mock functions so user can check the hooks behaves as expected for a given image'',
     cm_Example = ''dim hooktest ubuntu'' @ newline @ ''dim hooktest -r ubuntu:xenial'' @ newline @ tab,
     cm_Run = RunHooktest, cm_Flags =
     [flag_of ''remoteFlag'' ''remote'' ''r'' (FBool False)]\<rparr>"

definition genpasswdCommand :: Command where
  "genpasswdCommand = \<lparr>cm_Use = ''genpasswd QUERY'', cm_Hidden = False,
     cm_Short = ''Encode a password in sha256'',
     cm_Long = [],
     cm_Example = [],
     cm_Run = RunGenPasswd, cm_Flags = []\<rparr>"

definition rootFlags :: "flag list" where
  "rootFlags =
     [flag_of ''logLevel'' ''log'' ''l'' (FString ''warn''),
      \<lparr>pf_var = None, pf_name = ''registry-url'', pf_short = [], pf_default = FString []\<rparr>,
      \<lparr>pf_var = None, pf_name = ''registry-user'', pf_short = [], pf_default = FString []\<rparr>,
      \<lparr>pf_var = None, pf_name = ''registry-password'', pf_short = [], pf_default = FString []\<rparr>,
      flag_of ''insecure'' ''insecure'' ''k'' (FBool False)]"

definition commands :: "Command list" where
  "commands = [deleteCommand, genBashCompletionCommand, labelCommand, searchCommand, serverCommand,
     showCommand, versionCommand, hooktestCommand, genpasswdCommand]"

text \<open>Registering writes the defaults into the variables, the root's first, then those of the commands in
  the order in which they are made.\<close>

definition write_default :: "flag \<Rightarrow> (string \<rightharpoonup> flag_value) \<Rightarrow> (string \<rightharpoonup> flag_value)" where
  "write_default f vars = (case pf_var f of None \<Rightarrow> vars | Some v \<Rightarrow> vars(v \<mapsto> pf_default f))"

fun register_commands :: "Command list \<Rightarrow> (string \<rightharpoonup> flag_value) \<Rightarrow> (Command list \<times> (string \<rightharpoonup> flag_value)) res" where
  "register_commands [] vars = Ok ([], vars)"
| "register_commands (c # cs) vars =
     res_bind (AddFlags (cm_Flags c) []) (\<lambda>fs.
     res_map (\<lambda>(rest, vars'). (c\<lparr>cm_Flags := fs\<rparr> # rest, vars'))
       (register_commands cs (fold write_default (cm_Flags c) vars)))"

text \<open>The flags of the root, the commands with theirs and the variables.\<close>

definition NewRootCommand :: "(flag list \<times> Command list \<times> (string \<rightharpoonup> flag_value)) res" where
  "NewRootCommand =
     res_bind (AddFlags rootFlags []) (\<lambda>persistent.
     res_map (Pair persistent) (register_commands commands (fold write_default rootFlags Map.empty)))"

section \<open>The flags a command reads\<close>

definition bool_var :: "(string \<rightharpoonup> flag_value) \<Rightarrow> string \<Rightarrow> bool" where
  "bool_var vars v = (case vars v of Some (FBool b) \<Rightarrow> b | _ \<Rightarrow> False)"

definition int_var :: "(string \<rightharpoonup> flag_value) \<Rightarrow> string \<Rightarrow> int" where
  "int_var vars v = (case vars v of Some (FInt i) \<Rightarrow> i | _ \<Rightarrow> 0)"

definition string_var :: "(string \<rightharpoonup> flag_value) \<Rightarrow> string \<Rightarrow> string" where
  "string_var vars v = (case vars v of Some (FString s) \<Rightarrow> s | _ \<Rightarrow> [])"

definition label_flags_of :: "(string \<rightharpoonup> flag_value) \<Rightarrow> label_flags" where
  "label_flags_of vars =
     \<lparr>lf_delete = bool_var vars ''deleteFlag'', lf_image = string_var vars ''imageFlag'',
      lf_remote = bool_var vars ''remoteFlag'', lf_override = bool_var vars ''overrideFlag'',
      lf_pull = bool_var vars ''pullFlag''\<rparr>"

definition search_flags_of :: "(string \<rightharpoonup> flag_value) \<Rightarrow> search_flags" where
  "search_flags_of vars =
     \<lparr>fl_advanced = bool_var vars ''advancedFlag'', fl_unlimited = bool_var vars ''unlimitedFlag'',
      fl_width = int_var vars ''widthFlag'', fl_quiet = bool_var vars ''quietFlag'',
      fl_template = string_var vars ''templateFlag''\<rparr>"

definition show_flags_of :: "(string \<rightharpoonup> flag_value) \<Rightarrow> show_flags" where
  "show_flags_of vars =
     \<lparr>sf_template = string_var vars ''templateFlag'', sf_remote = bool_var vars ''remoteFlag'',
      sf_output = string_var vars ''outputFlag''\<rparr>"

section \<open>Start and end\<close>

definition initial_globals :: globals where
  "initial_globals = \<lparr>g_registryURL = [], g_username = [], g_password = [], g_insecure = False\<rparr>"

fun exit_code :: "unit res \<Rightarrow> nat" where
  "exit_code (Ok _) = 0"
| "exit_code (Err _) = 1"
| "exit_code Panic = 2"

text \<open>\<open>execute\<close> runs the root command on the arguments and \<open>print\<close> writes to the standard output; the
  version asked for with the only argument \<open>--version\<close> is printed before any command is made.\<close>

definition dim_main ::
    "(AuthConfig option \<Rightarrow> string \<Rightarrow> 'c res) \<Rightarrow> ('c \<Rightarrow> Info res) \<Rightarrow> (string \<Rightarrow> 'w \<Rightarrow> 'w) \<Rightarrow>
     (string list \<Rightarrow> 'w \<Rightarrow> 'w \<times> unit res) \<Rightarrow> string \<Rightarrow> string list \<Rightarrow> 'w \<Rightarrow> 'w \<times> nat" where
  "dim_main silent_new server_version print execute version args w =
     (if length args = 2 \<and> args ! 1 = ''--version'' then
        (let (out, r) = PrintVersion silent_new server_version initial_globals version
         in (print out w, exit_code r))
      else (let (w, r) = execute args w in (w, exit_code r)))"

datatype 's ending = BlockingClose 's | Exit nat

text \<open>On an interrupt the server is closed first, when there is one already.\<close>

definition handleSignal :: "'s option \<Rightarrow> 's ending list" where
  "handleSignal s = (case s of None \<Rightarrow> [] | Some srv \<Rightarrow> [BlockingClose srv]) @ [Exit 0]"

section \<open>The commands go together\<close>

lemmas command_defs =
  labelFlags_def serverFlags_def deleteCommand_def genBashCompletionCommand_def labelCommand_def searchCommand_def serverCommand_def
  showCommand_def versionCommand_def hooktestCommand_def genpasswdCommand_def

definition flags_fit :: "flag list \<Rightarrow> bool" where
  "flags_fit fs \<longleftrightarrow> distinct (map pf_name fs) \<and> distinct (filter (\<lambda>s. s \<noteq> []) (map pf_short fs)) \<and>
     list_all (\<lambda>f. length (pf_short f) \<le> 1) fs"

lemma AddFlags_fit: "flags_fit (fs @ new) \<Longrightarrow> AddFlags new fs = Ok (fs @ new)"
proof (induction new arbitrary: fs)
  case (Cons f new)
  have "AddFlag f fs = Ok (fs @ [f])"
    using Cons.prems by (auto simp: AddFlag_def flags_fit_def)
  with Cons.IH [of "fs @ [f]"] Cons.prems show ?case by simp
qed simp

lemma register_commands_fit:
  "list_all (\<lambda>c. flags_fit (cm_Flags c)) cs \<Longrightarrow>
   register_commands cs vars = Ok (cs, fold (\<lambda>c. fold write_default (cm_Flags c)) cs vars)"
  by (induction cs arbitrary: vars) (simp_all add: AddFlags_fit [of "[]", simplified])

lemma commands_fit: "list_all (\<lambda>c. flags_fit (cm_Flags c)) commands" "flags_fit rootFlags"
  by code_simp+

definition final_vars :: "string \<rightharpoonup> flag_value" where
  "final_vars = fold (\<lambda>c. fold write_default (cm_Flags c)) commands (fold write_default rootFlags Map.empty)"

lemma NewRootCommand_eq: "NewRootCommand = Ok (rootFlags, commands, final_vars)"
  using commands_fit
  by (simp add: NewRootCommand_def AddFlags_fit [of "[]", simplified] register_commands_fit final_vars_def)

text \<open>The name of a command is the first word of its usage.\<close>

definition Name :: "Command \<Rightarrow> string" where
  "Name c = takeWhile (\<lambda>x. x \<noteq> CHR '' '') (cm_Use c)"

text \<open>
  The command line is well formed: making the commands does not panic, no two have the same name,
  none loses a flag or a letter when it takes over those of the root and the one for help, and
  every variable that a command reads starts with the default this command declares, although
  other commands bind it too.
\<close>

theorem commands_register:
  "\<exists>vars. NewRootCommand = Ok (rootFlags, commands, vars) \<and> distinct (map Name commands) \<and>
     list_all (\<lambda>c. res_bind (mergePersistentFlags rootFlags (cm_Flags c)) (AddFlag help_flag) =
       Ok (cm_Flags c @ rootFlags @ [help_flag])) commands \<and>
     list_all (\<lambda>f. case pf_var f of None \<Rightarrow> True | Some v \<Rightarrow> vars v = Some (pf_default f))
       (rootFlags @ concat (map cm_Flags commands))"
proof (intro exI conjI)
  show "distinct (map Name commands)" by code_simp
  show "list_all (\<lambda>c. res_bind (mergePersistentFlags rootFlags (cm_Flags c)) (AddFlag help_flag) =
       Ok (cm_Flags c @ rootFlags @ [help_flag])) commands" by code_simp
  show "list_all (\<lambda>f. case pf_var f of None \<Rightarrow> True | Some v \<Rightarrow> final_vars v = Some (pf_default f))
       (rootFlags @ concat (map cm_Flags commands))" by code_simp
qed (rule NewRootCommand_eq)

text \<open>What the commands find without any flag.\<close>

lemma default_flags:
  "label_flags_of final_vars = \<lparr>lf_delete = False, lf_image = [], lf_remote = False, lf_override = False, lf_pull = False\<rparr>"
  "search_flags_of final_vars = \<lparr>fl_advanced = False, fl_unlimited = False, fl_width = 150, fl_quiet = False, fl_template = []\<rparr>"
  "show_flags_of final_vars = \<lparr>sf_template = [], sf_remote = False, sf_output = []\<rparr>"
  by code_simp+

section \<open>The version without a command\<close>

text \<open>Asked with \<open>--version\<close> alone the program tells its own version, succeeds and contacts no server,
  whatever the configuration says: nothing has been read yet.\<close>

lemma main_version_local:
  "dim_main silent_new server_version print execute version [prog, ''--version''] w =
     (print (''dim version : '' @ version @ newline) w, 0)"
  by (simp add: dim_main_def PrintVersion_def initial_globals_def Let_def)

end
