(* ===== verification/Settings.thy ===== *)
theory Settings
  imports Program
begin

text \<open>
  Where the settings come from (\<open>cmd/root.go\<close>, \<open>cmd/server.go\<close>): the command line, the environment and
  the file \<open>dim.yml\<close>, through the configuration library (viper), of which the operations the program
  uses are translated. Nothing is ever set, given a default, or aliased by the program, and automatic
  variables are off, so these sources of the library are empty and left out. YAML is a parameter: what
  a file holds is the map from keys to values the library finds in it.
\<close>

section \<open>The configuration library\<close>

record 'v Viper =
  vp_pflags :: "string \<rightharpoonup> flag"
  vp_env :: "string \<rightharpoonup> string"
  vp_envKeyReplacer :: "(string \<Rightarrow> string) option"
  vp_config :: "string \<rightharpoonup> 'v"

definition Viper_New :: "'v Viper" where
  "Viper_New = \<lparr>vp_pflags = Map.empty, vp_env = Map.empty, vp_envKeyReplacer = None, vp_config = Map.empty\<rparr>"

text \<open>Letters outside ASCII are left alone; no key has any.\<close>

definition upper_char :: "char \<Rightarrow> char" where
  "upper_char c = (if CHR ''a'' \<le> c \<and> c \<le> CHR ''z'' then char_of ((of_char c :: nat) - 32) else c)"

definition lower_char :: "char \<Rightarrow> char" where
  "lower_char c = (if CHR ''A'' \<le> c \<and> c \<le> CHR ''Z'' then char_of ((of_char c :: nat) + 32) else c)"

definition ToUpper :: "string \<Rightarrow> string" where
  "ToUpper s = map upper_char s"

definition ToLower :: "string \<Rightarrow> string" where
  "ToLower s = map lower_char s"

definition SetEnvKeyReplacer :: "(string \<Rightarrow> string) \<Rightarrow> 'v Viper \<Rightarrow> 'v Viper" where
  "SetEnvKeyReplacer r v = v\<lparr>vp_envKeyReplacer := Some r\<rparr>"

text \<open>A flag is looked up by its name.\<close>

definition Lookup :: "string \<Rightarrow> flag list \<Rightarrow> flag option" where
  "Lookup name fs = List.find (\<lambda>f. pf_name f = name) fs"

definition BindPFlag :: "string \<Rightarrow> flag \<Rightarrow> 'v Viper \<Rightarrow> 'v Viper" where
  "BindPFlag key f v = v\<lparr>vp_pflags := (vp_pflags v)(ToLower key \<mapsto> f)\<rparr>"

definition BindEnv :: "string \<Rightarrow> 'v Viper \<Rightarrow> 'v Viper" where
  "BindEnv key v = v\<lparr>vp_env := (vp_env v)(ToLower key \<mapsto> ToUpper (ToLower key))\<rparr>"

definition getEnv :: "(string \<Rightarrow> string) \<Rightarrow> 'v Viper \<Rightarrow> string \<Rightarrow> string" where
  "getEnv env v key = env (case vp_envKeyReplacer v of None \<Rightarrow> key | Some r \<Rightarrow> r key)"

text \<open>Only flags that hold texts are bound. \<open>given\<close> tells the flags of the command line.\<close>

definition ValueString :: "(string \<rightharpoonup> string) \<Rightarrow> flag \<Rightarrow> string" where
  "ValueString given f =
     (case given (pf_name f) of Some t \<Rightarrow> t | None \<Rightarrow> (case pf_default f of FString s \<Rightarrow> s | _ \<Rightarrow> []))"

datatype 'v setting = Text string | Value 'v

fun first_some :: "'a option list \<Rightarrow> 'a option" where
  "first_some [] = None"
| "first_some (None # xs) = first_some xs"
| "first_some (Some x # xs) = Some x"

text \<open>
  A flag that was given, a variable that is not empty, the file, the default of the flag. A key with a
  dot is looked up in the file only, where the library follows it into nested maps; no flag and no
  variable of the program is bound to such a key or to the start of one.
\<close>

definition Viper_find :: "(string \<rightharpoonup> string) \<Rightarrow> (string \<Rightarrow> string) \<Rightarrow> 'v Viper \<Rightarrow> string \<Rightarrow> 'v setting option" where
  "Viper_find given env v key = first_some
     [(case vp_pflags v key of
         Some f \<Rightarrow> if given (pf_name f) \<noteq> None then Some (Text (ValueString given f)) else None
       | None \<Rightarrow> None),
      (case vp_env v key of
         Some e \<Rightarrow> if getEnv env v e \<noteq> [] then Some (Text (getEnv env v e)) else None
       | None \<Rightarrow> None),
      map_option Value (vp_config v key),
      map_option (\<lambda>f. Text (ValueString given f)) (vp_pflags v key)]"

text \<open>\<open>cast\<close> is the text of a value of the file, empty when it has none.\<close>

definition GetString ::
    "('v \<Rightarrow> string) \<Rightarrow> (string \<rightharpoonup> string) \<Rightarrow> (string \<Rightarrow> string) \<Rightarrow> 'v Viper \<Rightarrow> string \<Rightarrow> string" where
  "GetString cast given env v key =
     (case Viper_find given env v (ToLower key) of
        None \<Rightarrow> [] | Some (Text t) \<Rightarrow> t | Some (Value x) \<Rightarrow> cast x)"

text \<open>\<open>decode\<close> fills a value of Go from one of the file; without any, the value stays as it was.\<close>

definition UnmarshalKey ::
    "('v setting \<Rightarrow> 'a res) \<Rightarrow> (string \<rightharpoonup> string) \<Rightarrow> (string \<Rightarrow> string) \<Rightarrow> 'v Viper \<Rightarrow> string \<Rightarrow> 'a \<Rightarrow> 'a res" where
  "UnmarshalKey decode given env v key x =
     (case Viper_find given env v (ToLower key) of None \<Rightarrow> Ok x | Some y \<Rightarrow> decode y)"

section \<open>The file\<close>

definition SupportedExts :: "string list" where
  "SupportedExts = [''json'', ''toml'', ''yaml'', ''yml'', ''properties'', ''props'', ''prop'', ''hcl'']"

definition searchInPath :: "(string \<Rightarrow> bool) \<Rightarrow> string \<Rightarrow> string \<Rightarrow> string option" where
  "searchInPath exists dir name =
     List.find exists (map (\<lambda>ext. dir @ ''/'' @ name @ ''.'' @ ext) SupportedExts)"

definition findConfigFile :: "(string \<Rightarrow> bool) \<Rightarrow> string list \<Rightarrow> string \<Rightarrow> string option" where
  "findConfigFile exists paths name = first_some (map (\<lambda>dir. searchInPath exists dir name) paths)"

text \<open>A file that is read gives its values; it may be that it cannot be opened or read, and it may be
  that what it holds is not YAML.\<close>

datatype 'v config_file = Parsed "string \<rightharpoonup> 'v" | PathError | ParseError

definition ReadInConfig ::
    "(string \<Rightarrow> bool) \<Rightarrow> (string \<Rightarrow> 'v config_file) \<Rightarrow> string list \<Rightarrow> string \<Rightarrow> 'v config_file option" where
  "ReadInConfig exists content paths name = map_option content (findConfigFile exists paths name)"

section \<open>The settings of the program\<close>

text \<open>
  What \<open>NewRootCommand\<close> and \<open>newServerCommand\<close> do with the library; the flags they look up are those
  they have just registered. No file, and one that cannot be read,
  are only a message for debugging; one that is not understood ends the program (\<open>None\<close>). \<open>cwd\<close> and
  \<open>home\<close> are the directories \<^verbatim>\<open>.\<close> and \<^verbatim>\<open>$HOME/.dim\<close> stand for.
\<close>

definition root_settings ::
    "(string \<Rightarrow> bool) \<Rightarrow> (string \<Rightarrow> 'v config_file) \<Rightarrow> string \<Rightarrow> string \<Rightarrow> 'v Viper option" where
  "root_settings exists content cwd home =
     (let v = SetEnvKeyReplacer (map (\<lambda>c. if c = CHR ''-'' then CHR ''_'' else c)) Viper_New;
          v = BindPFlag ''registry-url'' (the (Lookup ''registry-url'' rootFlags)) v;
          v = BindPFlag ''registry-user'' (the (Lookup ''registry-user'' rootFlags)) v;
          v = BindPFlag ''registry-password'' (the (Lookup ''registry-password'' rootFlags)) v;
          v = BindEnv ''registry-url'' v;
          v = BindEnv ''registry-user'' v;
          v = BindEnv ''registry-password'' v
      in (case ReadInConfig exists content [cwd, home] ''dim'' of
            None \<Rightarrow> Some v
          | Some PathError \<Rightarrow> Some v
          | Some ParseError \<Rightarrow> None
          | Some (Parsed c) \<Rightarrow> Some (v\<lparr>vp_config := c\<rparr>)))"

definition server_settings :: "'v Viper \<Rightarrow> 'v Viper" where
  "server_settings v =
     (let fs = cm_Flags serverCommand;
          v = BindPFlag ''ssl-cert-file'' (the (Lookup ''ssl-cert-file'' fs)) v
      in BindPFlag ''ssl-key-file'' (the (Lookup ''ssl-key-file'' fs)) v)"

definition settings ::
    "(string \<Rightarrow> bool) \<Rightarrow> (string \<Rightarrow> 'v config_file) \<Rightarrow> string \<Rightarrow> string \<Rightarrow> 'v Viper option" where
  "settings exists content cwd home = map_option server_settings (root_settings exists content cwd home)"

text \<open>How much is logged: an unknown word leaves the level as it is.\<close>

datatype Level = DebugLevel | InfoLevel | WarnLevel | ErrorLevel | FatalLevel

definition PreRun_level :: "string \<Rightarrow> Level \<Rightarrow> Level" where
  "PreRun_level logLevel l =
     (if logLevel = ''debug'' then DebugLevel
      else if logLevel = ''info'' then InfoLevel
      else if logLevel = ''warn'' then WarnLevel
      else if logLevel = ''error'' then ErrorLevel
      else if logLevel = ''fatal'' then FatalLevel
      else l)"

text \<open>
  \<open>dim server\<close>, from the settings to the start: the values of the configuration are read again whenever
  they are needed. The result is \<open>None\<close> when the program ends before the command is run.
\<close>

definition server_command ::
    "(string \<Rightarrow> bool) \<Rightarrow> (string \<Rightarrow> 'v config_file) \<Rightarrow> string \<Rightarrow> string \<Rightarrow> ('v \<Rightarrow> string) \<Rightarrow>
     ('v setting \<Rightarrow> 't Hook list res) \<Rightarrow> ('v setting \<Rightarrow> Authorization list res) \<Rightarrow>
     (string \<rightharpoonup> string) \<Rightarrow> (string \<Rightarrow> string) \<Rightarrow> bool \<Rightarrow>
     ('t Hook list res \<Rightarrow> Authorization list res \<Rightarrow> globals \<Rightarrow> server_flags \<Rightarrow> 'r) \<Rightarrow> server_flags \<Rightarrow> 'r option" where
  "server_command exists content cwd home cast hooks auths given env insecure run fl =
     map_option (\<lambda>v.
       (let viper = GetString cast given env v
        in run (UnmarshalKey hooks given env v ''index.hooks'' []) (UnmarshalKey auths given env v ''server.security'' [])
             (PersistentPreRun viper insecure) (server_PreRun viper fl)))
       (settings exists content cwd home)"

section \<open>Which source decides\<close>

definition setting_of ::
    "('v \<Rightarrow> string) \<Rightarrow> (string \<rightharpoonup> string) \<Rightarrow> (string \<Rightarrow> string) \<Rightarrow> (string \<rightharpoonup> 'v) \<Rightarrow> string \<Rightarrow> string option \<Rightarrow> string" where
  "setting_of cast given env file name var =
     (case given name of Some t \<Rightarrow> t
      | None \<Rightarrow> (if var \<noteq> None \<and> env (the var) \<noteq> [] then env (the var)
                 else (case file name of Some x \<Rightarrow> cast x | None \<Rightarrow> [])))"

definition file_values :: "'v config_file option \<Rightarrow> string \<rightharpoonup> 'v" where
  "file_values r = (case r of Some (Parsed c) \<Rightarrow> c | _ \<Rightarrow> Map.empty)"

lemma bound_keys:
  "ToLower ''registry-url'' = ''registry-url''" "ToLower ''registry-user'' = ''registry-user''"
  "ToLower ''registry-password'' = ''registry-password''" "ToLower ''ssl-cert-file'' = ''ssl-cert-file''"
  "ToLower ''ssl-key-file'' = ''ssl-key-file''" "ToLower ''index.hooks'' = ''index.hooks''"
  "ToLower ''server.security'' = ''server.security''"
  by (simp_all add: ToLower_def lower_char_def less_eq_char_def)

lemma bound_variables:
  "ToUpper ''registry-url'' = ''REGISTRY-URL''" "ToUpper ''registry-user'' = ''REGISTRY-USER''"
  "ToUpper ''registry-password'' = ''REGISTRY-PASSWORD''"
  by code_simp+

lemma bound_flags:
  "Lookup ''registry-url'' rootFlags = Some \<lparr>pf_var = None, pf_name = ''registry-url'', pf_short = [], pf_default = FString []\<rparr>"
  "Lookup ''registry-user'' rootFlags = Some \<lparr>pf_var = None, pf_name = ''registry-user'', pf_short = [], pf_default = FString []\<rparr>"
  "Lookup ''registry-password'' rootFlags = Some \<lparr>pf_var = None, pf_name = ''registry-password'', pf_short = [], pf_default = FString []\<rparr>"
  "Lookup ''ssl-cert-file'' (cm_Flags serverCommand) = Some \<lparr>pf_var = None, pf_name = ''ssl-cert-file'', pf_short = [], pf_default = FString []\<rparr>"
  "Lookup ''ssl-key-file'' (cm_Flags serverCommand) = Some \<lparr>pf_var = None, pf_name = ''ssl-key-file'', pf_short = [], pf_default = FString []\<rparr>"
  by code_simp+

text \<open>What the library knows in the end.\<close>

definition bound_to :: "(string \<rightharpoonup> 'v) \<Rightarrow> 'v Viper" where
  "bound_to c =
     \<lparr>vp_pflags = [''registry-url'' \<mapsto> \<lparr>pf_var = None, pf_name = ''registry-url'', pf_short = [], pf_default = FString []\<rparr>,
        ''registry-user'' \<mapsto> \<lparr>pf_var = None, pf_name = ''registry-user'', pf_short = [], pf_default = FString []\<rparr>,
        ''registry-password'' \<mapsto> \<lparr>pf_var = None, pf_name = ''registry-password'', pf_short = [], pf_default = FString []\<rparr>,
        ''ssl-cert-file'' \<mapsto> \<lparr>pf_var = None, pf_name = ''ssl-cert-file'', pf_short = [], pf_default = FString []\<rparr>,
        ''ssl-key-file'' \<mapsto> \<lparr>pf_var = None, pf_name = ''ssl-key-file'', pf_short = [], pf_default = FString []\<rparr>],
      vp_env = [''registry-url'' \<mapsto> ''REGISTRY-URL'', ''registry-user'' \<mapsto> ''REGISTRY-USER'',
        ''registry-password'' \<mapsto> ''REGISTRY-PASSWORD''],
      vp_envKeyReplacer = Some (map (\<lambda>c. if c = CHR ''-'' then CHR ''_'' else c)), vp_config = c\<rparr>"

lemma settings_eq:
  "settings exists content cwd home =
     (if ReadInConfig exists content [cwd, home] ''dim'' = Some ParseError then None
      else Some (bound_to (file_values (ReadInConfig exists content [cwd, home] ''dim''))))"
  by (simp add: settings_def root_settings_def server_settings_def BindPFlag_def BindEnv_def SetEnvKeyReplacer_def
      Viper_New_def bound_keys bound_variables bound_flags bound_to_def file_values_def Let_def split: option.split config_file.split)

lemma bound_values:
  "GetString cast given env (bound_to c) ''registry-url'' = setting_of cast given env c ''registry-url'' (Some ''REGISTRY_URL'')"
  "GetString cast given env (bound_to c) ''registry-user'' = setting_of cast given env c ''registry-user'' (Some ''REGISTRY_USER'')"
  "GetString cast given env (bound_to c) ''registry-password'' = setting_of cast given env c ''registry-password'' (Some ''REGISTRY_PASSWORD'')"
  "GetString cast given env (bound_to c) ''ssl-cert-file'' = setting_of cast given env c ''ssl-cert-file'' None"
  "GetString cast given env (bound_to c) ''ssl-key-file'' = setting_of cast given env c ''ssl-key-file'' None"
  by (simp_all add: GetString_def bound_keys Viper_find_def bound_to_def getEnv_def ValueString_def setting_of_def
      split: option.splits)

lemma file_only:
  "UnmarshalKey decode given env (bound_to c) ''index.hooks'' x = (case c ''index.hooks'' of None \<Rightarrow> Ok x | Some y \<Rightarrow> decode (Value y))"
  "UnmarshalKey decode given env (bound_to c) ''server.security'' x = (case c ''server.security'' of None \<Rightarrow> Ok x | Some y \<Rightarrow> decode (Value y))"
  by (simp_all add: UnmarshalKey_def bound_keys Viper_find_def bound_to_def split: option.split)


section \<open>The rules of the file\<close>

text \<open>A file of the current directory hides the one of the home directory.\<close>

lemma current_directory_first:
  "searchInPath exists cwd name = Some f \<Longrightarrow> findConfigFile exists [cwd, home] name = Some f"
  by (simp add: findConfigFile_def)

text \<open>The rules a server runs with are those of the file that was read; without any there, there are none.\<close>

lemma server_rules:
  assumes "server_command exists content cwd home cast hooks auths given env insecure
      (\<lambda>hks aus. runServer join now url_Parse parse hks compile aus registry_New index_New) fl = Some (Some (started, Ok run))"
  shows "(case file_values (ReadInConfig exists content [cwd, home] ''dim'') ''server.security'' of
       None \<Rightarrow> sc_Authorizations (rs_config run) = []
     | Some x \<Rightarrow> \<exists>rules. auths (Value x) = Ok rules \<and>
         list_all2 (\<lambda>a a'. \<exists>e. a' = a\<lparr>au_regexp := Some e\<rparr>) rules (sc_Authorizations (rs_config run)))"
proof -
  let ?c = "file_values (ReadInConfig exists content [cwd, home] ''dim'')"
  let ?auths = "case ?c ''server.security'' of None \<Rightarrow> Ok [] | Some x \<Rightarrow> auths (Value x)"
  from assms obtain hks g fl' where
    "runServer join now url_Parse parse hks compile ?auths registry_New index_New g fl' = Some (started, Ok run)"
    by (auto simp: server_command_def settings_eq file_only Let_def split: if_splits)
  from readServerConfig_Ok [OF runServer_Ok(1) [OF this]] show ?thesis
    by (auto split: option.splits)
qed

text \<open>
  C38: a file that cannot be read opens the server. When \<^verbatim>\<open>dim.yml\<close> exists and cannot be read, for
  instance because another user owns it, the program goes on as if there were none: a server that
  starts has no rules and lets every request through, whatever the file says.
\<close>

theorem unreadable_config_opens:
  assumes "findConfigFile exists [cwd, home] ''dim'' = Some f" and "content f = PathError"
    and "server_command exists content cwd home cast hooks auths given env insecure
      (\<lambda>hks aus. runServer join now url_Parse parse hks compile aus registry_New index_New) fl = Some (Some (started, Ok run))"
  shows "sc_Authorizations (rs_config run) = [] \<and> allowed (sc_Authorizations (rs_config run)) r"
  using server_rules [OF assms(3)] assms(1,2) by (simp add: ReadInConfig_def file_values_def allowed_def)

theorem unreadable_config_opens_witness:
  "\<exists>run. server_command (\<lambda>f. f = ''/dim.yml'') (\<lambda>f. PathError :: string config_file) [] ''/root/.dim'' (\<lambda>x. x)
       (\<lambda>x. Ok []) (\<lambda>x. Err ''unused'') [''registry-url'' \<mapsto> ''hub''] (\<lambda>_. []) False
       (\<lambda>hks aus. runServer (\<lambda>a b. a @ ''/'' @ b) ''now'' (\<lambda>u. Ok \<lparr>url_Scheme = ''https'', url_Host = ''hub'', url_Path = []\<rparr>)
          (\<lambda>name fm action. Ok action) hks (\<lambda>p. Ok (\<lambda>s. True)) aus (\<lambda>a u. Some (Ok u)) (\<lambda>cfg c. Ok c))
       \<lparr>sv_port = '':6000'', sv_indexDir = ''idx'', sv_sslCertFile = [], sv_sslKeyFile = []\<rparr> = Some (Some (Some ''https://hub'', Ok run)) \<and>
     allowed (sc_Authorizations (rs_config run)) sample_request"
proof -
  let ?run = "\<lambda>hks aus. runServer (\<lambda>a b. a @ ''/'' @ b) ''now'' (\<lambda>u. Ok \<lparr>url_Scheme = ''https'', url_Host = ''hub'', url_Path = []\<rparr>)
          (\<lambda>name fm action. Ok action) hks (\<lambda>p. Ok (\<lambda>s. True)) aus (\<lambda>a u. Some (Ok u)) (\<lambda>cfg c. Ok c)"
  let ?fl = "\<lparr>sv_port = '':6000'', sv_indexDir = ''idx'', sv_sslCertFile = [], sv_sslKeyFile = []\<rparr>"
  let ?cmd = "server_command (\<lambda>f. f = ''/dim.yml'') (\<lambda>f. PathError :: string config_file) [] ''/root/.dim'' (\<lambda>x. x)
       (\<lambda>x. Ok []) (\<lambda>x. Err ''unused'') [''registry-url'' \<mapsto> ''hub''] (\<lambda>_. []) False ?run ?fl"
  have there: "findConfigFile (\<lambda>f. f = ''/dim.yml'') [[], ''/root/.dim''] ''dim'' = Some ''/dim.yml''" by code_simp
  have "distinct (map fst hookFunctions)" by (simp add: hookFunctions_def)
  from readConfigHooks_eq [OF this, of "\<lambda>name fm action. Ok action" "Ok []"]
  have "res_map cfg_Hooks (readConfigHooks (\<lambda>name fm action. Ok action) (Ok []) hookFunctions) = Ok []" by simp
  then obtain cfg where cfg: "readConfigHooks (\<lambda>name fm action. Ok action) (Ok []) hookFunctions = Ok cfg"
    unfolding res_map_Ok_iff by blast
  have g: "PersistentPreRun (GetString (\<lambda>x. x) [''registry-url'' \<mapsto> ''hub''] (\<lambda>_. []) (bound_to Map.empty)) False =
      \<lparr>g_registryURL = ''https://hub'', g_username = [], g_password = [], g_insecure = False\<rparr>"
    and fl: "server_PreRun (GetString (\<lambda>x. x) [''registry-url'' \<mapsto> ''hub''] (\<lambda>_. []) (bound_to Map.empty)) ?fl = ?fl"
    by (simp_all add: PersistentPreRun_def server_PreRun_def bound_values setting_of_def BuildURL_def HasPrefix_def)
  obtain run where run: "?cmd = Some (Some (Some ''https://hub'', Ok run))"
    by (simp add: server_command_def settings_eq ReadInConfig_def there file_values_def file_only g fl Let_def)
      (simp add: runServer_def auth_of_def cfg readServerConfig_def)
  from unreadable_config_opens [OF there refl run, of sample_request] run show ?thesis by blast
qed

end
