(* ===== verification/CommandLine.thy ===== *)
theory CommandLine
  imports Settings
begin

text \<open>
  The command line (\<open>main.go\<close>, \<open>cmd/root.go\<close>): finding the command and parsing its flags, as the libraries
  cobra and pflag do it for the commands of the program, up to the function that is run.
\<close>

section \<open>Values of flags\<close>

definition ParseBool :: "string \<Rightarrow> bool option" where
  "ParseBool s =
     (if s \<in> set [''1'', ''t'', ''T'', ''true'', ''TRUE'', ''True''] then Some True
      else if s \<in> set [''0'', ''f'', ''F'', ''false'', ''FALSE'', ''False''] then Some False
      else None)"

definition digit_of :: "char \<Rightarrow> nat option" where
  "digit_of c =
     (if CHR ''0'' \<le> c \<and> c \<le> CHR ''9'' then Some (of_char c - of_char (CHR ''0''))
      else if CHR ''a'' \<le> c \<and> c \<le> CHR ''z'' then Some (of_char c - of_char (CHR ''a'') + 10)
      else if CHR ''A'' \<le> c \<and> c \<le> CHR ''Z'' then Some (of_char c - of_char (CHR ''A'') + 10)
      else None)"

fun digits_in :: "nat \<Rightarrow> string \<Rightarrow> nat \<Rightarrow> nat option" where
  "digits_in base [] n = Some n"
| "digits_in base (c # cs) n =
     (case digit_of c of Some d \<Rightarrow> if d < base then digits_in base cs (n * base + d) else None | None \<Rightarrow> None)"

text \<open>\<open>strconv.ParseInt\<close> with base 0, which takes the base from the text, and 64 bits.\<close>

definition ParseNat :: "string \<Rightarrow> nat option" where
  "ParseNat s =
     (if s = [] then None
      else if HasPrefix s ''0x'' \<or> HasPrefix s ''0X'' then (if length s = 2 then None else digits_in 16 (drop 2 s) 0)
      else digits_in (if hd s = CHR ''0'' then 8 else 10) s 0)"

definition ParseInt :: "string \<Rightarrow> int option" where
  "ParseInt s =
     (let negative = HasPrefix s ''-''; body = (if HasPrefix s ''-'' \<or> HasPrefix s ''+'' then tl s else s)
      in (case ParseNat body of
            None \<Rightarrow> None
          | Some n \<Rightarrow>
              (let i = (if negative then - int n else int n)
               in if - (2 ^ 63) \<le> i \<and> i < 2 ^ 63 then Some i else None)))"

fun set_value :: "flag_value \<Rightarrow> string \<Rightarrow> flag_value option" where
  "set_value (FBool _) s = map_option FBool (ParseBool s)"
| "set_value (FInt _) s = map_option FInt (ParseInt s)"
| "set_value (FString _) s = Some (FString s)"

section \<open>Parsing flags\<close>

datatype flag_error =
    HelpWanted
  | BadFlagSyntax string
  | UnknownFlag string
  | UnknownShorthand char string
  | NeedsArgument string
  | InvalidArgument string string

text \<open>The flags given with their texts, the variables they are written to, and the other arguments.\<close>

record FlagSet =
  ps_given :: "string \<rightharpoonup> string"
  ps_vars :: "string \<rightharpoonup> flag_value"
  ps_args :: "string list"

definition setFlag :: "flag \<Rightarrow> string \<Rightarrow> string \<Rightarrow> FlagSet \<Rightarrow> flag_error + FlagSet" where
  "setFlag f value origArg p =
     (case set_value (pf_default f) value of
        None \<Rightarrow> Inl (InvalidArgument value origArg)
      | Some x \<Rightarrow> Inr (p\<lparr>ps_given := (ps_given p)(pf_name f \<mapsto> value),
          ps_vars := (case pf_var f of None \<Rightarrow> ps_vars p | Some v \<Rightarrow> (ps_vars p)(v \<mapsto> x))\<rparr>))"

text \<open>A flag that is true or false needs no argument.\<close>

definition NoOptDefVal :: "flag \<Rightarrow> string" where
  "NoOptDefVal f = (case pf_default f of FBool _ \<Rightarrow> ''true'' | _ \<Rightarrow> [])"

definition shorthand :: "char \<Rightarrow> flag list \<Rightarrow> flag option" where
  "shorthand c fs = List.find (\<lambda>f. pf_short f = [c]) fs"

definition with_args :: "string list \<Rightarrow> flag_error + FlagSet \<Rightarrow> flag_error + string list \<times> FlagSet" where
  "with_args args r = (case r of Inl e \<Rightarrow> Inl e | Inr p \<Rightarrow> Inr (args, p))"

definition parseLongArg :: "flag list \<Rightarrow> string \<Rightarrow> string list \<Rightarrow> FlagSet \<Rightarrow> flag_error + string list \<times> FlagSet" where
  "parseLongArg fs s args p =
     (let name = drop 2 s in
      if name = [] \<or> hd name = CHR ''-'' \<or> hd name = CHR ''='' then Inl (BadFlagSyntax s)
      else
        (let key = takeWhile (\<lambda>c. c \<noteq> CHR ''='') name in
         (case Lookup key fs of
            None \<Rightarrow> if key = ''help'' then Inl HelpWanted else Inl (UnknownFlag key)
          | Some f \<Rightarrow>
              (if key \<noteq> name then with_args args (setFlag f (drop (Suc (length key)) name) s p)
               else if NoOptDefVal f \<noteq> [] then with_args args (setFlag f (NoOptDefVal f) s p)
               else (case args of
                       [] \<Rightarrow> Inl (NeedsArgument s)
                     | a # args' \<Rightarrow> with_args args' (setFlag f a s p))))))"

text \<open>A word of letters: a text that begins with \<^verbatim>\<open>test.\<close> drops everything that follows.\<close>

fun parseShortArg :: "flag list \<Rightarrow> string \<Rightarrow> string list \<Rightarrow> FlagSet \<Rightarrow> flag_error + string list \<times> FlagSet" where
  "parseShortArg fs [] args p = Inr (args, p)"
| "parseShortArg fs (c # cs) args p =
     (if HasPrefix (c # cs) ''test.'' then Inr ([], p)
      else
        (case shorthand c fs of
           None \<Rightarrow> if c = CHR ''h'' then Inl HelpWanted else Inl (UnknownShorthand c (c # cs))
         | Some f \<Rightarrow>
             (if length cs > 1 \<and> hd cs = CHR ''='' then with_args args (setFlag f (tl cs) (c # cs) p)
              else if NoOptDefVal f \<noteq> [] then
                (case setFlag f (NoOptDefVal f) (c # cs) p of
                   Inl e \<Rightarrow> Inl e | Inr p' \<Rightarrow> parseShortArg fs cs args p')
              else if cs \<noteq> [] then with_args args (setFlag f cs (c # cs) p)
              else (case args of
                      [] \<Rightarrow> Inl (NeedsArgument (c # cs))
                    | a # args' \<Rightarrow> with_args args' (setFlag f a (c # cs) p)))))"

lemma parseLongArg_length: "parseLongArg fs s args p = Inr (args', p') \<Longrightarrow> length args' \<le> length args"
  by (auto simp: parseLongArg_def with_args_def Let_def split: if_splits option.splits list.splits sum.splits)

lemma parseShortArg_length: "parseShortArg fs s args p = Inr (args', p') \<Longrightarrow> length args' \<le> length args"
  by (induction fs s args p rule: parseShortArg.induct)
    (auto simp: with_args_def split: if_splits option.splits list.splits sum.splits)

function parseArgs :: "flag list \<Rightarrow> string list \<Rightarrow> FlagSet \<Rightarrow> flag_error + FlagSet" where
  "parseArgs fs [] p = Inr p"
| "parseArgs fs (s # args) p =
     (if s = [] \<or> hd s \<noteq> CHR ''-'' \<or> length s = 1 then parseArgs fs args (p\<lparr>ps_args := ps_args p @ [s]\<rparr>)
      else if s = ''--'' then Inr (p\<lparr>ps_args := ps_args p @ args\<rparr>)
      else
        (case (if s ! 1 = CHR ''-'' then parseLongArg fs s args p else parseShortArg fs (tl s) args p) of
           Inl e \<Rightarrow> Inl e
         | Inr (args', p') \<Rightarrow> parseArgs fs args' p'))"
  by pat_completeness auto
termination
  by (relation "measure (\<lambda>(fs, args, p). length args)")
    (auto dest!: parseLongArg_length parseShortArg_length split: if_splits)

section \<open>Finding the command\<close>

definition Contains :: "string \<Rightarrow> string \<Rightarrow> bool" where
  "Contains s t \<longleftrightarrow> list_ex (\<lambda>i. HasPrefix (drop i s) t) [0..<Suc (length s)]"

definition is_bool :: "flag \<Rightarrow> bool" where
  "is_bool f = (case pf_default f of FBool _ \<Rightarrow> True | _ \<Rightarrow> False)"

definition isBooleanFlag :: "string \<Rightarrow> flag list \<Rightarrow> bool" where
  "isBooleanFlag name fs = (case Lookup name fs of None \<Rightarrow> False | Some f \<Rightarrow> is_bool f)"

definition isBooleanShortFlag :: "string \<Rightarrow> flag list \<Rightarrow> bool" where
  "isBooleanShortFlag name fs \<longleftrightarrow> list_ex (\<lambda>f. pf_short f = name \<and> is_bool f) fs"

text \<open>The words that are neither flags nor, as far as the library can tell, their arguments. A double
  quote that begins a word hides what follows up to the next that ends one.\<close>

definition double_quote :: string where "double_quote = [CHR 0x22]"

definition backslash :: string where "backslash = [CHR 0x5C]"

fun strip_loop :: "flag list \<Rightarrow> bool \<Rightarrow> bool \<Rightarrow> string list \<Rightarrow> string list" where
  "strip_loop fs inQuote inFlag [] = []"
| "strip_loop fs inQuote inFlag (y # ys) =
     (let closed = HasSuffix y double_quote \<and> \<not> HasSuffix y (backslash @ double_quote);
          next = (\<lambda>q f. strip_loop fs (q \<and> \<not> closed) f ys)
      in if inQuote then next True inFlag
         else if HasPrefix y double_quote then next True inFlag
         else if Contains y (''='' @ double_quote) then next True inFlag
         else if HasPrefix y ''--'' \<and> \<not> Contains y ''='' then next False (\<not> isBooleanFlag (drop 2 y) fs)
         else if HasPrefix y ''-'' \<and> \<not> Contains y ''='' \<and> length y = 2 \<and> \<not> isBooleanShortFlag (tl y) fs then next False True
         else if inFlag then next False False
         else if y = [] then next False inFlag
         else if \<not> HasPrefix y ''-'' then y # next False False
         else next False inFlag)"

definition stripFlags :: "flag list \<Rightarrow> string list \<Rightarrow> string list" where
  "stripFlags fs args = strip_loop fs False False args"

text \<open>The command cobra adds.\<close>

definition helpCommand :: Command where
  "helpCommand = \<lparr>cm_Use = ''help [command]'', cm_Hidden = False, cm_Short = ''Help about any command'',
     cm_Long = ''Help provides help for any command in the application.'' @ newline @
        ''    Simply type dim help [path to command] for full details.'',
     cm_Example = [], cm_Run = RunHelp, cm_Flags = []\<rparr>"

text \<open>The command and the words left for it, \<open>None\<close> standing for the root; no command has a command of
  its own.\<close>

definition Find :: "string list \<Rightarrow> string + Command option \<times> string list" where
  "Find args =
     (case stripFlags rootFlags args of
        [] \<Rightarrow> Inr (None, args)
      | nextSubCmd # _ \<Rightarrow>
          (case List.find (\<lambda>cmd. Name cmd = nextSubCmd) (commands @ [helpCommand]) of
             Some cmd \<Rightarrow> Inr (Some cmd, remove1 nextSubCmd args)
           | None \<Rightarrow> Inl nextSubCmd))"

section \<open>Running it\<close>

datatype outcome =
    UnknownCommand string
  | Help "Command option"
  | FlagError flag_error
  | Run Command FlagSet

text \<open>The flags a command has in the end, and what their variables hold before they are parsed.\<close>

definition all_flags :: "Command \<Rightarrow> flag list res" where
  "all_flags cmd = res_bind (mergePersistentFlags rootFlags (cm_Flags cmd)) (AddFlag help_flag)"

definition no_flags :: "(string \<rightharpoonup> flag_value) \<Rightarrow> FlagSet" where
  "no_flags vars = \<lparr>ps_given = Map.empty, ps_vars = vars, ps_args = []\<rparr>"

definition run_flags :: "Command option \<Rightarrow> flag list \<Rightarrow> (string \<rightharpoonup> flag_value) \<Rightarrow> string list \<Rightarrow> outcome" where
  "run_flags cmd fs vars args =
     (case parseArgs fs args (no_flags vars) of
        Inl HelpWanted \<Rightarrow> Help cmd
      | Inl e \<Rightarrow> FlagError e
      | Inr p \<Rightarrow>
          (if ps_given p ''help'' \<noteq> None \<and> ParseBool (the (ps_given p ''help'')) = Some True then Help cmd
           else (case cmd of None \<Rightarrow> Help cmd | Some c \<Rightarrow> Run c p)))"

definition dispatch :: "string list \<Rightarrow> outcome res" where
  "dispatch args =
     (case Find args of
        Inl name \<Rightarrow> Ok (UnknownCommand name)
      | Inr (None, args') \<Rightarrow>
          res_map (\<lambda>fs. run_flags None fs final_vars args') (AddFlag help_flag rootFlags)
      | Inr (Some cmd, args') \<Rightarrow>
          res_map (\<lambda>fs. run_flags (Some cmd) fs final_vars args') (all_flags cmd))"

text \<open>\<open>run\<close> are the functions of the commands, \<open>help\<close> prints help, \<open>message\<close> the texts of the errors met before a
  command is run; the usage is not printed after an error.\<close>

definition ExecuteC ::
    "(outcome \<Rightarrow> string) \<Rightarrow> (Command option \<Rightarrow> 'w \<Rightarrow> 'w) \<Rightarrow> (string \<Rightarrow> 'w \<Rightarrow> 'w) \<Rightarrow> (run \<Rightarrow> FlagSet \<Rightarrow> 'w \<Rightarrow> 'w \<times> unit res) \<Rightarrow>
     string list \<Rightarrow> 'w \<Rightarrow> 'w \<times> unit res" where
  "ExecuteC message help println run args w =
     (let fails = (\<lambda>e w. (println (''Error: '' @ e) w, Err e)) in
      case dispatch (tl args) of
        Panic \<Rightarrow> (w, Panic)
      | Err e \<Rightarrow> fails e w
      | Ok (Help cmd) \<Rightarrow> (help cmd w, Ok ())
      | Ok (Run cmd p) \<Rightarrow> (case run (cm_Run cmd) p w of (w', Err e) \<Rightarrow> fails e w' | (w', r) \<Rightarrow> (w', r))
      | Ok (UnknownCommand name) \<Rightarrow>
          (let e = message (UnknownCommand name)
           in (println (''Run '' @ apostrophe @ ''dim --help'' @ apostrophe @ '' for usage.'') (fst (fails e w)), Err e))
      | Ok (FlagError e) \<Rightarrow> fails (message (FlagError e)) w)"

section \<open>What is written is what is run with\<close>

text \<open>A command line written out: every flag with its text, two dashes, the other arguments.\<close>

definition written :: "(string \<times> string) list \<Rightarrow> string list \<Rightarrow> string list" where
  "written gs args = map (\<lambda>(n, t). ''--'' @ n @ ''='' @ t) gs @ ''--'' # args"

definition acceptable :: "flag list \<Rightarrow> string \<times> string \<Rightarrow> bool" where
  "acceptable fs g \<longleftrightarrow> fst g \<noteq> [] \<and> hd (fst g) \<noteq> CHR ''-'' \<and> CHR ''='' \<notin> set (fst g) \<and>
     (case Lookup (fst g) fs of None \<Rightarrow> False | Some f \<Rightarrow> set_value (pf_default f) (snd g) \<noteq> None)"

definition assign :: "flag list \<Rightarrow> string \<times> string \<Rightarrow> FlagSet \<Rightarrow> FlagSet" where
  "assign fs g p =
     (let f = the (Lookup (fst g) fs) in
      p\<lparr>ps_given := (ps_given p)(pf_name f \<mapsto> snd g),
        ps_vars := (case pf_var f of None \<Rightarrow> ps_vars p | Some v \<Rightarrow> (ps_vars p)(v := set_value (pf_default f) (snd g)))\<rparr>)"

lemma Lookup_Some: "Lookup n fs = Some f \<Longrightarrow> f \<in> set fs \<and> pf_name f = n"
  by (auto simp: Lookup_def find_Some_iff)

lemma acceptableE:
  assumes "acceptable fs (n, t)"
  obtains f x where "Lookup n fs = Some f" "set_value (pf_default f) t = Some x" "f \<in> set fs" "pf_name f = n"
    "n \<noteq> []" "hd n \<noteq> CHR ''-''" "CHR ''='' \<notin> set n"
  using assms Lookup_Some [of n fs] by (auto simp: acceptable_def split: option.splits)

lemma parseLongArg_written:
  assumes "acceptable fs (n, t)"
  shows "parseLongArg fs (''--'' @ n @ ''='' @ t) args p = Inr (args, assign fs (n, t) p)"
proof -
  obtain f x where f: "Lookup n fs = Some f" "set_value (pf_default f) t = Some x" "pf_name f = n"
    and n: "n \<noteq> []" "hd n \<noteq> CHR ''-''" "CHR ''='' \<notin> set n"
    using assms by (rule acceptableE)
  have "takeWhile (\<lambda>c. c \<noteq> CHR ''='') (n @ CHR ''='' # t) = n"
    using n(3) by (induction n) auto
  moreover have "hd n \<noteq> CHR ''=''" using n(1,3) by (metis hd_in_set)
  ultimately show ?thesis
    using f n by (simp add: parseLongArg_def assign_def setFlag_def with_args_def Let_def split: option.split)
qed

lemma parseArgs_written:
  "list_all (acceptable fs) gs \<Longrightarrow>
   parseArgs fs (written gs args) p = Inr ((fold (assign fs) gs p)\<lparr>ps_args := ps_args p @ args\<rparr>)"
proof (induction gs arbitrary: p)
  case Nil
  then show ?case by (simp add: written_def)
next
  case (Cons g gs)
  obtain n t where g: "g = (n, t)" by fastforce
  have "parseArgs fs (written (g # gs) args) p = parseArgs fs (written gs args) (assign fs g p)"
    using parseLongArg_written [of fs n t "written gs args" p] Cons.prems by (simp add: written_def g)
  moreover have "ps_args (assign fs g p) = ps_args p" by (simp add: assign_def Let_def)
  ultimately show ?case using Cons by simp
qed

text \<open>No two flags share a name, none a variable.\<close>

definition own_names :: "flag list \<Rightarrow> bool" where
  "own_names fs \<longleftrightarrow> list_all (\<lambda>f. list_all (\<lambda>g. pf_name f = pf_name g \<or> pf_var f \<noteq> None \<and> pf_var f = pf_var g \<longrightarrow> f = g) fs) fs"

definition value_given :: "(string \<times> string) list \<Rightarrow> flag \<Rightarrow> flag_value option" where
  "value_given gs f = (case map_of (rev gs) (pf_name f) of None \<Rightarrow> Some (pf_default f) | Some t \<Rightarrow> set_value (pf_default f) t)"

lemma fold_assign:
  assumes own: "own_names fs" and start: "\<forall>f \<in> set fs. \<forall>v. pf_var f = Some v \<longrightarrow> vars v = Some (pf_default f)"
    and gs: "list_all (acceptable fs) gs"
  shows "ps_given (fold (assign fs) gs (no_flags vars)) = map_of (rev gs)"
    and "f \<in> set fs \<Longrightarrow> pf_var f = Some v \<Longrightarrow> ps_vars (fold (assign fs) gs (no_flags vars)) v = value_given gs f"
proof -
  have "ps_given (fold (assign fs) gs (no_flags vars)) = map_of (rev gs) \<and>
    (\<forall>f \<in> set fs. \<forall>v. pf_var f = Some v \<longrightarrow> ps_vars (fold (assign fs) gs (no_flags vars)) v = value_given gs f)"
    using gs
  proof (induction gs rule: rev_induct)
    case Nil
    then show ?case using start by (simp add: no_flags_def value_given_def)
  next
    case (snoc g gs)
    obtain n t where g: "g = (n, t)" by fastforce
    obtain f0 x where f0: "Lookup n fs = Some f0" "f0 \<in> set fs" "pf_name f0 = n"
      using snoc.prems by (auto simp: g elim: acceptableE)
    let ?q = "fold (assign fs) gs (no_flags vars)"
    have IH: "ps_given ?q = map_of (rev gs)" "\<And>f v. f \<in> set fs \<Longrightarrow> pf_var f = Some v \<Longrightarrow> ps_vars ?q v = value_given gs f"
      using snoc by auto
    have "ps_vars (assign fs g ?q) v = value_given (gs @ [g]) f" if f: "f \<in> set fs" "pf_var f = Some v" for f v
    proof (cases "f = f0")
      case True
      then show ?thesis using f f0 by (simp add: assign_def value_given_def g Let_def)
    next
      case False
      with own f f0 have "pf_name f \<noteq> n" "pf_var f0 \<noteq> Some v" by (auto simp: own_names_def list_all_iff)
      then show ?thesis
        using IH(2) [OF f] f0 by (auto simp: assign_def value_given_def g Let_def split: option.split)
    qed
    moreover have "ps_given (assign fs g ?q) = map_of (rev (gs @ [g]))"
      using IH(1) f0 by (simp add: assign_def g Let_def)
    ultimately show ?case by simp
  qed
  then show "ps_given (fold (assign fs) gs (no_flags vars)) = map_of (rev gs)"
    and "f \<in> set fs \<Longrightarrow> pf_var f = Some v \<Longrightarrow> ps_vars (fold (assign fs) gs (no_flags vars)) v = value_given gs f"
    by auto
qed

text \<open>The commands and their flags.\<close>

definition plain_word :: "string \<Rightarrow> bool" where
  "plain_word w \<longleftrightarrow> \<not> HasPrefix w double_quote \<and> \<not> Contains w (''='' @ double_quote) \<and> \<not> HasPrefix w ''-'' \<and> w \<noteq> []"

lemma command_names:
  "map Name commands = [''delete'', ''autocomplete'', ''label'', ''search'', ''server'', ''show'', ''version'', ''hooktest'', ''genpasswd'']"
  by (simp add: commands_def command_defs Name_def)

lemma names_plain: "list_all plain_word (map Name commands)"
  unfolding command_names by code_simp

lemma find_by_name: "distinct (map f xs) \<Longrightarrow> x \<in> set xs \<Longrightarrow> List.find (\<lambda>y. f y = f x) (xs @ ys) = Some x"
  by (induction xs) auto

lemma command_found:
  assumes "c \<in> set commands"
  shows "plain_word (Name c)" "List.find (\<lambda>cmd. Name cmd = Name c) (commands @ [helpCommand]) = Some c"
proof -
  show "plain_word (Name c)" using assms names_plain by (auto simp: list_all_iff)
  have "distinct (map Name commands)" unfolding command_names by simp
  with assms show "List.find (\<lambda>cmd. Name cmd = Name c) (commands @ [helpCommand]) = Some c"
    by (intro find_by_name)
qed

lemma commands_flags:
  "list_all (\<lambda>c. all_flags c = Ok (cm_Flags c @ rootFlags @ [help_flag]) \<and> own_names (cm_Flags c @ rootFlags @ [help_flag])) commands"
  by code_simp

lemma commands_defaults:
  "list_all (\<lambda>c. list_all (\<lambda>f. case pf_var f of None \<Rightarrow> True | Some v \<Rightarrow> final_vars v = Some (pf_default f))
     (cm_Flags c @ rootFlags @ [help_flag])) commands"
  by code_simp

lemma commands_start:
  "c \<in> set commands \<Longrightarrow>
   \<forall>f \<in> set (cm_Flags c @ rootFlags @ [help_flag]). \<forall>v. pf_var f = Some v \<longrightarrow> final_vars v = Some (pf_default f)"
  using commands_defaults unfolding list_all_iff by (metis (mono_tags, lifting) option.simps(5))

lemma HasPrefix_shorter: "HasPrefix w (s @ t) \<Longrightarrow> HasPrefix w s"
  by (auto simp: HasPrefix_def take_add)

lemma Find_command:
  assumes "c \<in> set commands"
  shows "Find (Name c # args) = Inr (Some c, args)"
proof -
  note w = command_found(1) [OF assms] and f = command_found(2) [OF assms]
  have "\<not> HasPrefix (Name c) ''--''"
    using w HasPrefix_shorter [of "Name c" "''-''" "''-''"] by (auto simp: plain_word_def)
  with w have "\<exists>ws. stripFlags rootFlags (Name c # args) = Name c # ws"
    by (simp add: stripFlags_def plain_word_def Let_def)
  with f show ?thesis by (auto simp: Find_def)
qed

text \<open>For every command: the words reach it, with its arguments, and every variable a flag of the command is
  bound to holds the value of the last text given for it, or the default of this very flag.\<close>

lemma dispatch_given:
  assumes "c \<in> set commands" and "list_all (acceptable (cm_Flags c @ rootFlags @ [help_flag])) gs" and "''help'' \<notin> fst ` set gs"
  shows "\<exists>p. dispatch (Name c # written gs args) = Ok (Run c p) \<and> ps_args p = args \<and> ps_given p = map_of (rev gs) \<and>
    (\<forall>f \<in> set (cm_Flags c @ rootFlags @ [help_flag]). \<forall>v. pf_var f = Some v \<longrightarrow> ps_vars p v = value_given gs f)"
proof -
  let ?fs = "cm_Flags c @ rootFlags @ [help_flag]"
  let ?p = "(fold (assign ?fs) gs (no_flags final_vars))\<lparr>ps_args := args\<rparr>"
  from assms(1) commands_flags have fs: "all_flags c = Ok ?fs" "own_names ?fs" by (auto simp: list_all_iff)
  note vals = fold_assign [OF fs(2) commands_start [OF assms(1)] assms(2)]
  have "ps_given ?p ''help'' = None" using assms(3) by (simp add: vals(1) map_of_eq_None_iff)
  moreover have "parseArgs ?fs (written gs args) (no_flags final_vars) = Inr ?p"
    using parseArgs_written [OF assms(2), of args "no_flags final_vars"] by (simp add: no_flags_def)
  ultimately have "dispatch (Name c # written gs args) = Ok (Run c ?p)"
    by (simp add: dispatch_def Find_command [OF assms(1)] fs(1) run_flags_def)
  with vals show ?thesis by (intro exI [of _ ?p]) simp
qed

text \<open>
  C17: from the words of a command line to the function that is run. For every command, flags
  written with their texts in any order and number, then two dashes and the arguments, run exactly
  the function of this command with exactly these arguments; a flag that was given has the last
  text it was given, and every variable a flag of the command is bound to holds the value of that
  text, or the default of this very flag. The program then ends with the code of what was run.
\<close>

theorem main_runs_written:
  assumes "c \<in> set commands" and "list_all (acceptable (cm_Flags c @ rootFlags @ [help_flag])) gs" and "''help'' \<notin> fst ` set gs"
  shows "\<exists>p. ps_args p = args \<and> ps_given p = map_of (rev gs) \<and>
    (\<forall>f \<in> set (cm_Flags c @ rootFlags @ [help_flag]). \<forall>v. pf_var f = Some v \<longrightarrow> ps_vars p v = value_given gs f) \<and>
    dim_main silent_new server_version print (ExecuteC message help println run) version (prog # Name c # written gs args) w =
      (case run (cm_Run c) p w of
         (w', Err e) \<Rightarrow> (println (''Error: '' @ e) w', 1)
       | (w', r) \<Rightarrow> (w', exit_code r))"
proof -
  obtain p where p: "dispatch (Name c # written gs args) = Ok (Run c p)" "ps_args p = args" "ps_given p = map_of (rev gs)"
    and vals: "\<forall>f \<in> set (cm_Flags c @ rootFlags @ [help_flag]). \<forall>v. pf_var f = Some v \<longrightarrow> ps_vars p v = value_given gs f"
    using dispatch_given [OF assms, of args] by (elim exE conjE) (rule that)
  have "written gs args \<noteq> []" by (simp add: written_def)
  then have "dim_main silent_new server_version print (ExecuteC message help println run) version (prog # Name c # written gs args) w =
      (case run (cm_Run c) p w of (w', Err e) \<Rightarrow> (println (''Error: '' @ e) w', 1) | (w', r) \<Rightarrow> (w', exit_code r))"
    by (simp add: dim_main_def ExecuteC_def p(1) Let_def split: prod.split res.split)
  with p vals show ?thesis by (intro exI [of _ p]) simp
qed

text \<open>The removal of two keys from an image, under another tag.\<close>

theorem main_runs_written_witness:
  "\<exists>p :: FlagSet. ps_args p = [''ubuntu'', ''os''] \<and> ps_vars p ''imageFlag'' = Some (FString ''x:1'') \<and>
     ps_vars p ''deleteFlag'' = Some (FBool True) \<and> ps_vars p ''pullFlag'' = Some (FBool False) \<and>
     dim_main (\<lambda>_ _. Panic) (\<lambda>_::nat. Panic) (\<lambda>_ w. w)
       (ExecuteC (\<lambda>_. []) (\<lambda>_ w. w) (\<lambda>m w. w @ [m]) (\<lambda>r p w. (w @ ps_args p, if r = RunLabel then Err ''no daemon'' else Ok ()))) ''1.0''
       (''dim'' # ''label'' # written [(''tag'', ''x:1''), (''delete'', ''true'')] [''ubuntu'', ''os'']) [] =
     ([''ubuntu'', ''os'', ''Error: no daemon''], 1)"
proof -
  let ?gs = "[(''tag'', ''x:1''), (''delete'', ''true'')]" and ?fs = "cm_Flags labelCommand @ rootFlags @ [help_flag]"
  let ?run = "\<lambda>r p w. (w @ ps_args p, if r = RunLabel then Err ''no daemon'' else Ok ())"
  have member: "labelCommand \<in> set commands" by (simp add: commands_def)
  have ok: "list_all (acceptable ?fs) ?gs" by code_simp
  have no_help: "''help'' \<notin> fst ` set ?gs" by simp
  note main = main_runs_written [OF member ok no_help, of "[''ubuntu'', ''os'']" "\<lambda>_ _. Panic" "\<lambda>_::nat. Panic" "\<lambda>_ w. w"
      "\<lambda>_. []" "\<lambda>_ w. w" "\<lambda>m w. w @ [m]" ?run "''1.0''" "''dim''" "[]"]
  from main obtain p :: FlagSet where p: "ps_args p = [''ubuntu'', ''os'']"
    and vals: "\<forall>f \<in> set ?fs. \<forall>v. pf_var f = Some v \<longrightarrow> ps_vars p v = value_given ?gs f"
    and run: "dim_main (\<lambda>_ _. Panic) (\<lambda>_::nat. Panic) (\<lambda>_ w. w) (ExecuteC (\<lambda>_. []) (\<lambda>_ w. w) (\<lambda>m w. w @ [m]) ?run) ''1.0''
        (''dim'' # Name labelCommand # written ?gs [''ubuntu'', ''os'']) [] =
      (case ?run (cm_Run labelCommand) p [] of (w', Err e) \<Rightarrow> (w' @ [''Error: '' @ e], 1) | (w', r) \<Rightarrow> (w', exit_code r))"
    by (elim exE conjE) (rule that, assumption+)
  have flags: "flag_of ''imageFlag'' ''tag'' ''t'' (FString []) \<in> set ?fs"
    "flag_of ''deleteFlag'' ''delete'' ''d'' (FBool False) \<in> set ?fs"
    "flag_of ''pullFlag'' ''pull'' ''p'' (FBool False) \<in> set ?fs"
    by (simp_all add: labelCommand_def labelFlags_def)
  have "ps_vars p ''imageFlag'' = Some (FString ''x:1'')" "ps_vars p ''deleteFlag'' = Some (FBool True)"
    "ps_vars p ''pullFlag'' = Some (FBool False)"
    using vals [rule_format, OF flags(1)] vals [rule_format, OF flags(2)] vals [rule_format, OF flags(3)]
    by (simp_all add: flag_of_def value_given_def ParseBool_def)
  moreover have "Name labelCommand = ''label''" "cm_Run labelCommand = RunLabel" by (simp_all add: labelCommand_def Name_def)
  ultimately show ?thesis using p run by (intro exI [of _ p]) simp
qed

section \<open>Labels, from the words to the daemon\<close>

lemma label_line:
  obtains p where "dispatch (''label'' # written [(''tag'', t)] args) = Ok (Run labelCommand p)" "ps_args p = args"
    "label_flags_of (ps_vars p) = \<lparr>lf_delete = False, lf_image = t, lf_remote = False, lf_override = False, lf_pull = False\<rparr>"
proof -
  let ?gs = "[(''tag'', t)]" and ?fs = "cm_Flags labelCommand @ rootFlags @ [help_flag]"
  have member: "labelCommand \<in> set commands" by (simp add: commands_def)
  have ok: "list_all (acceptable ?fs) ?gs"
    by (simp add: acceptable_def Lookup_def labelCommand_def labelFlags_def flag_of_def)
  have no_help: "''help'' \<notin> fst ` set ?gs" by simp
  obtain p where p: "dispatch (Name labelCommand # written ?gs args) = Ok (Run labelCommand p)" "ps_args p = args"
    and vals: "\<forall>f \<in> set ?fs. \<forall>v. pf_var f = Some v \<longrightarrow> ps_vars p v = value_given ?gs f"
    using dispatch_given [OF member ok no_help, of args] by (elim exE conjE) (rule that)
  have own: "f \<in> set (cm_Flags labelCommand) \<Longrightarrow> pf_var f = Some v \<Longrightarrow> ps_vars p v = value_given ?gs f" for f v
    using vals by auto
  note var = own [unfolded labelCommand_def labelFlags_def, simplified]
  have "label_flags_of (ps_vars p) = \<lparr>lf_delete = False, lf_image = t, lf_remote = False, lf_override = False, lf_pull = False\<rparr>"
    using var [of "flag_of ''deleteFlag'' ''delete'' ''d'' (FBool False)"] var [of "flag_of ''imageFlag'' ''tag'' ''t'' (FString [])"]
      var [of "flag_of ''remoteFlag'' ''remote'' ''r'' (FBool False)"] var [of "flag_of ''overrideFlag'' ''override'' ''o'' (FBool False)"]
      var [of "flag_of ''pullFlag'' ''pull'' ''p'' (FBool False)"]
    by (simp add: label_flags_of_def bool_var_def string_var_def flag_of_def value_given_def)
  moreover have "Name labelCommand = ''label''" by (simp add: labelCommand_def Name_def)
  ultimately show thesis using p that by simp
qed



section \<open>Written otherwise\<close>

text \<open>
  The example in the help of the search command, \<^verbatim>\<open>dim search -a +Label.os:ubuntu
  -Label.version=xenial\<close>, is not a search: the clause that excludes is read as flags of one letter
  and is refused, whereas after two dashes both clauses reach the query.
\<close>

theorem search_example_refused:
  "dispatch [''search'', ''-a'', ''+Label.os:ubuntu'', ''-Label.version=xenial''] =
     Ok (FlagError (UnknownShorthand (CHR ''L'') ''Label.version=xenial'')) \<and>
   (\<exists>c p. dispatch [''search'', ''-a'', ''--'', ''+Label.os:ubuntu'', ''-Label.version=xenial''] = Ok (Run c p) \<and>
      cm_Run c = RunSearch \<and> ps_args p = [''+Label.os:ubuntu'', ''-Label.version=xenial''] \<and> bool_var (ps_vars p) ''advancedFlag'')"
proof -
  have "(case dispatch [''search'', ''-a'', ''+Label.os:ubuntu'', ''-Label.version=xenial''] of
      Ok (FlagError e) \<Rightarrow> e = UnknownShorthand (CHR ''L'') ''Label.version=xenial'' | _ \<Rightarrow> False)"
    by code_simp
  moreover have "(case dispatch [''search'', ''-a'', ''--'', ''+Label.os:ubuntu'', ''-Label.version=xenial''] of
      Ok (Run c p) \<Rightarrow> cm_Run c = RunSearch \<and> ps_args p = [''+Label.os:ubuntu'', ''-Label.version=xenial''] \<and>
        bool_var (ps_vars p) ''advancedFlag''
    | _ \<Rightarrow> False)"
    by code_simp
  ultimately show ?thesis by (auto split: res.splits outcome.splits)
qed

end
