(* ===== verification/Shutdown.thy ===== *)
theory Shutdown
  imports Serving Program
begin

text \<open>
  The end of a server (\<open>cmd/server.go\<close>, \<open>server/server.go\<close>): the goroutine that waits for an interrupt, the
  main goroutine that listens, and the connections, with what the server uses of the library manners.
  Requests are answered while the server closes, so this is a step relation once more, and the
  handlers and workers of the running server move inside it.
\<close>

section \<open>One connection\<close>

text \<open>Where the goroutine of a connection is: it reads a request; it tells the library that one came
  (\<open>ToActive\<close>), which may add it to the wait group (\<open>ToAdd\<close>); the request is about to be given to its
  handler, is handled, has been answered; the connection is closed.\<close>

datatype conn_pc = Reading | ToActive | ToAdd | ToHandle | Handling | Answered | Ended

record gracefulConn =
  gc_at :: conn_pc
  gc_protected :: bool
  gc_shut :: bool

definition new_conn :: gracefulConn where
  "new_conn = \<lparr>gc_at = Reading, gc_protected = True, gc_shut = False\<rparr>"

text \<open>Who moves: a client, or whoever interrupts the program; a request whose handler starts; the program.\<close>

datatype mover = Client | Serve | Server

text \<open>The second argument says whether the handler of the server has been closed. A handler that panics
  ends its connection.\<close>

inductive conn_step :: "mover \<Rightarrow> bool \<Rightarrow> gracefulConn \<Rightarrow> gracefulConn \<Rightarrow> bool" where
  request: "gc_at c = Reading \<Longrightarrow> \<not> gc_shut c \<Longrightarrow> conn_step Client down c (c\<lparr>gc_at := ToActive\<rparr>)"
| hang_up: "gc_at c = Reading \<Longrightarrow> conn_step Client down c (c\<lparr>gc_at := Ended, gc_protected := False\<rparr>)"
| unread: "gc_at c = Reading \<Longrightarrow> gc_shut c \<Longrightarrow> conn_step Server down c (c\<lparr>gc_at := Ended, gc_protected := False\<rparr>)"
| refused: "gc_at c = ToActive \<Longrightarrow> down \<Longrightarrow> conn_step Server down c (c\<lparr>gc_at := ToHandle, gc_shut := True\<rparr>)"
| active: "gc_at c = ToActive \<Longrightarrow> \<not> down \<Longrightarrow>
    conn_step Server down c (c\<lparr>gc_at := (if gc_protected c then ToHandle else ToAdd)\<rparr>)"
| added: "gc_at c = ToAdd \<Longrightarrow> conn_step Server down c (c\<lparr>gc_at := ToHandle, gc_protected := True\<rparr>)"
| handle: "gc_at c = ToHandle \<Longrightarrow> \<not> down \<Longrightarrow> conn_step Serve down c (c\<lparr>gc_at := Handling\<rparr>)"
| skip: "gc_at c = ToHandle \<Longrightarrow> down \<Longrightarrow> conn_step Server down c (c\<lparr>gc_at := Answered\<rparr>)"
| answer: "gc_at c = Handling \<Longrightarrow> conn_step Server down c (c\<lparr>gc_at := Answered\<rparr>)"
| panic: "gc_at c = Handling \<Longrightarrow> conn_step Server down c (c\<lparr>gc_at := Ended, gc_protected := False\<rparr>)"
| idle: "gc_at c = Answered \<Longrightarrow> conn_step Server down c (c\<lparr>gc_at := Reading, gc_protected := False\<rparr>)"
| last_one: "gc_at c = Answered \<Longrightarrow> conn_step Server down c (c\<lparr>gc_at := Ended, gc_protected := False\<rparr>)"

inductive_cases conn_stepE: "conn_step m down c c'"

section \<open>The program\<close>

text \<open>The main goroutine: until the server is made; until it listens; accepting, with a connection
  accepted that the library is not told of yet; waiting for the connections once the listener
  returned; telling that they are gone; returning to \<open>main\<close>, which it also does (\<open>Failing\<close>) when no server
  could be made.\<close>

datatype main_pc = Starting | Made | Accepting | Accepted | Draining "unit res" | Finishing "unit res" | Returning "unit res" | Failing string

fun main_result :: "main_pc \<Rightarrow> unit res option" where
  "main_result (Returning r) = Some r"
| "main_result (Failing e) = Some (Err e)"
| "main_result _ = None"

text \<open>Whether the variable \<open>s\<close> holds a server.\<close>

fun server_made :: "main_pc \<Rightarrow> bool" where
  "server_made Starting = False"
| "server_made (Failing _) = False"
| "server_made _ = True"

text \<open>The goroutine that \<open>Serve\<close> starts sends on the channel \<open>shutdown\<close>, closes it, then the handler, the
  connections that are kept alive, the listener.\<close>

datatype closer_pc = Absent | Sending | Received | ChannelClosed | HandlerClosed | KeepAlivesOff | ListenerClosed

text \<open>The goroutine of \<open>handleSignal\<close>: what it has still to do, and whether it waits in \<open>BlockingClose\<close> for the
  end.\<close>

datatype signal_pc = Listening | Doing "unit ending list" | Closing "unit ending list"

record server_sys =
  sy_main :: main_pc
  sy_closer :: closer_pc
  sy_signal :: signal_pc
  sy_early :: bool
  sy_finished :: bool
  sy_wg :: nat
  sy_conns :: "gracefulConn list"
  sy_exit :: "nat option"

definition server_start :: server_sys where
  "server_start = \<lparr>sy_main = Starting, sy_closer = Absent, sy_signal = Listening, sy_early = False, sy_finished = False,
     sy_wg = 0, sy_conns = [], sy_exit = None\<rparr>"

text \<open>The flag of the handler and the state of the listener, by how far the closing has come.\<close>

definition handler_closed :: "server_sys \<Rightarrow> bool" where
  "handler_closed s \<longleftrightarrow> sy_closer s \<in> {HandlerClosed, KeepAlivesOff, ListenerClosed}"

fun closer_next :: "closer_pc \<Rightarrow> closer_pc option" where
  "closer_next Received = Some ChannelClosed"
| "closer_next ChannelClosed = Some HandlerClosed"
| "closer_next HandlerClosed = Some KeepAlivesOff"
| "closer_next KeepAlivesOff = Some ListenerClosed"
| "closer_next _ = None"

definition protect :: "bool \<Rightarrow> bool \<Rightarrow> nat \<Rightarrow> nat" where
  "protect before after n = n + of_bool after - of_bool before"

inductive shut :: "mover \<Rightarrow> server_sys \<Rightarrow> server_sys \<Rightarrow> bool" where
  made: "sy_exit s = None \<Longrightarrow> sy_main s = Starting \<Longrightarrow> shut Server s (s\<lparr>sy_main := Made\<rparr>)"
| unstarted: "sy_exit s = None \<Longrightarrow> sy_main s = Starting \<Longrightarrow> shut Server s (s\<lparr>sy_main := Failing e\<rparr>)"
| listens: "sy_exit s = None \<Longrightarrow> sy_main s = Made \<Longrightarrow> shut Server s (s\<lparr>sy_main := Accepting, sy_closer := Sending\<rparr>)"
| no_port: "sy_exit s = None \<Longrightarrow> sy_main s = Made \<Longrightarrow> shut Server s (s\<lparr>sy_main := Returning (Err e)\<rparr>)"
| connects: "sy_exit s = None \<Longrightarrow> sy_main s = Accepting \<Longrightarrow> sy_closer s \<noteq> ListenerClosed \<Longrightarrow>
    shut Client s (s\<lparr>sy_main := Accepted\<rparr>)"
| accepted: "sy_exit s = None \<Longrightarrow> sy_main s = Accepted \<Longrightarrow>
    shut Server s (s\<lparr>sy_main := Accepting, sy_wg := Suc (sy_wg s), sy_conns := sy_conns s @ [new_conn]\<rparr>)"
| unaccepted: "sy_exit s = None \<Longrightarrow> sy_main s = Accepting \<Longrightarrow> sy_closer s \<noteq> ListenerClosed \<Longrightarrow>
    shut Server s (s\<lparr>sy_main := Draining (Err e)\<rparr>)"
| closed: "sy_exit s = None \<Longrightarrow> sy_main s = Accepting \<Longrightarrow> sy_closer s = ListenerClosed \<Longrightarrow>
    shut Server s (s\<lparr>sy_main := Draining (Ok ())\<rparr>)"
| empties: "sy_exit s = None \<Longrightarrow> sy_main s = Draining r \<Longrightarrow> sy_wg s = 0 \<Longrightarrow> shut Server s (s\<lparr>sy_main := Finishing r\<rparr>)"
| finishes: "sy_exit s = None \<Longrightarrow> sy_main s = Finishing r \<Longrightarrow> shut Server s (s\<lparr>sy_main := Returning r, sy_finished := True\<rparr>)"
| returns: "sy_exit s = None \<Longrightarrow> main_result (sy_main s) = Some r \<Longrightarrow> shut Server s (s\<lparr>sy_exit := Some (exit_code r)\<rparr>)"
| interrupt: "sy_exit s = None \<Longrightarrow> sy_signal s = Listening \<Longrightarrow>
    shut Client s (s\<lparr>sy_signal := Doing (handleSignal (if server_made (sy_main s) then Some () else None)),
      sy_early := (\<not> server_made (sy_main s))\<rparr>)"
| close_meets: "sy_exit s = None \<Longrightarrow> sy_signal s = Doing (BlockingClose u # es) \<Longrightarrow> sy_closer s = Sending \<Longrightarrow>
    shut Server s (s\<lparr>sy_signal := Closing es, sy_closer := Received\<rparr>)"
| closes: "sy_exit s = None \<Longrightarrow> closer_next (sy_closer s) = Some pc \<Longrightarrow> shut Server s (s\<lparr>sy_closer := pc\<rparr>)"
| finished: "sy_exit s = None \<Longrightarrow> sy_signal s = Closing es \<Longrightarrow> sy_finished s \<Longrightarrow>
    shut Server s (s\<lparr>sy_signal := Doing es, sy_finished := False\<rparr>)"
| quits: "sy_exit s = None \<Longrightarrow> sy_signal s = Doing (Exit n # es) \<Longrightarrow> shut Server s (s\<lparr>sy_exit := Some n\<rparr>)"
| moves: "sy_exit s = None \<Longrightarrow> sy_conns s = xs @ c # ys \<Longrightarrow> conn_step m (handler_closed s) c c' \<Longrightarrow>
    shut m s (s\<lparr>sy_conns := xs @ c' # ys, sy_wg := protect (gc_protected c) (gc_protected c') (sy_wg s)\<rparr>)"

inductive_cases shutE: "shut m s t"

text \<open>All that can happen from a state on, and what happens without the clients.\<close>

inductive shuts :: "server_sys \<Rightarrow> server_sys \<Rightarrow> bool" for s where
  stay: "shuts s s"
| move: "shuts s t \<Longrightarrow> shut m t u \<Longrightarrow> shuts s u"

section \<open>What every reachable state has\<close>

text \<open>The wait group counts the protected connections; a request on its way to a handler is protected
  unless its connection was closed; the listener stops only after the handler was closed.\<close>

definition conn_ok :: "bool \<Rightarrow> gracefulConn \<Rightarrow> bool" where
  "conn_ok down c \<longleftrightarrow>
     (gc_at c = Handling \<longrightarrow> gc_protected c) \<and> (gc_at c = ToHandle \<and> \<not> gc_shut c \<longrightarrow> gc_protected c) \<and>
     (gc_shut c \<longrightarrow> down) \<and> (gc_at c = Ended \<longrightarrow> \<not> gc_protected c)"

definition protected_conns :: "gracefulConn list \<Rightarrow> nat" where
  "protected_conns cs = length (filter gc_protected cs)"

lemma conn_step_ok: "conn_step m down c c' \<Longrightarrow> conn_ok down c \<Longrightarrow> conn_ok down c'"
  by (induction rule: conn_step.induct) (auto simp: conn_ok_def)

lemma conn_step_closed: "conn_step m True c c' \<Longrightarrow> gc_at c' = Handling \<Longrightarrow> gc_at c = Handling"
  by (erule conn_stepE) auto

lemma conn_ok_mono: "conn_ok down c \<Longrightarrow> (down \<Longrightarrow> down') \<Longrightarrow> conn_ok down' c"
  by (auto simp: conn_ok_def)

definition main_ok :: "server_sys \<Rightarrow> bool" where
  "main_ok s \<longleftrightarrow>
     (case sy_main s of
        Starting \<Rightarrow> sy_conns s = [] \<and> sy_closer s = Absent
      | Failing e \<Rightarrow> sy_conns s = [] \<and> sy_closer s = Absent
      | Made \<Rightarrow> sy_conns s = [] \<and> sy_closer s = Absent
      | Accepting \<Rightarrow> sy_closer s \<noteq> Absent
      | Accepted \<Rightarrow> sy_closer s \<noteq> Absent
      | Draining r \<Rightarrow> sy_closer s \<noteq> Absent \<and> (r = Ok () \<longrightarrow> sy_closer s = ListenerClosed)
      | Finishing r \<Rightarrow> sy_closer s \<noteq> Absent \<and>
          (r = Ok () \<longrightarrow> sy_closer s = ListenerClosed \<and> list_all (\<lambda>c. gc_at c \<noteq> Handling) (sy_conns s))
      | Returning r \<Rightarrow> (sy_closer s = Absent \<longrightarrow> sy_conns s = []) \<and>
          (r = Ok () \<longrightarrow> sy_closer s = ListenerClosed \<and> list_all (\<lambda>c. gc_at c \<noteq> Handling) (sy_conns s)))"

definition is_returning :: "main_pc \<Rightarrow> bool" where
  "is_returning pc \<longleftrightarrow> main_result pc \<noteq> None"

definition signal_ok :: "server_sys \<Rightarrow> bool" where
  "signal_ok s \<longleftrightarrow>
     (sy_finished s \<longrightarrow> is_returning (sy_main s)) \<and>
     (case sy_signal s of
        Listening \<Rightarrow> \<not> sy_early s
      | Doing es \<Rightarrow> (es = [BlockingClose (), Exit 0] \<and> \<not> sy_early s \<and> server_made (sy_main s)) \<or>
          (es = [Exit 0] \<and> (sy_early s \<or> is_returning (sy_main s)))
      | Closing es \<Rightarrow> es = [Exit 0] \<and> \<not> sy_early s \<and> sy_closer s \<notin> {Absent, Sending})"

definition exit_ok :: "server_sys \<Rightarrow> bool" where
  "exit_ok s \<longleftrightarrow> (sy_exit s \<noteq> None \<longrightarrow> sy_early s \<or> is_returning (sy_main s)) \<and>
     (\<forall>n. sy_exit s = Some n \<longrightarrow> n = 0 \<or> (\<exists>r. main_result (sy_main s) = Some r \<and> n = exit_code r))"

definition sys_ok :: "server_sys \<Rightarrow> bool" where
  "sys_ok s \<longleftrightarrow> sy_wg s = protected_conns (sy_conns s) \<and> list_all (conn_ok (handler_closed s)) (sy_conns s) \<and>
     main_ok s \<and> signal_ok s \<and> exit_ok s"

lemma sys_ok_start: "sys_ok server_start"
  by (simp add: sys_ok_def server_start_def protected_conns_def main_ok_def signal_ok_def exit_ok_def)

lemma closer_next_Some:
  "closer_next pc = Some pc' \<Longrightarrow> pc \<notin> {Absent, Sending, ListenerClosed} \<and> pc' \<notin> {Absent, Sending} \<and>
     (pc \<in> {HandlerClosed, KeepAlivesOff, ListenerClosed} \<longrightarrow> pc' \<in> {HandlerClosed, KeepAlivesOff, ListenerClosed})"
  by (cases pc rule: closer_next.cases) auto

lemma protected_conns_simps [simp]:
  "protected_conns [] = 0" "protected_conns (c # cs) = of_bool (gc_protected c) + protected_conns cs"
  "protected_conns (xs @ ys) = protected_conns xs + protected_conns ys"
  by (simp_all add: protected_conns_def)

lemma protected_none: "protected_conns cs = 0 \<longleftrightarrow> list_all (\<lambda>c. \<not> gc_protected c) cs"
  by (induction cs) auto

lemma conns_step:
  assumes "sys_ok s" "sy_exit s = None" "sy_conns s = xs @ c # ys" "conn_step m (handler_closed s) c c'"
  shows "sys_ok (s\<lparr>sy_conns := xs @ c' # ys, sy_wg := protect (gc_protected c) (gc_protected c') (sy_wg s)\<rparr>)"
proof -
  let ?t = "s\<lparr>sy_conns := xs @ c' # ys, sy_wg := protect (gc_protected c) (gc_protected c') (sy_wg s)\<rparr>"
  have "sy_wg ?t = protected_conns (sy_conns ?t)" using assms(1,3) by (simp add: sys_ok_def protect_def)
  moreover have "list_all (conn_ok (handler_closed s)) (xs @ c # ys)" using assms(1,3) by (simp add: sys_ok_def)
  with conn_step_ok [OF assms(4)] have "list_all (conn_ok (handler_closed ?t)) (sy_conns ?t)"
    by (simp add: handler_closed_def)
  moreover have "main_ok ?t"
  proof -
    have stays: "list_all (\<lambda>c. gc_at c \<noteq> Handling) (xs @ c # ys) \<Longrightarrow> sy_closer s = ListenerClosed \<Longrightarrow>
        list_all (\<lambda>c. gc_at c \<noteq> Handling) (xs @ c' # ys)"
      using conn_step_closed [of m c c'] assms(4) by (auto simp: handler_closed_def)
    have "main_ok s" using assms(1) by (simp add: sys_ok_def)
    with stays assms(3) show ?thesis by (auto simp: main_ok_def split: main_pc.splits)
  qed
  moreover have "signal_ok ?t" "exit_ok ?t" using assms(1,2) by (auto simp: sys_ok_def signal_ok_def exit_ok_def split: signal_pc.splits)
  ultimately show ?thesis by (simp add: sys_ok_def)
qed

lemma shut_ok: "shut m s t \<Longrightarrow> sys_ok s \<Longrightarrow> sys_ok t"
proof (induction rule: shut.induct)
  case (moves s xs c ys m c')
  then show ?case by (intro conns_step)
next
  case (empties s r)
  then have "list_all (\<lambda>c. \<not> gc_protected c) (sy_conns s)" "list_all (conn_ok (handler_closed s)) (sy_conns s)"
    by (auto simp: sys_ok_def protected_none)
  then have "list_all (\<lambda>c. gc_at c \<noteq> Handling) (sy_conns s)" by (auto simp: list_all_iff conn_ok_def)
  with empties show ?case by (auto simp: sys_ok_def main_ok_def signal_ok_def exit_ok_def is_returning_def handler_closed_def split: signal_pc.splits)
next
  case (closes s pc)
  note n = closer_next_Some [OF closes.hyps(2)]
  then have "list_all (conn_ok (handler_closed s)) (sy_conns s) \<Longrightarrow> list_all (conn_ok (handler_closed (s\<lparr>sy_closer := pc\<rparr>))) (sy_conns s)"
    by (auto simp: list_all_iff handler_closed_def intro: conn_ok_mono)
  with closes n show ?case
    by (auto simp: sys_ok_def main_ok_def signal_ok_def exit_ok_def split: signal_pc.splits main_pc.splits)
next
  case (close_meets s u es)
  then show ?case by (auto simp: sys_ok_def main_ok_def signal_ok_def exit_ok_def handler_closed_def split: main_pc.splits)
next
  case (accepted s)
  then show ?case
    by (auto simp: sys_ok_def main_ok_def signal_ok_def exit_ok_def is_returning_def handler_closed_def new_conn_def conn_ok_def
        split: signal_pc.splits)
next
  case (interrupt s)
  then show ?case
    by (auto simp: sys_ok_def main_ok_def signal_ok_def exit_ok_def handleSignal_def handler_closed_def split: main_pc.splits)
next
  case (finished s es)
  then show ?case
    by (auto simp: sys_ok_def main_ok_def signal_ok_def exit_ok_def handler_closed_def split: main_pc.splits)
next
  case (returns s r)
  then have "main_ok (s\<lparr>sy_exit := Some (exit_code r)\<rparr>)" by (auto simp: sys_ok_def main_ok_def split: main_pc.splits)
  with returns show ?case by (auto simp: sys_ok_def signal_ok_def exit_ok_def is_returning_def handler_closed_def split: signal_pc.splits)
next
  case (quits s n es)
  then show ?case by (auto simp: sys_ok_def main_ok_def signal_ok_def exit_ok_def handler_closed_def split: main_pc.splits)
qed (auto simp: sys_ok_def main_ok_def signal_ok_def exit_ok_def is_returning_def handler_closed_def split: signal_pc.splits)

lemma shuts_ok: "shuts s t \<Longrightarrow> sys_ok s \<Longrightarrow> sys_ok t"
  by (induction rule: shuts.induct) (auto intro: shut_ok)

section \<open>No request is cut off\<close>

text \<open>There was no server, or the listener was lost in a way the closing did not ask for.\<close>

definition server_failed :: "server_sys \<Rightarrow> bool" where
  "server_failed s \<longleftrightarrow> (case sy_main s of Draining r \<Rightarrow> r \<noteq> Ok () | Finishing r \<Rightarrow> r \<noteq> Ok () | Returning r \<Rightarrow> r \<noteq> Ok () | Failing _ \<Rightarrow> True | _ \<Rightarrow> False)"

text \<open>
  C10: the end of a server is graceful. Whatever the clients do, however many there are, and however
  the goroutines interleave: when the program has ended after an interrupt that found the server
  made, and the listener did not fail, then it ended with code 0, and no handler that was started
  was cut off: each has returned. While the program runs, the wait group counts the connections it
  waits for.
\<close>

theorem shutdown_graceful:
  assumes "shuts server_start s"
  shows "sy_wg s = length (filter gc_protected (sy_conns s)) \<and>
    (\<forall>n. sy_exit s = Some n \<longrightarrow> \<not> sy_early s \<longrightarrow> \<not> server_failed s \<longrightarrow>
       n = 0 \<and> (\<forall>c \<in> set (sy_conns s). gc_at c \<noteq> Handling))"
proof -
  have ok: "sys_ok s" using shuts_ok [OF assms sys_ok_start] .
  have "n = 0 \<and> (\<forall>c \<in> set (sy_conns s). gc_at c \<noteq> Handling)"
    if ended: "sy_exit s = Some n" "\<not> sy_early s" "\<not> server_failed s" for n
  proof -
    obtain r where r: "sy_main s = Returning r"
      using ok ended by (cases "sy_main s") (auto simp: sys_ok_def exit_ok_def is_returning_def server_failed_def)
    with ended(3) have "r = Ok ()" by (simp add: server_failed_def)
    with r ok ended(1) show ?thesis by (auto simp: sys_ok_def exit_ok_def main_ok_def list_all_iff)
  qed
  with ok show ?thesis by (auto simp: sys_ok_def protected_conns_def)
qed

section \<open>The closing comes to an end\<close>

text \<open>How many steps a connection can still make once the handler is closed, and how many are left.\<close>

fun conn_left :: "gracefulConn \<Rightarrow> nat" where
  "conn_left c =
     (case gc_at c of
        Ended \<Rightarrow> 0 | Reading \<Rightarrow> if gc_shut c then 2 else 6 | ToActive \<Rightarrow> 5 | ToAdd \<Rightarrow> 10
      | ToHandle \<Rightarrow> if gc_shut c then 4 else 9 | Handling \<Rightarrow> 8 | Answered \<Rightarrow> if gc_shut c then 3 else 7)"

fun main_left :: "main_pc \<Rightarrow> nat" where
  "main_left (Returning _) = 1"
| "main_left (Failing _) = 1"
| "main_left (Finishing _) = 2"
| "main_left (Draining _) = 3"
| "main_left Accepting = 4"
| "main_left Accepted = 20"
| "main_left Made = 30"
| "main_left Starting = 31"

fun signal_left :: "signal_pc \<Rightarrow> nat" where
  "signal_left Listening = 6"
| "signal_left (Doing es) = 2 * length es"
| "signal_left (Closing es) = 2 * length es + 1"

definition closing_left :: "server_sys \<Rightarrow> nat" where
  "closing_left s = sum_list (map conn_left (sy_conns s)) + main_left (sy_main s) + signal_left (sy_signal s) +
     (if sy_exit s = None then 1 else 0)"

definition is_closing :: "server_sys \<Rightarrow> bool" where
  "is_closing s \<longleftrightarrow> sys_ok s \<and> sy_closer s = ListenerClosed"

lemma conn_left_step: "conn_step m True c c' \<Longrightarrow> conn_left c' < conn_left c"
  by (erule conn_stepE) auto

lemma closing_lowers: "shut m s t \<Longrightarrow> is_closing s \<Longrightarrow> closing_left t < closing_left s"
proof (induction rule: shut.induct)
  case (moves s xs c ys m c')
  then have "conn_step m True c c'" by (simp add: is_closing_def handler_closed_def)
  from conn_left_step [OF this] moves show ?case by (simp add: closing_left_def del: conn_left.simps)
next
  case (interrupt s)
  then show ?case by (auto simp: closing_left_def handleSignal_def)
qed (auto simp: closing_left_def is_closing_def new_conn_def dest: closer_next_Some)

lemma closing_step: "is_closing s \<Longrightarrow> shut m s t \<Longrightarrow> is_closing t"
  using shut_ok by (auto simp: is_closing_def sys_ok_def main_ok_def elim!: shutE dest: closer_next_Some)

interpretation closing: runs "\<lambda>s t. \<exists>m. shut m s t" shuts closing_left is_closing
proof unfold_locales
  fix Q s t assume "shuts s t" "Q s" "\<And>t u. Q t \<Longrightarrow> \<exists>m. shut m t u \<Longrightarrow> Q u"
  then show "Q t" by (induction rule: shuts.induct) auto
qed (auto intro: shuts.intros closing_step closing_lowers)

text \<open>A connection the library waits for can move, and only the client can make it do so when it reads.\<close>

lemma protected_moves:
  assumes "conn_ok down c" and "gc_protected c"
  shows "(\<exists>m c'. m \<noteq> Client \<and> conn_step m down c c') \<or> gc_at c = Reading \<and> \<not> gc_shut c"
proof (cases "gc_at c")
  case Reading
  then show ?thesis using conn_step.unread [of c down] by blast
next
  case ToActive
  then show ?thesis using conn_step.refused [of c down] conn_step.active [of c down] by blast
next
  case ToAdd
  then show ?thesis using conn_step.added [of c down] by blast
next
  case ToHandle
  then show ?thesis using conn_step.handle [of c down] conn_step.skip [of c down] by blast
next
  case Handling
  then show ?thesis using conn_step.answer [of c down] by blast
next
  case Answered
  then show ?thesis using conn_step.idle [of c down] by blast
next
  case Ended
  then show ?thesis using assms by (simp add: conn_ok_def)
qed

text \<open>The program waits for nothing but its clients once it was interrupted.\<close>

lemma waits_for_clients:
  assumes ok: "sys_ok s" and running: "sy_exit s = None" and signalled: "sy_signal s \<noteq> Listening"
    and still: "\<And>m t. m \<noteq> Client \<Longrightarrow> \<not> shut m s t"
  shows "\<exists>c \<in> set (sy_conns s). gc_protected c \<and> gc_at c = Reading \<and> \<not> gc_shut c"
proof -
  have "closer_next (sy_closer s) = None"
    using shut.closes [OF running] still by (cases "closer_next (sy_closer s)") auto
  moreover have "sy_closer s \<noteq> Sending"
  proof
    assume sending: "sy_closer s = Sending"
    with ok signalled consider es where "sy_signal s = Doing (BlockingClose () # es)" | es where "sy_signal s = Doing (Exit 0 # es)"
      by (auto simp: sys_ok_def signal_ok_def split: signal_pc.splits)
    then show False
    proof cases
      case 1
      from shut.close_meets [OF running 1 sending] still show False by blast
    next
      case 2
      from shut.quits [OF running 2] still show False by blast
    qed
  qed
  moreover have main: "main_result (sy_main s) = None"
    using shut.returns [OF running] still by (cases "main_result (sy_main s)") blast+
  moreover have unmade: "sy_main s \<noteq> Starting" "sy_main s \<noteq> Made"
    using shut.made [OF running] shut.listens [OF running] still by blast+
  ultimately have closer: "sy_closer s = ListenerClosed"
    using ok by (cases "sy_closer s") (auto simp: sys_ok_def main_ok_def split: main_pc.splits)
  have "sy_main s \<noteq> Accepting" "sy_main s \<noteq> Accepted" "\<And>r. sy_main s \<noteq> Finishing r"
    using shut.closed [OF running _ closer] shut.accepted [OF running] shut.finishes [OF running] still by blast+
  then obtain r where r: "sy_main s = Draining r"
    using main unmade by (cases "sy_main s") auto
  have "sy_wg s \<noteq> 0" using shut.empties [OF running r] still by blast
  with ok obtain c where c: "c \<in> set (sy_conns s)" "gc_protected c" "conn_ok (handler_closed s) c"
    by (auto simp: sys_ok_def protected_none list_all_iff)
  obtain xs ys where "sy_conns s = xs @ c # ys" using c(1) by (meson split_list)
  with protected_moves [OF c(3,2)] shut.moves [OF running] still have "gc_at c = Reading \<and> \<not> gc_shut c" by blast
  with c show ?thesis by blast
qed

lemma client_can_leave:
  assumes ok: "sys_ok s" and running: "sy_exit s = None" and signalled: "sy_signal s \<noteq> Listening"
    and still: "\<And>m t. m \<noteq> Client \<Longrightarrow> \<not> shut m s t"
  shows "\<exists>t. shut Client s t"
proof -
  obtain c where c: "c \<in> set (sy_conns s)" "gc_at c = Reading"
    using waits_for_clients [OF ok running signalled] still by blast
  obtain xs ys where "sy_conns s = xs @ c # ys" using c(1) by (meson split_list)
  from shut.moves [OF running this conn_step.hang_up [OF c(2)]] show ?thesis by blast
qed


section \<open>A client that says nothing\<close>

text \<open>Steps in which no handler starts.\<close>

definition quiet :: "server_sys \<Rightarrow> server_sys \<Rightarrow> bool" where
  "quiet s t \<longleftrightarrow> (\<exists>m. m \<noteq> Serve \<and> shut m s t)"

lemma quietI: "shut m s t \<Longrightarrow> m \<noteq> Serve \<Longrightarrow> t' = t \<Longrightarrow> quiet s t'"
  by (auto simp: quiet_def)

lemma quiet_shuts: "quiet\<^sup>*\<^sup>* t u \<Longrightarrow> shuts s t \<Longrightarrow> shuts s u"
  by (induction rule: rtranclp_induct) (auto simp: quiet_def intro: shuts.move)

text \<open>A server that listens with one connection; the same once it was interrupted and the listener is closed;
  and its end when no connection is waited for.\<close>

definition one_client :: "server_sys" where
  "one_client = server_start\<lparr>sy_main := Accepting, sy_closer := Sending, sy_wg := 1, sy_conns := [new_conn]\<rparr>"

definition interrupted :: "server_sys \<Rightarrow> server_sys" where
  "interrupted s = s\<lparr>sy_main := Draining (Ok ()), sy_closer := ListenerClosed, sy_signal := Closing [Exit 0]\<rparr>"

lemma one_client_reached: "quiet\<^sup>*\<^sup>* server_start one_client"
proof -
  let ?s = "\<lambda>pc. server_start\<lparr>sy_main := pc, sy_closer := Sending\<rparr>"
  have "quiet server_start (server_start\<lparr>sy_main := Made\<rparr>)"
    by (rule quietI [OF shut.made]) (simp_all add: server_start_def)
  moreover have "quiet (server_start\<lparr>sy_main := Made\<rparr>) (?s Accepting)"
    by (rule quietI [OF shut.listens]) (simp_all add: server_start_def)
  moreover have "quiet (?s Accepting) (?s Accepted)"
    by (rule quietI [OF shut.connects]) (simp_all add: server_start_def)
  moreover have "quiet (?s Accepted) one_client"
    by (rule quietI [OF shut.accepted]) (simp_all add: server_start_def one_client_def)
  ultimately show ?thesis by (meson converse_rtranclp_into_rtranclp rtranclp.rtrancl_refl)
qed

lemma interrupt_closes:
  assumes "sy_exit s = None" "sy_main s = Accepting" "sy_closer s = Sending" "sy_signal s = Listening" "\<not> sy_early s"
  shows "quiet\<^sup>*\<^sup>* s (interrupted s)"
proof -
  let ?d = "s\<lparr>sy_signal := Doing [BlockingClose (), Exit 0]\<rparr>"
  let ?c = "\<lambda>pc. s\<lparr>sy_signal := Closing [Exit 0], sy_closer := pc\<rparr>"
  have closer: "quiet (?c pc) (?c pc')" if "closer_next pc = Some pc'" for pc pc'
    by (rule quietI [OF shut.closes]) (use assms that in simp_all)
  have "?d = s\<lparr>sy_signal := Doing [BlockingClose (), Exit 0], sy_early := False\<rparr>" using assms(5) by (cases s) simp
  then have "quiet s ?d"
    by (intro quietI [OF shut.interrupt]) (use assms in \<open>simp_all add: handleSignal_def\<close>)
  moreover have "quiet ?d (?c Received)"
    by (rule quietI [OF shut.close_meets]) (use assms in simp_all)
  moreover have "quiet (?c Received) (?c ChannelClosed)" "quiet (?c ChannelClosed) (?c HandlerClosed)"
    "quiet (?c HandlerClosed) (?c KeepAlivesOff)" "quiet (?c KeepAlivesOff) (?c ListenerClosed)"
    by (rule closer; simp)+
  moreover have "quiet (?c ListenerClosed) (interrupted s)"
    by (rule quietI [OF shut.closed]) (use assms in \<open>simp_all add: interrupted_def\<close>)
  ultimately show ?thesis by (meson converse_rtranclp_into_rtranclp rtranclp.rtrancl_refl)
qed

lemma silent_reached: "shuts server_start (interrupted one_client)"
proof -
  have "quiet\<^sup>*\<^sup>* one_client (interrupted one_client)"
    by (rule interrupt_closes) (simp_all add: one_client_def server_start_def)
  then show ?thesis using quiet_shuts [OF _ quiet_shuts [OF one_client_reached shuts.stay]] by blast
qed

lemma silent_stuck:
  "shut m (interrupted one_client) t \<Longrightarrow>
   m = Client \<and> sy_signal t = sy_signal (interrupted one_client) \<and> sy_conns t \<noteq> sy_conns (interrupted one_client)"
  by (auto simp: interrupted_def one_client_def server_start_def new_conn_def Cons_eq_append_conv elim!: shutE conn_stepE)

text \<open>
  C37: a client that connects and sends nothing keeps the program from ending: after an interrupt there is
  a state in which the listener is closed, the signal was taken, the program has not ended, and only the
  client can change that. A second interrupt is not read either.
\<close>

theorem silent_client_blocks:
  "\<exists>s. shuts server_start s \<and> sy_signal s = Closing [Exit 0] \<and> sy_closer s = ListenerClosed \<and> sy_exit s = None \<and>
     (\<forall>m t. shut m s t \<longrightarrow> m = Client \<and> sy_signal t = sy_signal s \<and> sy_conns t \<noteq> sy_conns s)"
proof (intro exI conjI allI impI)
  show "shuts server_start (interrupted one_client)" by (rule silent_reached)
  show "sy_signal (interrupted one_client) = Closing [Exit 0]" "sy_closer (interrupted one_client) = ListenerClosed"
    "sy_exit (interrupted one_client) = None" by (simp_all add: interrupted_def one_client_def server_start_def)
qed (use silent_stuck in blast)+

theorem silent_client_blocks_witness:
  "\<exists>s t. shuts server_start s \<and> sy_exit s = None \<and> shut Client s t \<and>
     sy_signal t = Closing [Exit 0] \<and> sy_conns t \<noteq> sy_conns s"
proof -
  obtain s where s: "shuts server_start s" "sy_signal s = Closing [Exit 0]" "sy_exit s = None"
    and blocked: "\<forall>m t. shut m s t \<longrightarrow> m = Client \<and> sy_signal t = sy_signal s \<and> sy_conns t \<noteq> sy_conns s"
    using silent_client_blocks by blast
  moreover obtain t where "shut Client s t"
    using client_can_leave [OF shuts_ok [OF s(1) sys_ok_start] s(3)] s(2) blocked by auto
  ultimately show ?thesis using s by metis
qed


section \<open>Handlers and workers of a server that ends\<close>

text \<open>The index, the queue and the workers run until the program ends; a request is handled from the step on
  that starts its handler. The list tells the requests whose handlers were started.\<close>

inductive lived ::
    "'x nsys handler \<Rightarrow> ('x \<Rightarrow> NotificationJob \<Rightarrow> 'x) \<Rightarrow> 'x nsys \<Rightarrow> Request list \<Rightarrow> server_sys \<Rightarrow> 'x nsys \<Rightarrow> bool"
  for hd h s0 where
  start: "lived hd h s0 [] server_start s0"
| system: "lived hd h s0 rs y s \<Longrightarrow> quiet y z \<Longrightarrow> lived hd h s0 rs z s"
| request: "lived hd h s0 rs y s \<Longrightarrow> shut Serve y z \<Longrightarrow> hd r (s, new_Response) = Ok (s', w) \<Longrightarrow>
    ns_todo s' = ns_todo s @ js \<Longrightarrow> todo \<in> shuffles (ns_todo s) js \<Longrightarrow> lived hd h s0 (rs @ [r]) z (s'\<lparr>ns_todo := todo\<rparr>)"
| caught: "lived hd h s0 rs y s \<Longrightarrow> shut Serve y z \<Longrightarrow> \<not> is_ok (hd r (s, new_Response)) \<Longrightarrow> lived hd h s0 (rs @ [r]) z s"
| worker: "lived hd h s0 rs y s \<Longrightarrow> sy_exit y = None \<Longrightarrow> nstep h s t \<Longrightarrow> lived hd h s0 rs y t"

lemma lived_parts: "lived f h s0 rs y s \<Longrightarrow> shuts server_start y \<and> served f h s0 rs s"
  by (induction rule: lived.induct) (auto simp: quiet_def intro: shuts.intros served.intros)

lemma lived_quiet: "quiet\<^sup>*\<^sup>* y z \<Longrightarrow> lived f h s0 rs y s \<Longrightarrow> lived f h s0 rs z s"
  by (induction rule: rtranclp_induct) (auto intro: lived.system)

text \<open>The first connection of a server that listens has sent a request that was given to its handler;
  its answer; the connection closed and the program at its end.\<close>

definition with_conn :: "conn_pc \<Rightarrow> server_sys" where
  "with_conn pc = one_client\<lparr>sy_conns := [new_conn\<lparr>gc_at := pc\<rparr>]\<rparr>"

lemma with_conn_moves:
  "conn_step m False (new_conn\<lparr>gc_at := pc\<rparr>) c' \<Longrightarrow>
   shut m (with_conn pc) (one_client\<lparr>sy_conns := [c'], sy_wg := protect True (gc_protected c') 1\<rparr>)"
  using shut.moves [of "with_conn pc" "[]" "new_conn\<lparr>gc_at := pc\<rparr>" "[]" m c']
  by (simp add: with_conn_def one_client_def server_start_def handler_closed_def new_conn_def)

lemma with_conn_goes:
  assumes "conn_step m False (new_conn\<lparr>gc_at := pc\<rparr>) (new_conn\<lparr>gc_at := pc'\<rparr>)"
  shows "shut m (with_conn pc) (with_conn pc')"
proof -
  have "one_client\<lparr>sy_conns := [new_conn\<lparr>gc_at := pc'\<rparr>], sy_wg := protect True (gc_protected (new_conn\<lparr>gc_at := pc'\<rparr>)) 1\<rparr> = with_conn pc'"
    by (simp add: with_conn_def one_client_def protect_def new_conn_def server_start_def)
  with with_conn_moves [OF assms] show ?thesis by simp
qed

definition gone_client :: "server_sys" where
  "gone_client = one_client\<lparr>sy_conns := [new_conn\<lparr>gc_at := Ended, gc_protected := False\<rparr>], sy_wg := 0\<rparr>"

lemma first_request:
  "quiet\<^sup>*\<^sup>* server_start (with_conn ToHandle)" "shut Serve (with_conn ToHandle) (with_conn Handling)"
  "quiet (with_conn Handling) (with_conn Answered)" "quiet (with_conn Answered) gone_client"
proof -
  let ?c = "\<lambda>pc. new_conn\<lparr>gc_at := pc\<rparr>"
  have "one_client = with_conn Reading" by (simp add: with_conn_def one_client_def server_start_def new_conn_def)
  with one_client_reached have "quiet\<^sup>*\<^sup>* server_start (with_conn Reading)" by simp
  moreover have "shut Client (with_conn Reading) (with_conn ToActive)"
    by (rule with_conn_goes) (use conn_step.request [of "?c Reading" False] in \<open>simp add: new_conn_def\<close>)
  moreover have "shut Server (with_conn ToActive) (with_conn ToHandle)"
    by (rule with_conn_goes) (use conn_step.active [of "?c ToActive" False] in \<open>simp add: new_conn_def\<close>)
  ultimately show "quiet\<^sup>*\<^sup>* server_start (with_conn ToHandle)"
    by (meson quietI mover.distinct rtranclp.rtrancl_into_rtrancl)
  show "shut Serve (with_conn ToHandle) (with_conn Handling)"
    by (rule with_conn_goes) (use conn_step.handle [of "?c ToHandle" False] in \<open>simp add: new_conn_def\<close>)
  have "shut Server (with_conn Handling) (with_conn Answered)"
    by (rule with_conn_goes) (use conn_step.answer [of "?c Handling" False] in \<open>simp add: new_conn_def\<close>)
  then show "quiet (with_conn Handling) (with_conn Answered)" by (auto simp: quiet_def)
  show "quiet (with_conn Answered) gone_client"
    by (rule quietI [OF with_conn_moves [of Server Answered "new_conn\<lparr>gc_at := Ended, gc_protected := False\<rparr>"]])
      (use conn_step.last_one [of "?c Answered" False] in \<open>simp_all add: new_conn_def protect_def gone_client_def\<close>)
qed

text \<open>The rest of the way when nobody is connected any more.\<close>

definition ended_server :: "server_sys" where
  "ended_server = (interrupted gone_client)\<lparr>sy_main := Returning (Ok ()), sy_finished := True, sy_exit := Some 0\<rparr>"

lemma gone_ends: "quiet\<^sup>*\<^sup>* gone_client ended_server"
proof -
  let ?s = "\<lambda>pc. (interrupted gone_client)\<lparr>sy_main := pc\<rparr>"
  have "quiet\<^sup>*\<^sup>* gone_client (interrupted gone_client)"
    by (rule interrupt_closes) (simp_all add: gone_client_def one_client_def server_start_def)
  moreover have "quiet (interrupted gone_client) (?s (Finishing (Ok ())))"
    by (rule quietI [OF shut.empties]) (simp_all add: interrupted_def gone_client_def one_client_def server_start_def)
  moreover have "quiet (?s (Finishing (Ok ()))) (?s (Returning (Ok ()))\<lparr>sy_finished := True\<rparr>)"
    by (rule quietI [OF shut.finishes]) (simp_all add: interrupted_def gone_client_def one_client_def server_start_def)
  moreover have "quiet (?s (Returning (Ok ()))\<lparr>sy_finished := True\<rparr>) ended_server"
    by (rule quietI [OF shut.returns [where r = "Ok ()"]]) (simp_all add: interrupted_def gone_client_def one_client_def server_start_def ended_server_def)
  ultimately show ?thesis by (meson rtranclp.rtrancl_into_rtrancl)
qed

lemma notification_answered:
  assumes "compiled (sc_Authorizations cfg)" and "server_handler en cfg c start proxy r (s, new_Response) = Ok (s', w)"
    and "authorised_jobs cfg (se_decode en) r \<noteq> []"
  shows "rw_Status w = Some 200"
proof -
  have r: "allowed (sc_Authorizations cfg) r" "routed r" "req_Path r = ''/dim/notify''"
    using assms(3) unfolding authorised_jobs_def by (metis)+
  obtain events where "se_decode en (req_Body r) = Ok events"
    using assms(3) by (auto simp: authorised_jobs_def split: res.splits)
  with assms(2) r show ?thesis
    by (auto simp: server_handler_def NewServer_filtered securityFilter_allowed [OF assms(1)] route_def NotifyImageChange_def
        Write_def WriteHeader_def new_Response_def Let_def)
qed

text \<open>
  C36: an answer says nothing of what becomes of a notification. Whenever a request tells of one event, the
  server may answer it with 200, be interrupted and end with code 0, gracefully and without early interrupt,
  while the job still lies in the queue: it was never handled, and its hooks never ran.
\<close>

theorem acknowledged_lost:
  assumes "readServerConfig compile configured port = Ok cfg"
    and "authorised_jobs cfg (se_decode en) r = [job]"
    and "server_handler en cfg c start proxy r (new_nsys idx, new_Response) = Ok (s', w)"
  shows "rw_Status w = Some 200 \<and>
    (\<exists>y s. lived (server_handler en cfg c start proxy) (work T P) (new_nsys idx) [r] y s \<and>
       sy_exit y = Some 0 \<and> \<not> sy_early y \<and> \<not> server_failed y \<and>
       outstanding s = [job] \<and> ns_done s = [] \<and> ns_index s = idx)"
proof -
  let ?hd = "server_handler en cfg c start proxy" and ?s0 = "new_nsys idx"
  have s': "s' = Submit job ?s0" using server_handler_jobs [OF readServerConfig_Ok(2) [OF assms(1)] assms(3)] assms(2) by simp
  let ?t = "?s0\<lparr>ns_todo := [job]\<rparr>" and ?u = "?s0\<lparr>ns_chan := \<lparr>ch_buf = [job], ch_cap = 3, ch_closed = False\<rparr>\<rparr>"
  have "lived ?hd (work T P) ?s0 [] (with_conn ToHandle) ?s0"
    by (rule lived_quiet [OF first_request(1) lived.start])
  from lived.request [OF this first_request(2) assms(3), of "[job]" "[job]"]
  have "lived ?hd (work T P) ?s0 [r] (with_conn Handling) ?t" by (simp add: s' Submit_def new_nsys_def)
  moreover have "nstep (work T P) ?t ?u"
    using nstep.send [of ?t job "[]" "\<lparr>ch_buf = [job], ch_cap = 3, ch_closed = False\<rparr>" "work T P"]
    by (simp add: new_nsys_def make_chan_def chan_send_def)
  moreover have "sy_exit (with_conn Handling) = None" by (simp add: with_conn_def one_client_def server_start_def)
  ultimately have "lived ?hd (work T P) ?s0 [r] (with_conn Handling) ?u" by (auto intro: lived.worker)
  from lived.system [OF lived.system [OF this first_request(3)] first_request(4)]
  have "lived ?hd (work T P) ?s0 [r] ended_server ?u" by (rule lived_quiet [OF gone_ends])
  moreover have "sy_exit ended_server = Some 0" "\<not> sy_early ended_server" "\<not> server_failed ended_server"
    by (simp_all add: ended_server_def interrupted_def gone_client_def one_client_def server_start_def server_failed_def)
  moreover have "rw_Status w = Some 200"
    using notification_answered [OF readServerConfig_Ok(2) [OF assms(1)] assms(3)] assms(2) by simp
  ultimately show ?thesis by (intro conjI exI [of _ ended_server] exI [of _ ?u]) (simp_all add: outstanding_def new_nsys_def)
qed

definition ruleless :: ServerConfig where
  "ruleless = \<lparr>sc_Port = '':6000'', sc_Authorizations = []\<rparr>"

theorem acknowledged_lost_witness:
  "\<exists>y s. lived (server_handler (sample_server_env [sample_deletion]) ruleless [] 0 (NewRegistryProxy \<lparr>url_Scheme = [], url_Host = [], url_Path = []\<rparr> [] []))
       (work (\<lambda>_. None) Ok) (new_nsys sample_index) [sample_request] y s \<and>
     sy_exit y = Some 0 \<and> length (outstanding s) = 1 \<and> ns_index s = sample_index"
proof -
  let ?en = "sample_server_env [sample_deletion]" and ?proxy = "NewRegistryProxy \<lparr>url_Scheme = [], url_Host = [], url_Path = []\<rparr> [] []"
  let ?hd = "server_handler ?en ruleless [] 0 ?proxy"
  have cfg: "readServerConfig (\<lambda>p. Ok (\<lambda>_. True)) (Ok []) '':6000'' = Ok ruleless"
    by (simp add: readServerConfig_def ruleless_def)
  have "routed sample_request" by code_simp
  then have jobs: "authorised_jobs ruleless (se_decode ?en) sample_request =
      [\<lparr>job_Action = DeleteAction, job_Repository = [], job_Tag = [], job_Digest = ''d1''\<rparr>]"
    by (simp add: authorised_jobs_def ruleless_def allowed_def sample_server_env_def sample_deletion_def sample_request_def
        event_job_def EventActionDelete_def EventActionPush_def map_filter_simps)
  have "is_ok (?hd sample_request (new_nsys sample_index, new_Response))"
    using server_handler_caught [OF readServerConfig_Ok(2) [OF cfg], of ?en "[]" 0 ?proxy sample_request "new_nsys sample_index"]
      jobs by auto
  then obtain s' w where "?hd sample_request (new_nsys sample_index, new_Response) = Ok (s', w)" by (auto simp: is_ok_iff)
  from acknowledged_lost [OF cfg jobs this, of "\<lambda>_. None" Ok] show ?thesis
    by (elim conjE exE) (intro exI conjI, assumption, simp_all)
qed

theorem shutdown_graceful_witness:
  "shuts server_start ended_server \<and> sy_exit ended_server = Some 0 \<and> map gc_at (sy_conns ended_server) = [Ended] \<and>
     length (filter gc_protected (sy_conns ended_server)) = 0"
proof -
  have "quiet\<^sup>*\<^sup>* (with_conn Handling) ended_server"
    using first_request(3,4) gone_ends by (meson converse_rtranclp_into_rtranclp)
  moreover have "shuts server_start (with_conn Handling)"
    using quiet_shuts [OF first_request(1) shuts.stay] first_request(2) by (rule shuts.move)
  ultimately have s: "shuts server_start ended_server" using quiet_shuts by blast
  have wg: "sy_wg ended_server = 0" and n: "sy_exit ended_server = Some 0" and at_end: "map gc_at (sy_conns ended_server) = [Ended]"
    by (simp_all add: ended_server_def interrupted_def gone_client_def one_client_def server_start_def)
  show ?thesis using conjunct1 [OF shutdown_graceful [OF s]] wg s n at_end by simp
qed

end
