(* ===== verification/Completion.thy ===== *)
theory Completion
  imports CommandLine
begin

text \<open>
  The hidden command \<open>autocomplete\<close> (\<open>cmd/gen_bash_completion.go\<close>, the text of \<open>cmd/root.go\<close>): the script that
  cobra writes for the commands of the program, and what the shell offers with it.
\<close>

section \<open>The script\<close>

definition lines :: "string list \<Rightarrow> string" where
  "lines ls = concat (map (\<lambda>l. l @ newline) ls)"

text \<open>A raw string of Go cannot hold a backquote, which stands for the double quote here.\<close>

definition quotes :: "string \<Rightarrow> string" where
  "quotes s = map (\<lambda>c. if c = CHR ''`'' then CHR 0x22 else c) s"

definition bashCompletionFunc :: string where
  "bashCompletionFunc = quotes (Join
     [[],
      ''__custom_func() {'',
      tab @ ''case ${last_command} in'',
      tab @ tab @ ''dim_show | dim_delete | dim_label | dim_hooktest)'',
      tab @ tab @ tab @ ''__docker_complete_image_repos_and_tags'',
      tab @ tab @ tab @ ''return'',
      tab @ tab @ tab @ '';;'',
      tab @ tab @ ''*'' @ '')'',
      tab @ tab @ tab @ '';;'',
      tab @ ''esac'',
      ''}'',
      [],
      ''__docker_q() {'',
      ''        docker ${host:+-H `$host`} ${config:+--config `$config`} 2>/dev/null `$@`'',
      ''}'',
      [],
      ''__docker_images() {'',
      ''        local images_args=``'',
      [],
      ''        case `$DOCKER_COMPLETION_SHOW_IMAGE_IDS` in'',
      ''                all)'',
      ''                        images_args=`--no-trunc -a`'',
      ''                        ;;'',
      ''                non-intermediate)'',
      ''                        images_args=`--no-trunc`'',
      ''                        ;;'',
      ''        esac'',
      [],
      ''        local repo_print_command'',
      ''        if [ `${DOCKER_COMPLETION_SHOW_TAGS:-yes}` = `yes` ]; then'',
      ''                repo_print_command='print $1; print $1`:`$2'' @ apostrophe,
      ''        else'',
      ''                repo_print_command='print $1'' @ apostrophe,
      ''        fi'',
      [],
      ''        local awk_script'',
      ''        case `$DOCKER_COMPLETION_SHOW_IMAGE_IDS` in'',
      ''                all|non-intermediate)'',
      ''                        awk_script='NR>1 { print $3; if ($1 != `<none>`) { '`$repo_print_command`' } }'' @ apostrophe,
      ''                        ;;'',
      ''                none|*'' @ '')'',
      ''                        awk_script='NR>1 && $1 != `<none>` { '`$repo_print_command`' }'' @ apostrophe,
      ''                        ;;'',
      ''        esac'',
      [],
      ''        __docker_q images $images_args | awk `$awk_script` | grep -v '<none>$'' @ apostrophe,
      ''}'',
      [],
      ''__docker_complete_image_repos_and_tags() {'',
      ''        local reposAndTags=`$(__docker_q images | awk 'NR>1 && $1 != `<none>` { print $1; print $1`:`$2 }')`'',
      ''        COMPREPLY=( $(compgen -W `$reposAndTags` -- `$cur`) )'',
      ''        __ltrim_colon_completions `$cur`'',
      ''}'',
      [],
      tab] newline)"

text \<open>The words of the flags; a flag that is neither true nor false takes a text after an equals sign, or
  is written with its letter and takes the next word.\<close>

definition long_word :: "flag \<Rightarrow> string" where
  "long_word f = ''--'' @ pf_name f @ (if NoOptDefVal f \<noteq> [] then [] else ''='')"

definition array_line :: "string \<Rightarrow> string \<Rightarrow> string" where
  "array_line name w = ''    '' @ name @ ''+=('' @ double_quote @ w @ double_quote @ '')''"

definition writeFlag :: "flag \<Rightarrow> string list" where
  "writeFlag f = [array_line ''flags'' (long_word f)]"

definition writeShortFlag :: "flag \<Rightarrow> string list" where
  "writeShortFlag f = [array_line (if NoOptDefVal f \<noteq> [] then ''flags'' else ''two_word_flags'') (''-'' @ pf_short f)]"

definition writeLocalNonPersistentFlag :: "flag \<Rightarrow> string list" where
  "writeLocalNonPersistentFlag f = [array_line ''local_nonpersistent_flags'' (long_word f)]"

definition write_flag :: "bool \<Rightarrow> flag \<Rightarrow> string list" where
  "write_flag nonpersistent f = writeFlag f @ (if pf_short f \<noteq> [] then writeShortFlag f else []) @
     (if nonpersistent then writeLocalNonPersistentFlag f else [])"

text \<open>The flags are visited in the order of their names. No flag of the program is hidden, deprecated or has
  annotations.\<close>

definition writeFlags :: "flag list \<Rightarrow> flag list \<Rightarrow> flag list \<Rightarrow> string list" where
  "writeFlags local persistent inherited =
     [''    flags=()'', ''    two_word_flags=()'', ''    local_nonpersistent_flags=()'', ''    flags_with_completion=()'',
      ''    flags_completion=()'', []] @
     concat (map (\<lambda>f. write_flag (Lookup (pf_name f) persistent = None) f) (sort_key pf_name local)) @
     concat (map (write_flag False) (sort_key pf_name inherited)) @ [[]]"

definition writeCommands :: "string list \<Rightarrow> string list" where
  "writeCommands names = ''    commands=()'' # map (array_line ''commands'') names @ [[]]"

text \<open>The function of one command, named by its path: the commands under it, its own flags, those of them it
  hands on, and those it takes over. None has required flags or fixed arguments.\<close>

definition gen_function :: "string \<Rightarrow> string list \<Rightarrow> flag list \<Rightarrow> flag list \<Rightarrow> flag list \<Rightarrow> string list" where
  "gen_function path names local persistent inherited =
     [''_'' @ path @ ''()'', ''{'', ''    last_command='' @ double_quote @ path @ double_quote] @ writeCommands names @
     writeFlags local persistent inherited @
     [''    must_have_one_flag=()'', ''    must_have_one_noun=()'', ''    noun_aliases=()'', ''}'', []]"

definition IsAvailableCommand :: "Command \<Rightarrow> bool" where
  "IsAvailableCommand c \<longleftrightarrow> \<not> cm_Hidden c \<and> cm_Run c \<noteq> RunHelp"

definition available :: "Command list" where
  "available = filter IsAvailableCommand (sort_key Name (commands @ [helpCommand]))"

definition inherited_flags :: "Command \<Rightarrow> flag list" where
  "inherited_flags c = filter (\<lambda>f. Lookup (pf_name f) (cm_Flags c) = None) rootFlags"

definition gen_command :: "Command \<Rightarrow> string list" where
  "gen_command c = gen_function (''dim_'' @ Name c) [] (cm_Flags c) [] (inherited_flags c)"

definition gen :: "string list" where
  "gen = concat (map gen_command available) @ gen_function ''dim'' (map Name available) rootFlags rootFlags []"

text \<open>\<open>preamble\<close> and \<open>postscript\<close> are texts of the library that only depend on the name of the program.\<close>

definition GenBashCompletion :: "(string \<Rightarrow> string) \<Rightarrow> (string \<Rightarrow> string) \<Rightarrow> string" where
  "GenBashCompletion preamble postscript =
     preamble ''dim'' @ bashCompletionFunc @ newline @ lines gen @ postscript ''dim''"

text \<open>What creating and writing the file returns is dropped.\<close>

definition autocomplete :: "(string \<Rightarrow> string) \<Rightarrow> (string \<Rightarrow> string) \<Rightarrow> (string \<Rightarrow> string \<Rightarrow> 'w \<Rightarrow> 'w \<times> unit res) \<Rightarrow> 'w \<Rightarrow> 'w \<times> unit res" where
  "autocomplete preamble postscript write_file w =
     (case write_file ''dim_compl'' (GenBashCompletion preamble postscript) w of
        (w', Panic) \<Rightarrow> (w', Panic)
      | (w', _) \<Rightarrow> (w', Ok ()))"

section \<open>What the shell offers\<close>

text \<open>The words a function appends to an array.\<close>

definition array_words :: "string \<Rightarrow> string list \<Rightarrow> string list" where
  "array_words name ls = List.map_filter (\<lambda>l.
     (let pre = ''    '' @ name @ ''+=('' @ double_quote; post = double_quote @ '')'' in
      if HasPrefix l pre \<and> HasSuffix l post then Some (take (length l - length pre - length post) (drop (length pre) l)) else None)) ls"

definition offered :: "Command \<Rightarrow> string list" where
  "offered c = array_words ''flags'' (gen_command c) @ array_words ''two_word_flags'' (gen_command c)"

definition short_word :: "flag \<Rightarrow> string" where
  "short_word f = ''-'' @ pf_short f"

definition words_of :: "flag list \<Rightarrow> string list" where
  "words_of fs = map long_word fs @ map short_word (filter (\<lambda>f. pf_short f \<noteq> []) fs)"

lemma offered_words: "list_all (\<lambda>c. set (offered c) = set (words_of (cm_Flags c @ rootFlags))) available"
  by code_simp

lemma available_commands: "set available \<subseteq> set commands"
  by (auto simp: available_def IsAvailableCommand_def helpCommand_def)

lemma command_available: "c \<in> set commands \<Longrightarrow> IsAvailableCommand c \<Longrightarrow> c \<in> set available"
  by (simp add: available_def)

section \<open>It is what the command line takes\<close>

definition writable :: "flag list \<Rightarrow> flag \<Rightarrow> bool" where
  "writable fs f \<longleftrightarrow> pf_name f \<noteq> [] \<and> hd (pf_name f) \<noteq> CHR ''-'' \<and> CHR ''='' \<notin> set (pf_name f) \<and> Lookup (pf_name f) fs = Some f \<and>
     (pf_short f = [] \<or> (length (pf_short f) = 1 \<and> hd (pf_short f) \<noteq> CHR ''-'' \<and> shorthand (hd (pf_short f)) fs = Some f))"

lemma flags_writable:
  "list_all (\<lambda>c. list_all (writable (cm_Flags c @ rootFlags @ [help_flag])) (cm_Flags c @ rootFlags)) commands"
  by code_simp

text \<open>The text a flag gets, and the words after the command: with its name, and with its letter.\<close>

definition flag_text :: "flag \<Rightarrow> string \<Rightarrow> string" where
  "flag_text f t = (if is_bool f then ''true'' else t)"

definition with_name :: "flag \<Rightarrow> string \<Rightarrow> string list" where
  "with_name f t = [long_word f @ (if is_bool f then [] else t)]"

definition with_letter :: "flag \<Rightarrow> string \<Rightarrow> string list" where
  "with_letter f t = short_word f # (if is_bool f then [] else [t])"

lemma NoOptDefVal_bool: "NoOptDefVal f \<noteq> [] \<longleftrightarrow> is_bool f" "is_bool f \<Longrightarrow> NoOptDefVal f = ''true''"
  by (auto simp: NoOptDefVal_def is_bool_def split: flag_value.splits)

lemma setFlag_assign:
  "set_value (pf_default f) t = Some x \<Longrightarrow> Lookup (pf_name f) fs = Some f \<Longrightarrow> setFlag f t w p = Inr (assign fs (pf_name f, t) p)"
  by (simp add: setFlag_def assign_def Let_def split: option.split)

lemma flag_text_accepted: "set_value (pf_default f) t \<noteq> None \<Longrightarrow> \<exists>x. set_value (pf_default f) (flag_text f t) = Some x"
  by (auto simp: flag_text_def is_bool_def ParseBool_def split: flag_value.splits)

lemma parseArgs_name:
  assumes w: "writable fs f" and t: "set_value (pf_default f) t \<noteq> None"
  shows "parseArgs fs (with_name f t) p = Inr (assign fs (pf_name f, flag_text f t) p)"
proof -
  obtain x where x: "set_value (pf_default f) (flag_text f t) = Some x" using flag_text_accepted [OF t] by blast
  have n: "pf_name f \<noteq> []" "hd (pf_name f) \<noteq> CHR ''-''" "CHR ''='' \<notin> set (pf_name f)" "Lookup (pf_name f) fs = Some f"
    using w by (auto simp: writable_def)
  show ?thesis
  proof (cases "is_bool f")
    case True
    have key: "takeWhile (\<lambda>c. c \<noteq> CHR ''='') (pf_name f) = pf_name f" using n(3) by (induction "pf_name f") (auto simp: takeWhile_eq_all_conv)
    have "hd (pf_name f) \<noteq> CHR ''=''" using n(1,3) by (metis hd_in_set)
    with True n setFlag_assign [OF x n(4)]
    have "parseLongArg fs (''--'' @ pf_name f) [] p = Inr ([], assign fs (pf_name f, ''true'') p)"
      by (simp add: parseLongArg_def key NoOptDefVal_bool with_args_def flag_text_def)
    with True n(1) show ?thesis by (simp add: with_name_def long_word_def NoOptDefVal_bool flag_text_def)
  next
    case False
    have "acceptable fs (pf_name f, t)" using n t by (simp add: acceptable_def)
    from parseLongArg_written [OF this, of "[]" p] False n show ?thesis
      by (simp add: with_name_def long_word_def NoOptDefVal_bool flag_text_def)
  qed
qed

lemma parseArgs_letter:
  assumes w: "writable fs f" and t: "set_value (pf_default f) t \<noteq> None" and short: "pf_short f \<noteq> []"
  shows "parseArgs fs (with_letter f t) p = Inr (assign fs (pf_name f, flag_text f t) p)"
proof -
  obtain x where x: "set_value (pf_default f) (flag_text f t) = Some x" using flag_text_accepted [OF t] by blast
  obtain c where c: "pf_short f = [c]" "c \<noteq> CHR ''-''" "shorthand c fs = Some f"
    using w short by (cases "pf_short f") (auto simp: writable_def)
  have n: "Lookup (pf_name f) fs = Some f" using w by (simp add: writable_def)
  show ?thesis
    using c x setFlag_assign [OF x n] NoOptDefVal_bool [of f]
    by (cases "is_bool f") (simp_all add: with_letter_def short_word_def with_args_def flag_text_def HasPrefix_def)
qed

lemma completion_words: "c \<in> set available \<Longrightarrow> set (offered c) = set (words_of (cm_Flags c @ rootFlags))"
  using offered_words by (simp add: list_all_iff)

lemma flags_named: "list_all (\<lambda>c. list_all (\<lambda>f. pf_name f \<noteq> ''help'') (cm_Flags c @ rootFlags)) commands"
  by code_simp

text \<open>
  C19: what the shell offers after a command is what the command takes, \<^verbatim>\<open>--help\<close> apart. The script
  written by \<open>autocomplete\<close> offers for every command that is not hidden exactly the words of its flags
  and of those of the root; and each word typed after the command, with a text of its kind where it
  needs one, runs the command with this flag given and every other variable at its default.
\<close>

theorem completion_exact:
  assumes "c \<in> set available"
  shows "set (offered c) = set (words_of (cm_Flags c @ rootFlags)) \<and>
    (\<forall>f \<in> set (cm_Flags c @ rootFlags). \<forall>t. set_value (pf_default f) t \<noteq> None \<longrightarrow>
       (\<exists>p. dispatch (Name c # with_name f t) = Ok (Run c p) \<and>
          (pf_short f \<noteq> [] \<longrightarrow> dispatch (Name c # with_letter f t) = Ok (Run c p)) \<and>
          ps_args p = [] \<and> ps_given p = [pf_name f \<mapsto> flag_text f t] \<and>
          (\<forall>g \<in> set (cm_Flags c @ rootFlags). \<forall>v. pf_var g = Some v \<longrightarrow>
             ps_vars p v = (if g = f then set_value (pf_default f) (flag_text f t) else Some (pf_default g)))))"
proof (intro conjI ballI allI impI)
  show "set (offered c) = set (words_of (cm_Flags c @ rootFlags))" by (rule completion_words [OF assms])
  fix f t assume f: "f \<in> set (cm_Flags c @ rootFlags)" and t: "set_value (pf_default f) t \<noteq> None"
  let ?fs = "cm_Flags c @ rootFlags @ [help_flag]"
  let ?gs = "[(pf_name f, flag_text f t)]"
  let ?p = "assign ?fs (pf_name f, flag_text f t) (no_flags final_vars)"
  have c: "c \<in> set commands" using assms available_commands by blast
  have fs: "all_flags c = Ok ?fs" "own_names ?fs" using c commands_flags by (auto simp: list_all_iff)
  have w: "writable ?fs f" using c f flags_writable by (simp add: list_all_iff)
  then have n: "Lookup (pf_name f) ?fs = Some f" by (simp add: writable_def)
  have "acceptable ?fs (pf_name f, flag_text f t)"
    using w flag_text_accepted [OF t] by (auto simp: acceptable_def writable_def)
  note vals = fold_assign [OF fs(2) commands_start [OF c], of ?gs, simplified, OF this]
  have no_help: "pf_name f \<noteq> ''help''" using c f flags_named by (auto simp: list_all_iff)
  have run: "dispatch (Name c # ws) = Ok (Run c ?p)" if "parseArgs ?fs ws (no_flags final_vars) = Inr ?p" for ws
    using that vals(1) no_help by (simp add: dispatch_def Find_command [OF c] fs(1) run_flags_def)
  have each: "ps_vars ?p v = (if g = f then set_value (pf_default f) (flag_text f t) else Some (pf_default g))"
    if "g \<in> set (cm_Flags c @ rootFlags)" "pf_var g = Some v" for g v
  proof -
    have "ps_vars ?p v = value_given ?gs g" using vals(2) [of g v] that by simp
    moreover have "pf_name g = pf_name f \<Longrightarrow> g = f" using fs(2) that(1) f by (auto simp: own_names_def list_all_iff)
    ultimately show ?thesis by (auto simp: value_given_def)
  qed
  show "\<exists>p. dispatch (Name c # with_name f t) = Ok (Run c p) \<and>
      (pf_short f \<noteq> [] \<longrightarrow> dispatch (Name c # with_letter f t) = Ok (Run c p)) \<and>
      ps_args p = [] \<and> ps_given p = [pf_name f \<mapsto> flag_text f t] \<and>
      (\<forall>g \<in> set (cm_Flags c @ rootFlags). \<forall>v. pf_var g = Some v \<longrightarrow>
         ps_vars p v = (if g = f then set_value (pf_default f) (flag_text f t) else Some (pf_default g)))"
    using run [OF parseArgs_name [OF w t]] run [OF parseArgs_letter [OF w t]] each vals(1)
    by (intro exI [of _ ?p]) (simp add: assign_def no_flags_def Let_def)
qed

theorem completion_exact_witness:
  "\<exists>p. dispatch [''delete'', ''--log=debug''] = Ok (Run deleteCommand p) \<and>
     dispatch [''delete'', ''-l'', ''debug''] = Ok (Run deleteCommand p) \<and> ps_vars p ''logLevel'' = Some (FString ''debug'')"
proof -
  let ?f = "flag_of ''logLevel'' ''log'' ''l'' (FString ''warn'')"
  have f: "?f \<in> set (cm_Flags deleteCommand @ rootFlags)" by (simp add: rootFlags_def)
  have t: "set_value (pf_default ?f) ''debug'' \<noteq> None" by (simp add: flag_of_def)
  have a: "deleteCommand \<in> set available"
    by (rule command_available) (simp_all add: commands_def IsAvailableCommand_def deleteCommand_def)
  note exact = bspec [OF conjunct2 [OF completion_exact [OF a]] f, rule_format, OF t]
  have "Name deleteCommand = ''delete''" "pf_var ?f = Some ''logLevel''" by (simp_all add: Name_def deleteCommand_def flag_of_def)
  moreover have "with_name ?f ''debug'' = [''--log=debug'']" "with_letter ?f ''debug'' = [''-l'', ''debug'']"
    "pf_short ?f \<noteq> []" "flag_text ?f ''debug'' = ''debug''" "set_value (pf_default ?f) ''debug'' = Some (FString ''debug'')"
    by (simp_all add: with_name_def with_letter_def long_word_def short_word_def flag_text_def is_bool_def NoOptDefVal_def flag_of_def)
  ultimately show ?thesis using exact f by metis
qed

text \<open>The words that ask for help are never offered, and the hidden command and \<open>help\<close> neither.\<close>

lemma help_not_offered:
  assumes "c \<in> set available"
  shows "''--help'' \<notin> set (offered c)" "''-h'' \<notin> set (offered c)" "cm_Run c \<noteq> RunGenBashCompletion" "cm_Run c \<noteq> RunHelp"
proof -
  have c: "c \<in> set commands" "\<not> cm_Hidden c" using assms available_commands by (auto simp: available_def IsAvailableCommand_def)
  have "list_all (\<lambda>c. ''--help'' \<notin> set (words_of (cm_Flags c @ rootFlags)) \<and> ''-h'' \<notin> set (words_of (cm_Flags c @ rootFlags))) commands"
    by code_simp
  with c(1) completion_words [OF assms] show "''--help'' \<notin> set (offered c)" "''-h'' \<notin> set (offered c)" by (auto simp: list_all_iff)
  show "cm_Run c \<noteq> RunGenBashCompletion" "cm_Run c \<noteq> RunHelp" using c by (auto simp: commands_def command_defs)
qed

text \<open>Every function the text of the program names by its last command is one of the script.\<close>

lemma custom_functions:
  "map (\<lambda>c. ''dim_'' @ Name c) [showCommand, deleteCommand, labelCommand, hooktestCommand] =
     [''dim_show'', ''dim_delete'', ''dim_label'', ''dim_hooktest'']"
  "set [showCommand, deleteCommand, labelCommand, hooktestCommand] \<subseteq> set available"
proof -
  show "map (\<lambda>c. ''dim_'' @ Name c) [showCommand, deleteCommand, labelCommand, hooktestCommand] =
     [''dim_show'', ''dim_delete'', ''dim_label'', ''dim_hooktest'']"
    by (simp add: Name_def command_defs)
  have "IsAvailableCommand showCommand" "IsAvailableCommand deleteCommand" "IsAvailableCommand labelCommand" "IsAvailableCommand hooktestCommand"
    by (simp_all add: IsAvailableCommand_def command_defs)
  moreover have "set [showCommand, deleteCommand, labelCommand, hooktestCommand] \<subseteq> set commands" by (simp add: commands_def)
  ultimately show "set [showCommand, deleteCommand, labelCommand, hooktestCommand] \<subseteq> set available"
    using command_available by auto
qed

text \<open>The command succeeds whether or not the file was written.\<close>

lemma autocomplete_silent: "snd (autocomplete preamble postscript write_file w) \<in> {Ok (), Panic}"
  by (auto simp: autocomplete_def split: prod.split res.split)

end
