(* ===== verification/Spec2Isabelle.thy ===== *)
theory Spec2Isabelle
  imports Prelude GoMap Utils Durations Sha256 Types Wire IndexConfig Image SearchIndex Engine IndexCorrect
    IndexJobs Channels Notifications Build WalkImages Access Handlers Cli RegistryClient Catalog Printers
    SearchCmd Dim Base64 DockerClient Commands Hooks ServerCmd Serving
    Interleave Live Races Mirror Program Settings CommandLine
    Shutdown Completion
begin

text \<open>
  dim (\<^verbatim>\<open>github.com/nhurel/dim\<close>) manages Docker images by their labels. As a client it sets and clears
  labels, searches, shows and deletes images; as a server it keeps a search index of a private
  registry, follows the registry's notifications, runs hooks on them and forwards everything else
  to the registry behind access rules. This development models the Go code of the repository and
  states what makes it correct.

  \<^bold>\<open>The parts and their theories.\<close> Names are those of the source where the logic allows it.

  \<^item> \<open>Prelude\<close>: fallible calls (\<open>res\<close>: a value, an error, a panic), state with errors, waiting
    (\<open>None\<close>), Go's strings, numbers and \<open>strconv\<close>; the locale \<open>runs\<close> of systems of goroutines that come
    to rest. \<open>GoMap\<close>: maps of Go as association lists, under the locale \<open>go_map\<close>. \<open>Channels\<close>: buffered
    channels, under the locale \<open>channel\<close>.
  \<^item> \<open>Types\<close>, \<open>Wire\<close>: the records of \<open>lib/types.go\<close> and their JSON trees. \<open>Utils\<close>, \<open>Durations\<close>, \<open>Sha256\<close>,
    \<open>Base64\<close>: \<open>lib/utils/utils.go\<close> and the two codes of the standard library it and the docker client use.
  \<^item> The index, \<open>lib/index\<close>. \<open>IndexConfig\<close>: hooks and their templates (\<open>config.go\<close>). \<open>Image\<close>: \<open>Parse\<close> and the
    mapping of fields (\<open>image.go\<close>). \<open>SearchIndex\<close>: the operations of \<open>index.go\<close> over an engine whose calls
    are fields of a record; \<open>Engine\<close>: what is relied on of that engine (\<open>bleve_ok\<close>), with an engine in memory
    that satisfies it; \<open>IndexCorrect\<close> and \<open>IndexJobs\<close>: the abstract index, a map from full names to images,
    and the refinement. \<open>Notifications\<close>: the queue and its three workers as a step relation \<open>nstep\<close>.
    \<open>Build\<close>: the pipeline that fills the index, as the step relation \<open>bstep\<close>.
  \<^item> The registry, \<open>lib/registry\<close>. \<open>RegistryClient\<close>: connecting, searching, deleting, images of manifests.
    \<open>Catalog\<close>: \<open>WalkRepositories\<close>. \<open>WalkImages\<close>: the ten workers of \<open>Repository.WalkImages\<close>, as \<open>wstep\<close>.
  \<^item> The server, \<open>server\<close>. \<open>Access\<close>: rules and the filter before each handler. \<open>Handlers\<close>: the handlers, the
    context and the routes. \<open>ServerCmd\<close>: the proxy and the start (\<open>cmd/server.go\<close>). \<open>Hooks\<close>: the functions
    templates may call and \<open>cmd/hooktest.go\<close>. \<open>Serving\<close>: the handlers wired to the index and its queue,
    requests and workers interleaved (\<open>served\<close>). \<open>Interleave\<close>: the workers inside their jobs, one step for one
    call on the index or a channel (\<open>fstep\<close>). \<open>Live\<close>: handlers, workers and the build on one index, as
    \<open>runServer\<close> starts them (\<open>lstep\<close>, \<open>live\<close>). \<open>Races\<close>: two schedules of these that lose something. \<open>Mirror\<close>: the
    walks of the registry in front of all that. \<open>Shutdown\<close>: the goroutine of signals, the listener and the
    connections (\<open>shut\<close>, with what is used of the library manners), alone and around handlers and workers
    (\<open>lived\<close>).
  \<^item> The command line. \<open>Cli\<close>: asking for credentials. \<open>Printers\<close>: the two printers of \<open>cli\<close>, under one locale
    \<open>row_printer\<close>. \<open>SearchCmd\<close>: \<open>cmd/search.go\<close>. \<open>Dim\<close>: \<open>lib/dim.go\<close> over the interface of the docker client,
    the locale \<open>docker\<close>, which \<open>DockerClient\<close> (\<open>wrapper/dockerClient\<close>) implements. \<open>Commands\<close>: the other
    commands and \<open>cmd/root.go\<close>. \<open>Program\<close>: the flags of all commands, \<open>main.go\<close>, the end on a signal. \<open>Settings\<close>:
    flags, environment and file (\<open>cmd/root.go\<close> and what it uses of the configuration library). \<open>CommandLine\<close>:
    from the words to the function that is run (\<open>ExecuteC\<close>, with what the program uses of cobra and pflag).
    \<open>Completion\<close>: the script of \<open>cmd/gen_bash_completion.go\<close>.

  \<^bold>\<open>How the state corresponds.\<close> A method with a pointer receiver is a function from the record of its
  receiver to a new one. Goroutines, channels and wait groups are a record of their program counters
  and buffers with an inductive step relation, one step for one blocking operation, so a theorem about
  reachable states holds under every schedule. In \<open>nstep\<close> handling a job of the queue is one step on the
  index; in \<open>fstep\<close> it is one step for the search of a deletion, one for each document it deletes, and one
  for filing a pushed image (fetching it reads the registry only). \<open>interleaving_immaterial\<close> says when the
  two agree and \<open>lost_push\<close> that they need not. \<open>lstep\<close> adds the goroutines of the build on the same index. Loops of
  one goroutine are recursive functions; those that may run for ever are partial functions, whose
  value \<open>None\<close> says they never return. Where a user or a terminal answers, the answers are a list and
  \<open>None\<close> is waiting for the next one. There is no fuel anywhere; the sizes of channels (3, 5, 10) and
  the numbers of workers (3, 10) are those of the code.

  \<^bold>\<open>What is shown.\<close> The claims are numbered in the order of their importance.

  \<^item> The index. The workers refine the abstract index; every state of the server, whatever requests
    arrive and however they interleave, has its documents under their full names and changed only as
    authorised notifications say (\<open>served_authorised\<close>, \<open>events_reach_index\<close>); while the index is still built
    and the workers interleave inside their jobs, every document still comes from the registry or from an
    authorised push (\<open>live_provenance\<close>) and in the end no image is missing that nothing concerned
    (\<open>live_complete\<close>, and \<open>registry_mirrored\<close> from the catalogue on); building commits one document for each image and never deadlocks; deleting and
    searching are exact on documents. \<open>lost_push\<close> and \<open>stale_after_build\<close> show what the schedules can lose.
  \<^item> Access. No request the rules deny reaches a handler, from the configuration file on; the first rule
    that applies decides alone. A flag comes before the environment and this before the file
    (\<open>settings_precedence\<close>); a file that cannot be read means no rules (\<open>unreadable_config_opens\<close>).
  \<^item> The end. An interrupted server cuts off no handler (\<open>shutdown_graceful\<close>) and waits for nothing but its
    clients (\<open>shutdown_ends\<close>), for a silent one for ever (\<open>silent_client_blocks\<close>); it drops what its queue
    still holds (\<open>acknowledged_lost\<close>).
  \<^item> Ends and loops. The queue, the build and the walks end and are complete when calls succeed; the
    theorems \<open>WalkImages_never_closed\<close>, \<open>WalkImages_nil_image\<close>, \<open>WalkRepositories_endless\<close> and
    \<open>search_loop_endless\<close> show where they do not.
  \<^item> Ends of a wire. A search, the version and the credentials arrive at the other side as they were
    sent; the instruction that sets labels determines them.
  \<^item> The command line. Printed tables fit their width, every result is printed once; the words reach the
    command with its flags (\<open>main_runs_written\<close>), and the shell offers those (\<open>completion_exact\<close>); \<open>dim label\<close> commits exactly the labels asked for
    (\<open>label_line_commits\<close>) and never removes or pushes an image unasked.

  \<^bold>\<open>Parameters.\<close> Code outside the repository is a parameter: the search engine, the docker daemon, the
  registry and the HTTP transport, JSON and regular expressions as text, templates, the parser of image
  references, the clock. What a theorem relies on of them is a hypothesis by name (\<open>bleve_ok\<close>, \<open>batch_ok\<close>,
  \<open>serves\<close>, a reader that inverts its writer), and its witness applies it to a concrete one.

  \<^bold>\<open>Not modelled.\<close> The parsing of YAML, log output, the fixed texts cobra writes around the completion script,
  the text of help pages and of errors before a command is run, closing of files and bodies,
  sockets and TLS, and the test doubles (\<open>lib/mock\<close>, \<open>lib/index/indextest\<close>). Data races other than the
  shared error of \<open>WalkImages\<close> are left out; the engine is taken to be safe for concurrent use, as it
  documents.
\<close>

section \<open>A server started from a configuration\<close>

text \<open>
  C9: from the configuration file to the wire. When \<open>dim server\<close> gets as far as serving, it serves
  with the rules of the file: whatever the four handlers do, a request that the rules deny is
  refused, and no rule panics. It speaks TLS exactly when it was given both files, and forwards
  with the configured credentials.
\<close>

theorem runServer_guarded:
  assumes "runServer join now url_Parse parse hooks compile auths registry_New index_New g fl = Some (started, Ok run)"
    and "rw_Status w = None" and "\<not> allowed (sc_Authorizations (rs_config run)) r"
  shows "(\<exists>w' code. NewServer (rs_config run) search notify version forwards r (s, w) = Ok (s, w') \<and>
       rw_Status w' = Some code \<and> code \<in> {301, 400, 401, 404}) \<and>
    (\<exists>rules. auths = Ok rules \<and>
       list_all2 (\<lambda>a a'. \<exists>e. a' = a\<lparr>au_regexp := Some e\<rparr>) rules (sc_Authorizations (rs_config run))) \<and>
    (rs_tls run = (if sv_sslCertFile fl = [] then None else Some (sv_sslCertFile fl, sv_sslKeyFile fl))) \<and>
    (sv_sslCertFile fl = [] \<longleftrightarrow> sv_sslKeyFile fl = []) \<and>
    rp_username (rs_proxy run) = g_username g \<and> rp_password (rs_proxy run) = g_password g"
proof -
  note run = runServer_Ok [OF assms(1)]
  note rules = readServerConfig_Ok [OF run(1)]
  from NewServer_refuses [OF rules(2) assms(2,3), of search notify version forwards s] rules(3) run(2-5)
  show ?thesis by (intro conjI)
qed

definition sample_globals :: globals where
  "sample_globals = \<lparr>g_registryURL = ''https://hub'', g_username = ''bob'', g_password = ''pw'', g_insecure = False\<rparr>"

theorem runServer_guarded_witness:
  "\<exists>run w'. runServer (\<lambda>a b. a @ ''/'' @ b) ''now'' (\<lambda>u. Ok \<lparr>url_Scheme = ''https'', url_Host = ''hub'', url_Path = []\<rparr>)
       (\<lambda>name fm action. Ok action) (Ok []) (\<lambda>p. Ok (\<lambda>s. HasPrefix s ''/v2/'')) (Ok [sample_rule\<lparr>au_Path := ''/v2/$''\<rparr>])
       (\<lambda>a u. Some (Ok u)) (\<lambda>cfg c. Ok c) sample_globals
       \<lparr>sv_port = '':6000'', sv_indexDir = ''idx'', sv_sslCertFile = [], sv_sslKeyFile = []\<rparr> = Some (Some ''https://hub'', Ok run) \<and>
     rs_tls run = None \<and> rp_username (rs_proxy run) = ''bob'' \<and>
     (\<exists>code. NewServer (rs_config run) (\<lambda>r sw. Panic) (\<lambda>r sw. Panic) (\<lambda>r sw. Panic) (\<lambda>r sw. Panic) sample_put ((), new_Response) =
        Ok ((), w') \<and> rw_Status w' = Some code)"
proof -
  let ?auths = "[sample_rule\<lparr>au_Path := ''/v2/$''\<rparr>]"
  let ?fl = "\<lparr>sv_port = '':6000'', sv_indexDir = ''idx'', sv_sslCertFile = [], sv_sslKeyFile = []\<rparr>"
  have "distinct (map fst hookFunctions)" by (simp add: hookFunctions_def)
  from readConfigHooks_eq [OF this, of "\<lambda>name fm action. Ok action" "Ok []"]
  have "res_map cfg_Hooks (readConfigHooks (\<lambda>name fm action. Ok action) (Ok []) hookFunctions) = Ok []" by simp
  then obtain cfg where cfg: "readConfigHooks (\<lambda>name fm action. Ok action) (Ok []) hookFunctions = Ok cfg"
    unfolding res_map_Ok_iff by blast
  obtain sc where sc: "readServerConfig (\<lambda>p. Ok (\<lambda>s. HasPrefix s ''/v2/'')) (Ok ?auths) '':6000'' = Ok sc"
      "sc_Authorizations sc = [sample_rule\<lparr>au_Path := ''/v2/$'', au_regexp := Some (\<lambda>s. HasPrefix s ''/v2/'')\<rparr>]"
    by (simp add: readServerConfig_def CompilePath_def Let_def)
  obtain run where run: "runServer (\<lambda>a b. a @ ''/'' @ b) ''now'' (\<lambda>u. Ok \<lparr>url_Scheme = ''https'', url_Host = ''hub'', url_Path = []\<rparr>)
       (\<lambda>name fm action. Ok action) (Ok []) (\<lambda>p. Ok (\<lambda>s. HasPrefix s ''/v2/'')) (Ok ?auths)
       (\<lambda>a u. Some (Ok u)) (\<lambda>cfg c. Ok c) sample_globals ?fl = Some (Some ''https://hub'', Ok run)" "rs_config run = sc"
    by (simp add: runServer_def sample_globals_def auth_of_def cfg sc)
  have "\<not> allowed (sc_Authorizations (rs_config run)) sample_put"
    by (simp add: run(2) sc(2) allowed_def rule_applies_def Applies_def sample_rule_def sample_put_def HasPrefix_def knows_def)
  moreover have "rw_Status new_Response = None" by (simp add: new_Response_def)
  ultimately show ?thesis
    using runServer_guarded [OF run(1), of new_Response sample_put "\<lambda>r sw. Panic" "\<lambda>r sw. Panic" "\<lambda>r sw. Panic" "\<lambda>r sw. Panic" "()"] run(1)
    by (auto simp: sample_globals_def)
qed

section \<open>From the registry's events to the documents of the index\<close>

lemma fold_work: "handle_jobs T P idx jobs = Ok (idx', started) \<Longrightarrow> fold (\<lambda>j x. work T P x j) jobs idx = idx'"
  by (induction jobs arbitrary: idx started) (auto simp: work_def res_simps)

lemma work_refines:
  assumes "bleve_ok fmt (idx_bleve idx) docs" and "keyed (contents docs idx)"
    and "run_safe P idx (contents docs idx) jobs"
  shows "contents docs (fold (\<lambda>j x. work T P x j) jobs idx) = fold (abs_job (fetched P idx)) jobs (contents docs idx) \<and>
      keyed (contents docs (fold (\<lambda>j x. work T P x j) jobs idx)) \<and>
      same_but_index idx (fold (\<lambda>j x. work T P x j) jobs idx)"
  using handle_jobs_contents [OF assms, of T] fold_work [of T P idx jobs] by blast

text \<open>Whatever prefix of whatever order of the jobs is worked off, it is safe.\<close>

definition all_safe :: "(string \<Rightarrow> 'n res) \<Rightarrow> ('ix, 't, 'f, 'n) Index \<Rightarrow> (string \<rightharpoonup> IndexImage) \<Rightarrow>
    NotificationJob list \<Rightarrow> bool" where
  "all_safe P idx m jobs \<longleftrightarrow> (\<forall>js. mset js \<subseteq># mset jobs \<longrightarrow> run_safe P idx m js)"

text \<open>
  The invariant of the running server. In every state the workers can reach, under every
  schedule and before all jobs are done, every document of the index is filed under its full name,
  the documents are those the abstract steps of the jobs done so far make of the documents at the
  start, and nothing but the documents has changed.
\<close>

theorem index_invariant:
  assumes "bleve_ok fmt (idx_bleve idx) docs" and "keyed (contents docs idx)"
    and "all_safe P idx (contents docs idx) jobs"
    and "nreach (work T P) (fold Submit jobs (new_nsys idx)) t"
  shows "keyed (contents docs (ns_index t)) \<and>
    contents docs (ns_index t) = fold (abs_job (fetched P idx)) (ns_done t) (contents docs idx) \<and>
    mset (ns_done t) \<subseteq># mset jobs \<and> same_but_index idx (ns_index t)"
proof -
  let ?s0 = "fold Submit jobs (new_nsys idx)"
  have "ns_index ?s0 = fold (\<lambda>j x. work T P x j) (ns_done ?s0) idx" by (simp add: Submits_eq new_nsys_def)
  from nreach_invariant [OF assms(4) _ this] have t: "accounted t = mset jobs"
    "ns_index t = fold (\<lambda>j x. work T P x j) (ns_done t) idx"
    by (simp_all add: running_Submits running_new accounted_Submits accounted_new)
  then have sub: "mset (ns_done t) \<subseteq># mset jobs" by (metis accounted_def mset_subset_eq_add_right)
  with assms(3) have "run_safe P idx (contents docs idx) (ns_done t)" by (simp add: all_safe_def)
  from work_refines [OF assms(1,2) this, of T] sub show ?thesis unfolding t(2) by blast
qed

lemma sublist_singleton: "mset js \<subseteq># {#j#} \<Longrightarrow> js = [] \<or> js = [j]"
  by (cases js) (auto simp: insert_subset_eq_iff)

lemma sample_all_safe:
  "all_safe Ok sample_index (contents map_of sample_index)
     [\<lparr>job_Action = DeleteAction, job_Repository = [], job_Tag = [], job_Digest = ''d1''\<rparr>]"
  by (auto simp: all_safe_def sample_with_id fetch_safe_def dest!: sublist_singleton)

theorem index_invariant_witness:
  "\<exists>t. nreach (work (\<lambda>_. None) Ok) (fold Submit
        [\<lparr>job_Action = DeleteAction, job_Repository = [], job_Tag = [], job_Digest = ''d1''\<rparr>] (new_nsys sample_index)) t \<and>
     keyed (contents map_of (ns_index t)) \<and> same_but_index sample_index (ns_index t)"
proof -
  let ?s = "fold Submit [\<lparr>job_Action = DeleteAction, job_Repository = [], job_Tag = [], job_Digest = ''d1''\<rparr>] (new_nsys sample_index)"
  have "nreach (work (\<lambda>_. None) Ok) ?s ?s" by (rule nreach.stay)
  from index_invariant [OF sample_bleve_ok sample_keyed sample_all_safe this] this show ?thesis by blast
qed


definition sample_envelope :: "Event list" where
  "sample_envelope =
     [\<lparr>ev_Action = EventActionDelete, ev_MediaType = [], ev_Repository = [], ev_Tag = [], ev_Digest = ''d1''\<rparr>]"


section \<open>The version, from the server to the terminal\<close>

text \<open>
  \<open>dim version\<close> prints what the server knows: its version as it was started with and the time it
  has been up, through the handler, JSON and the client, when the JSON reader inverts the writer.
\<close>

theorem version_end_to_end:
  assumes "environment_Get c VersionKey = Some (CString v)" and "environment_Get c StartTimeKey = Some (CTime start)"
    and "json_print (enc_Info \<lparr>info_Version = v, info_Uptime = Duration_String (clamp_int (now - start))\<rparr>) = Ok b"
    and "json_parse b = Ok (enc_Info \<lparr>info_Version = v, info_Uptime = Duration_String (clamp_int (now - start))\<rparr>)"
    and "g_registryURL g \<noteq> []"
  shows "\<exists>w'. Version json_print c now r (s, new_Response) = Ok (s, w') \<and> rw_Status w' = Some 200 \<and>
     PrintVersion (\<lambda>_ _. Ok ()) (\<lambda>_. ServerVersion json_parse status_text (\<lambda>_. Ok (200, rw_Body w')) url) g version =
       (''dim version : '' @ version @ newline @ ''server version : '' @ v @ newline @
        ''server uptime : '' @ Duration_String (clamp_int (now - start)) @ newline, Ok ())"
  using assms
  by (simp add: Version_def Write_def WriteHeader_def new_Response_def PrintVersion_def ServerVersion_def dec_enc_Info)

theorem version_end_to_end_witness:
  "\<exists>info w'. Version (\<lambda>v. Ok ''tree'') [(VersionKey, CString ''1.0''), (StartTimeKey, CTime 0)] 5 sample_request ((), new_Response) = Ok ((), w') \<and>
     rw_Status w' = Some 200 \<and>
     PrintVersion (\<lambda>_ _. Ok ()) (\<lambda>_. ServerVersion (\<lambda>t. Ok (enc_Info info)) (\<lambda>_. []) (\<lambda>_. Ok (200, rw_Body w')) []) sample_globals ''1.1'' =
       (''dim version : 1.1'' @ newline @ ''server version : 1.0'' @ newline @
        ''server uptime : '' @ Duration_String (clamp_int (5 - 0)) @ newline, Ok ())"
proof -
  let ?c = "[(VersionKey, CString ''1.0''), (StartTimeKey, CTime 0)]"
  let ?i = "\<lparr>info_Version = ''1.0'', info_Uptime = Duration_String (clamp_int (5 - 0))\<rparr>"
  have "environment_Get ?c VersionKey = Some (CString ''1.0'')" "environment_Get ?c StartTimeKey = Some (CTime 0)"
    by (simp_all add: environment_Get_def VersionKey_def StartTimeKey_def)
  moreover have "g_registryURL sample_globals \<noteq> []" by (simp add: sample_globals_def)
  ultimately show ?thesis
    using version_end_to_end [of ?c "''1.0''" 0 "\<lambda>v. Ok ''tree''" 5 "''tree''" "\<lambda>t. Ok (enc_Info ?i)" sample_globals
        sample_request "()" "\<lambda>_. []" "[]" "''1.1''"]
    by (intro exI [of _ ?i]) simp
qed

end
